(* ===== verification/Prelude.thy ===== *)
theory Prelude
  imports Main "HOL-Library.Word"
begin

text \<open>
  Shared vocabulary of the development: the machine integers of the C++ sources, the
  errors a call can end with, sequencing of fallible calls, reachability of a step
  relation with its invariant rule (stated once as a locale), the \<open>std::map\<close> operations
  the program uses, and generic list lemmas.
\<close>

section \<open>Machine integers and errors\<close>

type_synonym u8 = "8 word"
type_synonym u16 = "16 word"
type_synonym u32 = "32 word"
type_synonym u64 = "64 word"

text \<open>
  Every C++ exception that can leave a function of the program is a constructor of
  \<open>error\<close>, with the text of \<open>what()\<close> where the source gives one. \<open>OutOfBounds\<close> is not an
  exception: it marks the undefined behaviour of an access outside a buffer, which the
  model makes visible instead of returning an unspecified value; \<open>NullPointer\<close> marks the
  use of a null pointer, and \<open>InvalidFree\<close> the release of a block that is not allocated.
\<close>

datatype error =
    LockTimeout
  | RuntimeError string
  | BadAlloc
  | InvalidArgument string
  | OutOfRange string
  | WebsocketException string
  | OutOfBounds nat
  | NullPointer
  | InvalidFree nat

type_synonym 'a res = "error + 'a"

definition bindE :: "'a res \<Rightarrow> ('a \<Rightarrow> 'b res) \<Rightarrow> 'b res" where
  "bindE m f = (case m of Inl e \<Rightarrow> Inl e | Inr x \<Rightarrow> f x)"

lemma bindE_simps [simp]: "bindE (Inl e) f = Inl e" "bindE (Inr x) f = f x"
  by (simp_all add: bindE_def)

lemma bindE_Inr_iff: "bindE m f = Inr y \<longleftrightarrow> (\<exists>x. m = Inr x \<and> f x = Inr y)"
  by (cases m) auto

lemma bindE_Inl_iff: "bindE m f = Inl e \<longleftrightarrow> m = Inl e \<or> (\<exists>x. m = Inr x \<and> f x = Inl e)"
  by (cases m) auto

section \<open>Proof collections\<close>

named_theorems op_defs \<open>definitions of operations, for unfolding\<close>
named_theorems inv_pres \<open>preservation of an invariant by an operation\<close>

section \<open>Reachability\<close>

inductive reach :: "('s \<Rightarrow> bool) \<Rightarrow> ('s \<Rightarrow> 's \<Rightarrow> bool) \<Rightarrow> 's \<Rightarrow> bool"
  for start :: "'s \<Rightarrow> bool" and step :: "'s \<Rightarrow> 's \<Rightarrow> bool" where
  reach_start: "start s \<Longrightarrow> reach start step s"
| reach_step: "reach start step s \<Longrightarrow> step s t \<Longrightarrow> reach start step t"

text \<open>The contract of an inductive invariant, and what it buys.\<close>

locale step_invariant =
  fixes start :: "'s \<Rightarrow> bool"
    and step :: "'s \<Rightarrow> 's \<Rightarrow> bool"
    and I :: "'s \<Rightarrow> bool"
  assumes inv_start: "start s \<Longrightarrow> I s"
    and inv_step: "step s t \<Longrightarrow> I s \<Longrightarrow> I t"
begin

lemma inv_reach: "reach start step s \<Longrightarrow> I s"
  by (induction rule: reach.induct) (auto intro: inv_start inv_step)

end

section \<open>The ordered associative container\<close>

text \<open>
  \<open>std::map\<close> as an association list with strictly increasing keys. \<open>insert\<close> leaves an
  entry that is already present alone, as the standard prescribes; \<open>erase\<close> and \<open>erase_if\<close>
  remove by key and by predicate.
\<close>

fun map_insert :: "'k::linorder \<Rightarrow> 'v \<Rightarrow> ('k \<times> 'v) list \<Rightarrow> ('k \<times> 'v) list" where
  "map_insert k v [] = [(k, v)]"
| "map_insert k v ((k', v') # xs) =
     (if k < k' then (k, v) # (k', v') # xs
      else if k = k' then (k', v') # xs
      else (k', v') # map_insert k v xs)"

definition map_contains :: "('k \<times> 'v) list \<Rightarrow> 'k \<Rightarrow> bool" where
  "map_contains xs k = (k \<in> fst ` set xs)"

definition map_erase :: "'k \<Rightarrow> ('k \<times> 'v) list \<Rightarrow> ('k \<times> 'v) list" where
  "map_erase k xs = filter (\<lambda>p. fst p \<noteq> k) xs"

definition map_erase_if :: "('k \<Rightarrow> bool) \<Rightarrow> ('k \<times> 'v) list \<Rightarrow> ('k \<times> 'v) list" where
  "map_erase_if P xs = filter (\<lambda>p. \<not> P (fst p)) xs"

abbreviation keys :: "('k \<times> 'v) list \<Rightarrow> 'k list" where
  "keys xs \<equiv> map fst xs"

lemma set_map_insert:
  "set (map_insert k v xs) \<subseteq> insert (k, v) (set xs)"
  by (induction k v xs rule: map_insert.induct) auto

lemma keys_map_insert: "set (keys (map_insert k v xs)) = insert k (set (keys xs))"
  by (induction k v xs rule: map_insert.induct) auto

lemma strict_map_insert:
  "sorted_wrt (<) (keys xs) \<Longrightarrow> sorted_wrt (<) (keys (map_insert k v xs))"
  by (induction k v xs rule: map_insert.induct)
     (auto simp del: set_map simp: keys_map_insert)

lemma map_of_map_insert:
  assumes "sorted_wrt (<) (keys xs)"
  shows "map_of (map_insert k v xs) =
    (case map_of xs k of None \<Rightarrow> (map_of xs)(k \<mapsto> v) | Some _ \<Rightarrow> map_of xs)"
  using assms
proof (induction k v xs rule: map_insert.induct)
  case (1 k v)
  then show ?case by simp
next
  case (2 k v k' v' xs)
  have "k < k' \<Longrightarrow> k \<notin> fst ` set xs"
    using "2.prems" by auto
  then have "k < k' \<Longrightarrow> map_of xs k = None"
    by (simp add: map_of_eq_None_iff)
  with 2 show ?case
    by (auto split: option.splits)
qed

lemma length_map_insert_le: "length (map_insert k v xs) \<le> Suc (length xs)"
  by (induction k v xs rule: map_insert.induct) auto

lemma length_map_insert_new:
  "k \<notin> set (keys xs) \<Longrightarrow> length (map_insert k v xs) = Suc (length xs)"
  by (induction k v xs rule: map_insert.induct) auto

lemma map_insert_present:
  "sorted_wrt (<) (keys xs) \<Longrightarrow> k \<in> set (keys xs) \<Longrightarrow> map_insert k v xs = xs"
  by (induction k v xs rule: map_insert.induct) auto

lemma map_contains_map_of: "map_contains xs k \<longleftrightarrow> map_of xs k \<noteq> None"
  by (simp add: map_contains_def map_of_eq_None_iff)

lemma sorted_keys_filter:
  "sorted_wrt (<) (keys xs) \<Longrightarrow> sorted_wrt (<) (keys (filter P xs))"
  by (induction xs) auto

lemma map_of_map_erase: "map_of (map_erase k xs) = (map_of xs)(k := None)"
  by (induction xs) (auto simp: map_erase_def)

lemma map_of_map_erase_if:
  "map_of (map_erase_if P xs) = (\<lambda>k. if P k then None else map_of xs k)"
  by (induction xs) (auto simp: map_erase_if_def)

lemma length_filter_less_ex:
  "x \<in> set xs \<Longrightarrow> \<not> P x \<Longrightarrow> length (filter P xs) < length xs"
  by (induction xs) (auto simp: less_Suc_eq_le)

lemma length_map_erase_less:
  "map_contains xs k \<Longrightarrow> length (map_erase k xs) < length xs"
  by (auto simp: map_contains_def map_erase_def intro: length_filter_less_ex)

end
