(* ===== verification/Codec_Locks.thy ===== *)
theory Codec_Locks
  imports Prelude
begin

text \<open>
  The two locks of \<open>AVCodecContextManager\<close> and the threads that use them, interleaved:
  readers of the configuration (\<open>get_codec_info\<close> building a \<open>CodecInfoProvider\<close>, which
  copies \<open>m_info\<close> in its first member initialiser and takes the shared lock in its second),
  threads inside \<open>send_frame\<close> or \<open>receive_packet\<close> (holding \<open>m_codec_context_mutex\<close>), and threads
  inside \<open>change_resolution\<close> (holding both locks while they write the width, then the
  height, and reinitialise the encoder).
\<close>

section \<open>Threads\<close>

text \<open>A reader copies the width, then the height, then locks; it keeps its copy.\<close>

datatype reader =
    RIdle
  | RCopying u32
  | RCopied u32 u32
  | RLocked u32 u32
  | RReleased u32 u32

datatype writer =
    WIdle
  | WLocked u32 u32
  | WWidthSet u32 u32
  | WHeightSet u32 u32

record codec_locks =
  cur_width :: u32
  cur_height :: u32
  readers :: "nat \<Rightarrow> reader"
  writers :: "nat \<Rightarrow> writer"
  encoding :: "nat \<Rightarrow> bool"

definition codec_locks_start :: "u32 \<Rightarrow> u32 \<Rightarrow> codec_locks \<Rightarrow> bool" where
  "codec_locks_start w h s =
     (s = \<lparr>cur_width = w, cur_height = h, readers = (\<lambda>_. RIdle), writers = (\<lambda>_. WIdle),
           encoding = (\<lambda>_. False)\<rparr>)"

definition holds_shared :: "reader \<Rightarrow> bool" where
  "holds_shared r = (case r of RLocked _ _ \<Rightarrow> True | _ \<Rightarrow> False)"

definition holds_exclusive :: "writer \<Rightarrow> bool" where
  "holds_exclusive w = (w \<noteq> WIdle)"

inductive codec_lock_step :: "codec_locks \<Rightarrow> codec_locks \<Rightarrow> bool" where
  copy_width: "readers s i = RIdle \<Longrightarrow>
    codec_lock_step s (s\<lparr>readers := (readers s)(i := RCopying (cur_width s))\<rparr>)"
| copy_height: "readers s i = RCopying w \<Longrightarrow>
    codec_lock_step s (s\<lparr>readers := (readers s)(i := RCopied w (cur_height s))\<rparr>)"
| lock_shared: "readers s i = RCopied w h \<Longrightarrow> (\<And>j. \<not> holds_exclusive (writers s j)) \<Longrightarrow>
    codec_lock_step s (s\<lparr>readers := (readers s)(i := RLocked w h)\<rparr>)"
| unlock_shared: "readers s i = RLocked w h \<Longrightarrow>
    codec_lock_step s (s\<lparr>readers := (readers s)(i := RReleased w h)\<rparr>)"
| lock_context: "\<not> encoding s i \<Longrightarrow> (\<And>j. \<not> encoding s j) \<Longrightarrow>
    (\<And>j. \<not> holds_exclusive (writers s j)) \<Longrightarrow>
    codec_lock_step s (s\<lparr>encoding := (encoding s)(i := True)\<rparr>)"
| unlock_context: "encoding s i \<Longrightarrow>
    codec_lock_step s (s\<lparr>encoding := (encoding s)(i := False)\<rparr>)"
| lock_both: "writers s i = WIdle \<Longrightarrow> (\<And>j. \<not> holds_exclusive (writers s j)) \<Longrightarrow>
    (\<And>j. \<not> holds_shared (readers s j)) \<Longrightarrow> (\<And>j. \<not> encoding s j) \<Longrightarrow>
    codec_lock_step s (s\<lparr>writers := (writers s)(i := WLocked w h)\<rparr>)"
| set_width: "writers s i = WLocked w h \<Longrightarrow>
    codec_lock_step s (s\<lparr>cur_width := w, writers := (writers s)(i := WWidthSet w h)\<rparr>)"
| set_height: "writers s i = WWidthSet w h \<Longrightarrow>
    codec_lock_step s (s\<lparr>cur_height := h, writers := (writers s)(i := WHeightSet w h)\<rparr>)"
| unlock_both: "writers s i = WHeightSet w h \<Longrightarrow>
    codec_lock_step s (s\<lparr>writers := (writers s)(i := WIdle)\<rparr>)"

definition codec_lock_reach :: "u32 \<Rightarrow> u32 \<Rightarrow> codec_locks \<Rightarrow> bool" where
  "codec_lock_reach w h = reach (codec_locks_start w h) codec_lock_step"

lemma holds_simps [simp]:
  "holds_shared (RLocked w h)" "\<not> holds_shared RIdle" "\<not> holds_shared (RCopying w)"
  "\<not> holds_shared (RCopied w h)" "\<not> holds_shared (RReleased w h)"
  "\<not> holds_exclusive WIdle" "holds_exclusive (WLocked w h)"
  "holds_exclusive (WWidthSet w h)" "holds_exclusive (WHeightSet w h)"
  by (simp_all add: holds_shared_def holds_exclusive_def)

section \<open>Exclusion\<close>

definition codec_exclusion :: "codec_locks \<Rightarrow> bool" where
  "codec_exclusion s =
     ((\<forall>i j. holds_exclusive (writers s i) \<longrightarrow> holds_exclusive (writers s j) \<longrightarrow> i = j)
      \<and> (\<forall>i j. holds_exclusive (writers s i) \<longrightarrow> \<not> holds_shared (readers s j))
      \<and> (\<forall>i j. holds_exclusive (writers s i) \<longrightarrow> \<not> encoding s j)
      \<and> (\<forall>i j. encoding s i \<longrightarrow> encoding s j \<longrightarrow> i = j))"

lemma codec_exclusion_step:
  "codec_lock_step s t \<Longrightarrow> codec_exclusion s \<Longrightarrow> codec_exclusion t"
  by (induction rule: codec_lock_step.induct)
     (simp_all add: codec_exclusion_def, (metis holds_simps)+)

interpretation locks: step_invariant "codec_locks_start w h" codec_lock_step codec_exclusion
proof
  show "codec_locks_start w h s \<Longrightarrow> codec_exclusion s" for s
    by (simp add: codec_locks_start_def codec_exclusion_def)
qed (rule codec_exclusion_step)

lemma stable_under_shared:
  assumes "codec_lock_step s t" and "codec_exclusion s" and "holds_shared (readers s i)"
  shows "cur_width t = cur_width s \<and> cur_height t = cur_height s"
  using assms by (induction rule: codec_lock_step.induct) (auto simp: codec_exclusion_def, (metis holds_simps)+)

section \<open>Properties\<close>

text \<open>
  C14. While a thread is inside \<open>change_resolution\<close>, no other thread is inside it, inside
  \<open>send_frame\<close> or \<open>receive_packet\<close>, or holds the configuration's shared lock; and while
  the shared lock is held, no step of any thread changes the stored resolution.
\<close>

theorem codec_lock_exclusion:
  assumes "codec_lock_reach w h s"
  shows "codec_exclusion s
    \<and> (codec_lock_step s t \<and> holds_shared (readers s i) \<longrightarrow>
        cur_width t = cur_width s \<and> cur_height t = cur_height s)"
  using locks.inv_reach[of w h s] assms stable_under_shared
  by (auto simp: codec_lock_reach_def)

text \<open>One reader that locked before a change, and the change waiting behind it.\<close>

definition torn_state :: codec_locks where
  "torn_state = \<lparr>cur_width = 640, cur_height = 480,
     readers = (\<lambda>_. RIdle)(0 := RLocked 1280 480),
     writers = (\<lambda>_. WIdle), encoding = (\<lambda>_. False)\<rparr>"

lemma torn_state_reach: "codec_lock_reach 1280 720 torn_state"
proof -
  let ?R = "reach (codec_locks_start 1280 720) codec_lock_step"
  let ?s = "\<lambda>w h r q. \<lparr>cur_width = w, cur_height = h, readers = (\<lambda>_. RIdle)(0 := r),
    writers = (\<lambda>_. WIdle)(0 := q), encoding = (\<lambda>_. False)\<rparr>"
  have step: "?R (?s w' h' r' q')" if "?R (?s w h r q)"
    and "codec_lock_step (?s w h r q) (?s w' h' r' q')" for w h r q w' h' r' q'
    using that by (rule reach.reach_step)
  have 0: "?R (?s 1280 720 RIdle WIdle)"
    by (rule reach.reach_start) (simp add: codec_locks_start_def fun_upd_idem)
  have 1: "?R (?s 1280 720 (RCopying 1280) WIdle)"
    by (rule step[OF 0]) (use codec_lock_step.copy_width[of "?s 1280 720 RIdle WIdle" 0] in simp)
  have 2: "?R (?s 1280 720 (RCopying 1280) (WLocked 640 480))"
    by (rule step[OF 1])
       (use codec_lock_step.lock_both[of "?s 1280 720 (RCopying 1280) WIdle" 0 640 480] in simp)
  have 3: "?R (?s 640 720 (RCopying 1280) (WWidthSet 640 480))"
    by (rule step[OF 2])
       (use codec_lock_step.set_width[of "?s 1280 720 (RCopying 1280) (WLocked 640 480)" 0] in simp)
  have 4: "?R (?s 640 480 (RCopying 1280) (WHeightSet 640 480))"
    by (rule step[OF 3])
       (use codec_lock_step.set_height[of "?s 640 720 (RCopying 1280) (WWidthSet 640 480)" 0] in simp)
  have 5: "?R (?s 640 480 (RCopied 1280 480) (WHeightSet 640 480))"
    by (rule step[OF 4])
       (use codec_lock_step.copy_height[of "?s 640 480 (RCopying 1280) (WHeightSet 640 480)" 0] in simp)
  have 6: "?R (?s 640 480 (RCopied 1280 480) WIdle)"
    by (rule step[OF 5])
       (use codec_lock_step.unlock_both[of "?s 640 480 (RCopied 1280 480) (WHeightSet 640 480)" 0] in simp)
  have "?R (?s 640 480 (RLocked 1280 480) WIdle)"
    by (rule step[OF 6])
       (use codec_lock_step.lock_shared[of "?s 640 480 (RCopied 1280 480) WIdle" 0] in simp)
  then show ?thesis
    by (simp add: codec_lock_reach_def torn_state_def fun_upd_idem)
qed

theorem codec_lock_exclusion_witness:
  "codec_lock_reach 1280 720 torn_state \<and> codec_exclusion torn_state
   \<and> holds_shared (readers torn_state 0)"
  using codec_lock_exclusion[OF torn_state_reach] torn_state_reach by (simp add: torn_state_def)

text \<open>
  C15. The shared lock does not protect the copy it is meant to protect: since
  \<open>CodecInfoProvider\<close> copies the configuration before it locks, a thread can hold the
  shared lock with a width and a height that were never in force together, here the old
  width 1280 with the new height 480 of a change from 1280x720 to 640x480.
\<close>

theorem codec_info_torn_read:
  "\<exists>s. codec_lock_reach 1280 720 s \<and> readers s 0 = RLocked 1280 480
     \<and> cur_width s = 640 \<and> cur_height s = 480 \<and> (\<forall>j. \<not> holds_exclusive (writers s j))"
  using torn_state_reach by (intro exI[of _ torn_state]) (simp add: torn_state_def)

end
