(* ===== verification/Socket_IO.thy ===== *)
theory Socket_IO
  imports Prelude "HOL-Library.Sublist"
begin

unbundle bit_operations_syntax

text \<open>
  The blocking socket transfers of \<open>server.cpp\<close> (lines 23 to 112): the send and receive
  loops with their \<open>EAGAIN\<close> retries, and the length-prefix framing on top of them.

  The kernel side of \<open>send\<close> and \<open>read\<close> is a script: what the successive calls meet. For
  \<open>send\<close>, \<open>Room n\<close> is a call that finds room for \<open>n\<close> bytes and takes as many of the offered
  bytes as fit. For \<open>read\<close>, \<open>Seg bs\<close> is a segment of bytes from the peer: a call takes what
  it asked for at most and leaves the rest; a call that gets no byte has met the end of the
  stream. A failing call carries the value of \<open>errno\<close> at
  the test on line 31 or 70 and its value at the \<open>return\<close> statement after the error was
  logged. Values of \<open>errno\<close> are positive, which the type \<open>num\<close> expresses. A loop that
  outlives its script has not returned: the result is \<open>None\<close>.
\<close>

section \<open>The kernel's answers\<close>

type_synonym errno = num

definition EAGAIN :: errno where
  "EAGAIN = num_of_nat 11"

datatype send_event = Room nat | SendFail errno errno

datatype recv_event = Seg "u8 list" | Eof | RecvFail errno errno

section \<open>Sending\<close>

text \<open>
  \<open>socket_send_blocking buf sent outs\<close>: the loop with \<open>sent\<close> bytes already gone. The result
  is the return value, the bytes handed to the socket from here on, and the rest of the
  script.
\<close>

fun socket_send_loop ::
  "u8 list \<Rightarrow> nat \<Rightarrow> send_event list \<Rightarrow> (int \<times> u8 list \<times> send_event list) option" where
  "socket_send_loop buf sent [] = (if sent < length buf then None else Some (0, [], []))"
| "socket_send_loop buf sent (ev # outs) =
     (if sent < length buf then
        (case ev of
           Room n \<Rightarrow>
             (let ret = min n (length buf - sent)
              in map_option (\<lambda>(r, wire, rest). (r, take ret (drop sent buf) @ wire, rest))
                   (socket_send_loop buf (sent + ret) outs))
         | SendFail e e' \<Rightarrow>
             (if e = EAGAIN then socket_send_loop buf sent outs
              else Some (- numeral e', [], outs)))
      else Some (0, [], ev # outs))"

definition socket_send_blocking ::
  "u8 list \<Rightarrow> send_event list \<Rightarrow> (int \<times> u8 list \<times> send_event list) option" where
  "socket_send_blocking buf outs = socket_send_loop buf 0 outs"

text \<open>The bytes of a \<open>size_t\<close> in memory, least significant first (x86-64).\<close>

definition size_bytes :: "u64 \<Rightarrow> u8 list" where
  "size_bytes sz = map (\<lambda>i. ucast (drop_bit (8 * i) sz)) [0..<8]"

definition bytes_size :: "u8 list \<Rightarrow> u64" where
  "bytes_size bs = foldr (\<lambda>b acc. ucast b OR push_bit 8 acc) bs 0"

definition socket_send_blocking_lpf ::
  "u8 list \<Rightarrow> send_event list \<Rightarrow> (int \<times> u8 list \<times> send_event list) option" where
  "socket_send_blocking_lpf buf outs =
     (case socket_send_blocking (size_bytes (of_nat (length buf))) outs of
        None \<Rightarrow> None
      | Some (ret, wire, outs') \<Rightarrow>
          if ret < 0 then Some (ret, wire, outs')
          else map_option (\<lambda>(ret', wire', outs''). (ret', wire @ wire', outs''))
                 (socket_send_blocking buf outs'))"

section \<open>Receiving\<close>

text \<open>
  \<open>socket_receive_loop sz got evs\<close>: the loop with the bytes \<open>got\<close> already in the buffer.
  The result is the return value, the buffer's filled part and the rest of the script.
\<close>

fun socket_receive_loop ::
  "nat \<Rightarrow> u8 list \<Rightarrow> recv_event list \<Rightarrow> (int \<times> u8 list \<times> recv_event list) option" where
  "socket_receive_loop sz got [] = (if length got < sz then None else Some (0, got, []))"
| "socket_receive_loop sz got (ev # evs) =
     (if length got < sz then
        (case ev of
           Seg bs \<Rightarrow>
             (let n = sz - length got
              in if bs = [] then Some (-1, got, evs)
                 else if length bs \<le> n then socket_receive_loop sz (got @ bs) evs
                 else Some (0, got @ take n bs, Seg (drop n bs) # evs))
         | Eof \<Rightarrow> Some (-1, got, Eof # evs)
         | RecvFail e e' \<Rightarrow>
             (if e = EAGAIN then socket_receive_loop sz got evs
              else Some (- numeral e', got, evs)))
      else Some (0, got, ev # evs))"

definition socket_receive_blocking ::
  "nat \<Rightarrow> recv_event list \<Rightarrow> (int \<times> u8 list \<times> recv_event list) option" where
  "socket_receive_blocking sz evs = socket_receive_loop sz [] evs"

text \<open>
  \<open>alloc sz\<close> says whether \<open>std::make_unique<char[]>(size)\<close> succeeds; when it does not,
  \<open>std::bad_alloc\<close> leaves the function.
\<close>

definition socket_receive_blocking_lpf ::
  "(u64 \<Rightarrow> bool) \<Rightarrow> recv_event list \<Rightarrow> (u8 list res \<times> recv_event list) option" where
  "socket_receive_blocking_lpf alloc evs =
     (case socket_receive_blocking 8 evs of
        None \<Rightarrow> None
      | Some (ret, bs, evs') \<Rightarrow>
          if ret < 0 then
            Some (Inl (RuntimeError
              ''socket_receive_blocking_lpf: Error while receiving data size from socket.''), evs')
          else
            (let sz = bytes_size bs
             in if \<not> alloc sz then Some (Inl BadAlloc, evs')
                else (case socket_receive_blocking (unat sz) evs' of
                        None \<Rightarrow> None
                      | Some (ret', data, evs'') \<Rightarrow>
                          if ret' < 0 then
                            Some (Inl (RuntimeError
                              ''socket_receive_blocking_lpf: Error while receiving data from socket.''), evs'')
                          else Some (Inr data, evs''))))"

section \<open>The size prefix\<close>

lemma length_size_bytes [simp]: "length (size_bytes w) = 8"
  by (simp add: size_bytes_def)

lemma bit_byte_of: "bit (ucast (drop_bit m w) :: u8) n \<longleftrightarrow> n < 8 \<and> bit (w :: u64) (m + n)"
  by (auto simp: bit_ucast_iff bit_drop_bit_eq)

text \<open>One more byte on top of \<open>n\<close>: the generalisation that makes the decoding inductive.\<close>

lemma join_byte:
  "(ucast (drop_bit m w) :: u64) AND mask 8 OR push_bit 8 (take_bit (8 * n) (drop_bit (m + 8) w))
     = take_bit (8 * Suc n) (drop_bit m (w :: u64))"
proof (rule bit_word_eqI)
  fix i
  assume "i < LENGTH(64)"
  then show "bit ((ucast (drop_bit m w) :: u64) AND mask 8 OR
      push_bit 8 (take_bit (8 * n) (drop_bit (m + 8) w))) i =
    bit (take_bit (8 * Suc n) (drop_bit m w)) i"
    by (cases "i < 8") (auto simp: bit_simps)
qed

lemma ucast_ucast_byte: "(ucast (ucast x :: u8) :: u64) = x AND mask 8" for x :: u64
  by (rule bit_word_eqI) (auto simp: bit_simps)

lemma bytes_size_slices:
  "bytes_size (map (\<lambda>i. ucast (drop_bit (8 * i) w)) [k..<k + n]) =
     take_bit (8 * n) (drop_bit (8 * k) w)"
proof (induction n arbitrary: k)
  case 0
  then show ?case by (simp add: bytes_size_def)
next
  case (Suc n)
  have "[k..<k + Suc n] = k # [Suc k..<Suc k + n]"
    by (simp add: upt_rec)
  then show ?case
    using Suc[of "Suc k"] join_byte[of "8 * k" w n]
    by (simp add: bytes_size_def ucast_ucast_byte add.commute)
qed

lemma bytes_size_size_bytes [simp]: "bytes_size (size_bytes w) = w"
  using bytes_size_slices[of w 0 8] by (simp add: size_bytes_def take_bit_word_eq_self)

section \<open>The transfer loops\<close>

lemma send_loop_outcome:
  "socket_send_loop buf sent outs = Some (r, wire, rest) \<Longrightarrow> sent \<le> length buf \<Longrightarrow>
     (r = 0 \<and> wire = drop sent buf) \<or> (r < 0 \<and> strict_prefix wire (drop sent buf))"
proof (induction buf sent outs arbitrary: r wire rest rule: socket_send_loop.induct)
  case (1 buf sent)
  then show ?case by (auto split: if_splits)
next
  case (2 buf sent ev outs)
  show ?case
  proof (cases "sent < length buf")
    case False
    then show ?thesis using 2 by simp
  next
    case sent: True
    show ?thesis
    proof (cases ev)
      case (Room n)
      define k where "k = min n (length buf - sent)"
      obtain wire' where rec: "socket_send_loop buf (sent + k) outs = Some (r, wire', rest)"
        and wire: "wire = take k (drop sent buf) @ wire'"
        using "2.prems"(1) sent Room by (auto simp: k_def Let_def)
      have "sent + k \<le> length buf" using sent by (simp add: k_def)
      then have "(r = 0 \<and> wire' = drop (sent + k) buf) \<or>
          (r < 0 \<and> strict_prefix wire' (drop (sent + k) buf))"
        using "2.IH"(1)[OF sent Room _ rec[unfolded k_def]] by (simp add: k_def)
      moreover have "drop sent buf = take k (drop sent buf) @ drop (sent + k) buf"
        by (metis append_take_drop_id drop_drop add.commute)
      ultimately show ?thesis
        unfolding wire by (metis same_prefix_prefix same_append_eq strict_prefix_def)
    next
      case (SendFail e e')
      then show ?thesis
        using 2 sent by (auto simp: strict_prefix_def split: if_splits)
    qed
  qed
qed

text \<open>
  Scripts in which every failure is a retry and every other call takes at least one byte,
  and how many such calls they hold.
\<close>

fun send_live :: "send_event list \<Rightarrow> bool" where
  "send_live [] = True"
| "send_live (Room n # outs) = (0 < n \<and> send_live outs)"
| "send_live (SendFail e e' # outs) = (e = EAGAIN \<and> send_live outs)"

fun rooms :: "send_event list \<Rightarrow> nat" where
  "rooms [] = 0"
| "rooms (Room n # outs) = Suc (rooms outs)"
| "rooms (SendFail e e' # outs) = rooms outs"

lemma send_loop_completes:
  "send_live outs \<Longrightarrow> sent \<le> length buf \<Longrightarrow> length buf \<le> sent + rooms outs \<Longrightarrow>
     \<exists>rest. socket_send_loop buf sent outs = Some (0, drop sent buf, rest) \<and> send_live rest
       \<and> rooms outs + sent \<le> rooms rest + length buf"
proof (induction buf sent outs rule: socket_send_loop.induct)
  case (1 buf sent)
  then show ?case by simp
next
  case (2 buf sent ev outs)
  show ?case
  proof (cases "sent < length buf")
    case False
    then show ?thesis using 2 by auto
  next
    case sent: True
    show ?thesis
    proof (cases ev)
      case (Room n)
      define k where "k = min n (length buf - sent)"
      have k: "0 < k" "sent + k \<le> length buf" using 2 sent Room by (auto simp: k_def)
      have "send_live outs" and "length buf \<le> sent + k + rooms outs"
        using "2.prems" Room k(1) by auto
      then obtain rest where
        rec: "socket_send_loop buf (sent + k) outs = Some (0, drop (sent + k) buf, rest)"
        "send_live rest" "rooms outs + (sent + k) \<le> rooms rest + length buf"
        using "2.IH"(1)[OF sent Room refl] k(2) unfolding k_def by blast
      have "take k (drop sent buf) @ drop (sent + k) buf = drop sent buf"
        by (metis append_take_drop_id drop_drop add.commute)
      then show ?thesis
        using rec sent Room k by (auto simp: Let_def simp flip: k_def)
    next
      case (SendFail e e')
      then show ?thesis using 2 sent by auto
    qed
  qed
qed

text \<open>The bytes a script of segments carries, and scripts whose only failures are retries.\<close>

fun stream :: "recv_event list \<Rightarrow> u8 list" where
  "stream [] = []"
| "stream (Seg bs # evs) = bs @ stream evs"
| "stream (_ # evs) = stream evs"

fun recv_live :: "recv_event list \<Rightarrow> bool" where
  "recv_live [] = True"
| "recv_live (Seg bs # evs) = (bs \<noteq> [] \<and> recv_live evs)"
| "recv_live (Eof # evs) = False"
| "recv_live (RecvFail e e' # evs) = (e = EAGAIN \<and> recv_live evs)"

text \<open>
  The bytes a script delivers before the connection fails, and whether it fails: \<open>EAGAIN\<close> is no
  failure, the end of the stream and any other error are.
\<close>

fun until_failure :: "recv_event list \<Rightarrow> u8 list \<times> bool" where
  "until_failure [] = ([], False)"
| "until_failure (Seg bs # evs) =
     (if bs = [] then ([], True) else (bs @ fst (until_failure evs), snd (until_failure evs)))"
| "until_failure (Eof # evs) = ([], True)"
| "until_failure (RecvFail e e' # evs) = (if e = EAGAIN then until_failure evs else ([], True))"

text \<open>The receive loop returns as soon as it has its bytes, fails when the connection does, and waits otherwise.\<close>

lemma receive_loop_exact:
  assumes "until_failure evs = (avail, failed)" "length got \<le> sz"
  shows "if sz \<le> length got + length avail
    then \<exists>rest. socket_receive_loop sz got evs = Some (0, take sz (got @ avail), rest)
      \<and> until_failure rest = (drop (sz - length got) avail, failed)
    else if failed then \<exists>r rest. socket_receive_loop sz got evs = Some (r, got @ avail, rest) \<and> r < 0
    else socket_receive_loop sz got evs = None"
  using assms
proof (induction sz got evs arbitrary: avail rule: socket_receive_loop.induct)
  case (2 sz got ev evs)
  show ?case
  proof (cases "length got < sz")
    case True
    show ?thesis
    proof (cases ev)
      case (Seg bs)
      show ?thesis
      proof (cases "bs = [] \<or> sz < length got + length bs")
        case True
        then show ?thesis using "2.prems" Seg \<open>length got < sz\<close> by (auto simp: Let_def not_le)
      next
        case False
        have tail: "until_failure evs = (fst (until_failure evs), failed)"
          and avail: "avail = bs @ fst (until_failure evs)"
          using "2.prems" Seg False by (cases "until_failure evs"; auto)+
        have fits: "bs \<noteq> []" "length bs \<le> sz - length got" "length (got @ bs) \<le> sz"
          using False by auto
        then show ?thesis
          using "2.IH"(1)[OF \<open>length got < sz\<close> Seg refl fits(1,2) tail fits(3)] Seg \<open>length got < sz\<close>
          by (auto simp: avail)
      qed
    next
      case (RecvFail e e')
      then show ?thesis using "2.IH"(2)[OF True RecvFail] "2.prems" True by (cases "e = EAGAIN") auto
    qed (use "2.prems" True in auto)
  qed (use "2.prems" in auto)
qed auto

lemma receive_loop_completes:
  "recv_live evs \<Longrightarrow> length got \<le> sz \<Longrightarrow> sz \<le> length got + length (stream evs) \<Longrightarrow>
     \<exists>rest. socket_receive_loop sz got evs = Some (0, take sz (got @ stream evs), rest)
       \<and> recv_live rest \<and> stream rest = drop sz (got @ stream evs)"
proof (induction sz got evs rule: socket_receive_loop.induct)
  case (1 sz got)
  then show ?case by simp
next
  case (2 sz got ev evs)
  show ?case
  proof (cases "length got < sz")
    case False
    then show ?thesis using 2 by simp
  next
    case True
    then show ?thesis using 2 by (cases ev) (auto simp: Let_def)
  qed
qed

section \<open>Length-prefix framing\<close>

text \<open>What a framed message looks like on the wire.\<close>

definition lpf_frame :: "u8 list \<Rightarrow> u8 list" where
  "lpf_frame msg = size_bytes (of_nat (length msg)) @ msg"

lemma send_lpf_outcome:
  assumes "socket_send_blocking_lpf msg outs = Some (r, wire, rest)"
  shows "(r = 0 \<and> wire = lpf_frame msg) \<or> (r < 0 \<and> strict_prefix wire (lpf_frame msg))"
proof -
  let ?pre = "size_bytes (of_nat (length msg))"
  obtain r1 w1 outs' where first: "socket_send_blocking ?pre outs = Some (r1, w1, outs')"
    using assms by (auto simp: socket_send_blocking_lpf_def split: option.splits)
  note o1 = send_loop_outcome[OF first[unfolded socket_send_blocking_def], simplified]
  show ?thesis
  proof (cases "r1 < 0")
    case True
    then have "r = r1" "wire = w1" using assms first by (auto simp: socket_send_blocking_lpf_def)
    then show ?thesis using o1 True
      by (auto simp: lpf_frame_def strict_prefix_def prefix_def)
  next
    case False
    then have w1: "w1 = ?pre" using o1 by simp
    obtain w2 where "socket_send_blocking msg outs' = Some (r, w2, rest)" and wire: "wire = w1 @ w2"
      using assms first False by (auto simp: socket_send_blocking_lpf_def)
    from send_loop_outcome[OF this(1)[unfolded socket_send_blocking_def]] show ?thesis
      by (auto simp: wire w1 lpf_frame_def strict_prefix_def)
  qed
qed

lemma send_lpf_completes:
  assumes "send_live outs" and "8 + length msg \<le> rooms outs"
  shows "\<exists>rest. socket_send_blocking_lpf msg outs = Some (0, lpf_frame msg, rest) \<and> send_live rest
    \<and> rooms outs \<le> rooms rest + 8 + length msg"
proof -
  let ?pre = "size_bytes (of_nat (length msg))"
  obtain outs' where first: "socket_send_blocking ?pre outs = Some (0, ?pre, outs')"
    "send_live outs'" "rooms outs \<le> rooms outs' + 8"
    using send_loop_completes[OF assms(1), of 0 ?pre] assms(2)
    by (auto simp: socket_send_blocking_def)
  obtain rest where "socket_send_blocking msg outs' = Some (0, msg, rest)" "send_live rest"
    "rooms outs' \<le> rooms rest + length msg"
    using send_loop_completes[OF first(2), of 0 msg] first(3) assms(2)
    by (auto simp: socket_send_blocking_def)
  then show ?thesis
    using first(1,3) by (auto simp: socket_send_blocking_lpf_def lpf_frame_def)
qed

lemma receive_lpf_completes:
  assumes "recv_live evs" and "stream evs = lpf_frame msg @ extra" and "length msg < 2 ^ 64"
    and "alloc (of_nat (length msg))"
  shows "\<exists>rest. socket_receive_blocking_lpf alloc evs = Some (Inr msg, rest)
    \<and> recv_live rest \<and> stream rest = extra"
proof -
  let ?pre = "size_bytes (of_nat (length msg))"
  obtain evs' where first: "socket_receive_blocking 8 evs = Some (0, ?pre, evs')"
    "recv_live evs'" "stream evs' = msg @ extra"
    using receive_loop_completes[OF assms(1), of "[]" 8] assms(2)
    by (auto simp: socket_receive_blocking_def lpf_frame_def)
  have un: "unat (of_nat (length msg) :: u64) = length msg"
    using assms(3) by (simp add: unat_of_nat)
  obtain rest where "socket_receive_blocking (length msg) evs' = Some (0, msg, rest)"
    "recv_live rest" "stream rest = extra"
    using receive_loop_completes[OF first(2), of "[]" "length msg"] first(3)
    by (auto simp: socket_receive_blocking_def)
  then show ?thesis
    using first(1) assms(4) by (simp add: socket_receive_blocking_lpf_def un)
qed

section \<open>Properties\<close>

text \<open>
  C11. Framing round trip. A message sent with \<open>socket_send_blocking_lpf\<close>, whatever partial
  writes and retries the kernel imposes, and read back with \<open>socket_receive_blocking_lpf\<close>
  from a byte stream that carries it, cut into any segments and with any retries,
  is received unchanged, and exactly the bytes after it stay in the stream.
\<close>

theorem lpf_roundtrip:
  assumes "socket_send_blocking_lpf msg outs = Some (0, wire, outs')"
    and "recv_live evs" and "stream evs = wire @ extra"
    and "length msg < 2 ^ 64" and "alloc (of_nat (length msg))"
  shows "\<exists>rest. socket_receive_blocking_lpf alloc evs = Some (Inr msg, rest)
    \<and> recv_live rest \<and> stream rest = extra"
  using receive_lpf_completes[OF assms(2), of msg extra alloc] assms(3,4,5)
    send_lpf_outcome[OF assms(1)]
  by simp

theorem lpf_roundtrip_witness:
  "\<exists>wire outs' rest.
     socket_send_blocking_lpf [1, 2, 3] [Room 3, SendFail EAGAIN EAGAIN, Room 20, Room 1, Room 5]
       = Some (0, wire, outs') \<and>
     socket_receive_blocking_lpf (\<lambda>n. n \<le> 100)
       [Seg [3, 0, 0, 0, 0], RecvFail EAGAIN EAGAIN, Seg [0, 0, 0, 1, 2], Seg [3, 9]]
       = Some (Inr [1, 2, 3], rest) \<and> stream rest = [9]"
proof -
  let ?outs = "[Room 3, SendFail EAGAIN EAGAIN, Room 20, Room 1, Room 5]"
  let ?evs = "[Seg [3, 0, 0, 0, 0], RecvFail EAGAIN EAGAIN, Seg [0, 0, 0, 1, 2], Seg [3, 9]]"
  have pre: "size_bytes 3 = [3, 0, 0, 0, 0, 0, 0, 0]"
    by (simp add: size_bytes_def upt_rec drop_bit_eq_div)
  have send: "socket_send_blocking_lpf [1, 2, 3] ?outs
      = Some (0, [3, 0, 0, 0, 0, 0, 0, 0, 1, 2, 3], [])"
    by (simp add: socket_send_blocking_lpf_def socket_send_blocking_def pre)
  have "\<exists>rest. socket_receive_blocking_lpf (\<lambda>n. n \<le> 100) ?evs = Some (Inr [1, 2, 3], rest)
      \<and> recv_live rest \<and> stream rest = [9]"
    by (rule lpf_roundtrip[OF send]) simp_all
  with send show ?thesis by blast
qed

text \<open>
  When the framed send returns, it returns 0 and the whole frame (eight size bytes,
  then the message) is on the wire, or a negative value and only a proper part of the
  frame is; and it does return 0 once the kernel has taken bytes in at least as many calls as the
  frame has bytes, whatever retries lie between.
\<close>

lemma send_lpf_total:
  "(\<forall>r wire rest. socket_send_blocking_lpf msg outs = Some (r, wire, rest) \<longrightarrow>
      (r = 0 \<and> wire = lpf_frame msg) \<or> (r < 0 \<and> strict_prefix wire (lpf_frame msg)))
   \<and> (send_live outs \<and> 8 + length msg \<le> rooms outs \<longrightarrow>
      (\<exists>rest. socket_send_blocking_lpf msg outs = Some (0, lpf_frame msg, rest)))"
  using send_lpf_outcome[of msg outs] send_lpf_completes[of outs msg] by blast

text \<open>
  C12. The framed receive, completely. What it does is determined by the bytes that come before the
  connection fails, if it does, whatever segments and retries they come in: with fewer than
  eight bytes it throws \<open>std::runtime_error\<close> if the connection has failed and waits otherwise; it
  throws \<open>std::bad_alloc\<close> exactly when eight bytes are there and the size they state cannot be
  allocated; it returns exactly the stated number of bytes when they are there, and leaves the bytes
  after them; and with too few it throws or waits again.
\<close>

theorem receive_lpf_outcome:
  "case until_failure evs of (avail, failed) \<Rightarrow>
     (let received = socket_receive_blocking_lpf alloc evs; sz = bytes_size (take 8 avail); body = drop 8 avail in
      if length avail < 8 then
        (if failed then \<exists>rest. received = Some (Inl (RuntimeError
           ''socket_receive_blocking_lpf: Error while receiving data size from socket.''), rest)
         else received = None)
      else if \<not> alloc sz then
        \<exists>rest. received = Some (Inl BadAlloc, rest) \<and> until_failure rest = (body, failed)
      else if unat sz \<le> length body then
        \<exists>rest. received = Some (Inr (take (unat sz) body), rest) \<and> until_failure rest = (drop (unat sz) body, failed)
      else if failed then \<exists>rest. received = Some (Inl (RuntimeError
           ''socket_receive_blocking_lpf: Error while receiving data from socket.''), rest)
      else received = None)"
proof -
  obtain avail failed where u: "until_failure evs = (avail, failed)" by fastforce
  note first = receive_loop_exact[OF u, of "[]" 8, simplified, folded socket_receive_blocking_def]
  show ?thesis
  proof (cases "length avail < 8")
    case True
    then show ?thesis using first u by (auto simp: socket_receive_blocking_lpf_def Let_def)
  next
    case False
    then obtain rest where r: "socket_receive_blocking 8 evs = Some (0, take 8 avail, rest)"
        "until_failure rest = (drop 8 avail, failed)" using first by auto
    note second = receive_loop_exact[OF r(2), of "[]" "unat (bytes_size (take 8 avail))", simplified,
        folded socket_receive_blocking_def]
    show ?thesis
      using False second r u by (auto simp: socket_receive_blocking_lpf_def Let_def not_le)
  qed
qed

theorem receive_lpf_outcome_witness:
  "(\<exists>rest. socket_receive_blocking_lpf (\<lambda>n. n < 2 ^ 40) [Seg (replicate 8 255)] = Some (Inl BadAlloc, rest))
   \<and> (\<exists>rest. socket_receive_blocking_lpf (\<lambda>n. n < 2 ^ 40)
        [Seg [2, 0, 0], RecvFail EAGAIN EAGAIN, Seg [0, 0, 0, 0, 0, 7], RecvFail EAGAIN EAGAIN, Seg [8, 9], Eof]
      = Some (Inr [7, 8], rest))"
proof -
  have big: "\<not> bytes_size (replicate 8 255) < 2 ^ 40" and two: "bytes_size [2, 0, 0, 0, 0, 0, 0, 0] = 2" by code_simp+
  have "replicate 8 (255 :: u8) \<noteq> []" by (simp add: eval_nat_numeral)
  then show ?thesis
    using receive_lpf_outcome[where alloc = "\<lambda>n. n < 2 ^ 40" and evs = "[Seg (replicate 8 255)]"] big two
      receive_lpf_outcome[where alloc = "\<lambda>n. n < 2 ^ 40" and evs = "[Seg [2, 0, 0], RecvFail EAGAIN EAGAIN, Seg [0, 0, 0, 0, 0, 7], RecvFail EAGAIN EAGAIN, Seg [8, 9], Eof]"]
    by auto
qed

end
