(* ===== verification/Codec.thy ===== *)
theory Codec
  imports Prelude
begin

text \<open>
  \<open>AVCodecContextManager\<close> (\<open>type_managers.h\<close>, \<open>type_managers.cc\<close>): the configuration of an
  encoder, its (re)initialisation and the two thread-safe wrappers around the encoder.

  libavcodec is a parameter. \<open>codec_env\<close> holds what the calls of one initialisation answer:
  whether the encoder is found, whether a context can be allocated, what \<open>avcodec_open2\<close>
  returns for a configured context and its options, and the text of \<open>av_strerror\<close> (\<open>None\<close>
  when that call fails). An operation that throws after changing its object returns both
  the exception and the changed object.
\<close>

section \<open>Data\<close>

type_synonym AVCodecID = nat

definition AV_CODEC_ID_H264 :: AVCodecID where
  "AV_CODEC_ID_H264 = 27"

datatype AVPixelFormat = AV_PIX_FMT_YUV420P | AV_PIX_FMT_RGB24 | AV_PIX_FMT_GRAY8

record CodecInitInfo =
  codec_id :: AVCodecID
  pix_fmt :: AVPixelFormat
  x264_encode_preset :: string
  x264_encode_tune :: string
  info_width :: u32
  info_height :: u32
  bit_rate :: u32
  fps :: u32
  keyframe_interval :: u32

text \<open>
  The fields of \<open>AVCodecContext\<close> the program sets: integers of the C struct, the private
  option set with \<open>av_opt_set(obj, name, val, search_flags)\<close>, and whether the context has
  been opened.
\<close>

record AVCodecContext =
  ctx_bit_rate :: int
  ctx_width :: int
  ctx_height :: int
  ctx_time_base :: "int \<times> int"
  ctx_pix_fmt :: AVPixelFormat
  ctx_priv_opts :: "(string \<times> string \<times> int) list"
  ctx_open :: bool

record AVCodecContextManager =
  m_ctx :: "AVCodecContext option"
  m_info :: CodecInitInfo
  m_opened :: bool

record codec_env =
  find_encoder :: "AVCodecID \<Rightarrow> bool"
  alloc_context3 :: bool
  open2 :: "AVCodecContext \<Rightarrow> (string \<times> string) list \<Rightarrow> int"
  strerror :: "int \<Rightarrow> string option"

section \<open>Operations\<close>

definition averror_explain :: "(int \<Rightarrow> string option) \<Rightarrow> int \<Rightarrow> string" where
  "averror_explain av_strerror errnum =
     (case av_strerror errnum of
        None \<Rightarrow> ''<AVError: Failed to get error message>''
      | Some errbuf \<Rightarrow> errbuf)"

text \<open>
  The context as configured before it is opened. The conversions from \<open>unsigned\<close> to \<open>int\<close>
  are two's complement; the key frame interval is passed where \<open>av_opt_set\<close> takes its
  search flags.
\<close>

definition configure :: "CodecInitInfo \<Rightarrow> AVCodecContext" where
  "configure info =
     \<lparr>ctx_bit_rate = uint (bit_rate info),
      ctx_width = sint (info_width info),
      ctx_height = sint (info_height info),
      ctx_time_base = (1, sint (fps info)),
      ctx_pix_fmt = pix_fmt info,
      ctx_priv_opts = [(''x264opts'', ''keyint'', sint (keyframe_interval info))],
      ctx_open = False\<rparr>"

definition codec_options :: "CodecInitInfo \<Rightarrow> (string \<times> string) list" where
  "codec_options info =
     [(''preset'', x264_encode_preset info), (''tune'', x264_encode_tune info)]"

definition codec_ctx_init ::
  "codec_env \<Rightarrow> AVCodecContextManager \<Rightarrow> unit res \<times> AVCodecContextManager" where
  "codec_ctx_init env m0 =
     (let m = (if m_opened m0 then m0\<lparr>m_ctx := None\<rparr> else m0);
          info = m_info m
      in if \<not> find_encoder env (codec_id info)
         then (Inl (RuntimeError ''Failed to find encoder.''), m)
         else if \<not> alloc_context3 env
         then (Inl (RuntimeError ''Failed to allocate codec context.''), m\<lparr>m_ctx := None\<rparr>)
         else (let ctx = configure info; ret = open2 env ctx (codec_options info)
               in if ret < 0
                  then (Inl (RuntimeError (''Failed to open codec: '' @
                              averror_explain (strerror env) ret)),
                        m\<lparr>m_ctx := Some ctx\<rparr>)
                  else (Inr (), m\<lparr>m_ctx := Some (ctx\<lparr>ctx_open := True\<rparr>), m_opened := True\<rparr>)))"

text \<open>A constructor that throws leaves no object.\<close>

definition AVCodecContextManager_new ::
  "codec_env \<Rightarrow> CodecInitInfo \<Rightarrow> AVCodecContextManager res" where
  "AVCodecContextManager_new env info =
     (case codec_ctx_init env \<lparr>m_ctx = None, m_info = info, m_opened = False\<rparr> of
        (Inl e, m) \<Rightarrow> Inl e
      | (Inr _, m) \<Rightarrow> Inr m)"

definition change_resolution ::
  "codec_env \<Rightarrow> u32 \<Rightarrow> u32 \<Rightarrow> AVCodecContextManager \<Rightarrow> unit res \<times> AVCodecContextManager" where
  "change_resolution env width height m =
     codec_ctx_init env
       (m\<lparr>m_info := (m_info m)\<lparr>info_width := width, info_height := height\<rparr>\<rparr>)"

text \<open>
  The wrappers dereference \<open>m_ctx\<close>; \<open>av_send\<close> and \<open>av_recv\<close> are \<open>avcodec_send_frame\<close> and
  \<open>avcodec_receive_packet\<close> with the context they leave behind.
\<close>

definition send_frame ::
  "(AVCodecContext \<Rightarrow> 'f \<Rightarrow> int \<times> AVCodecContext) \<Rightarrow> 'f \<Rightarrow> AVCodecContextManager \<Rightarrow>
   int res \<times> AVCodecContextManager" where
  "send_frame av_send frm m =
     (case m_ctx m of
        None \<Rightarrow> (Inl NullPointer, m)
      | Some ctx \<Rightarrow> (let (ret, ctx') = av_send ctx frm in (Inr ret, m\<lparr>m_ctx := Some ctx'\<rparr>)))"

definition receive_packet ::
  "(AVCodecContext \<Rightarrow> int \<times> 'p \<times> AVCodecContext) \<Rightarrow> AVCodecContextManager \<Rightarrow>
   (int \<times> 'p) res \<times> AVCodecContextManager" where
  "receive_packet av_recv m =
     (case m_ctx m of
        None \<Rightarrow> (Inl NullPointer, m)
      | Some ctx \<Rightarrow>
          (let (ret, pkt, ctx') = av_recv ctx in (Inr (ret, pkt), m\<lparr>m_ctx := Some ctx'\<rparr>)))"

lemmas codec_defs [op_defs] =
  codec_ctx_init_def AVCodecContextManager_new_def change_resolution_def send_frame_def
  receive_packet_def

section \<open>The state of an initialised encoder\<close>

text \<open>
  A manager whose encoder is open and configured from the stored configuration.
\<close>

definition codec_ready :: "AVCodecContextManager \<Rightarrow> bool" where
  "codec_ready m = (m_opened m \<and> m_ctx m = Some ((configure (m_info m))\<lparr>ctx_open := True\<rparr>))"

lemma codec_ctx_init_info [simp]: "m_info (snd (codec_ctx_init env m)) = m_info m"
  by (simp add: codec_ctx_init_def Let_def)

lemma codec_ctx_init_ok:
  "codec_ctx_init env m = (Inr u, m') \<Longrightarrow> codec_ready m' \<and> m_info m' = m_info m"
  by (auto simp: codec_ctx_init_def codec_ready_def Let_def split: if_splits)

lemma codec_ctx_init_err:
  "codec_ctx_init env m = (Inl e, m') \<Longrightarrow>
     (\<exists>text. e = RuntimeError text) \<and> m_info m' = m_info m \<and> m_opened m' = m_opened m
     \<and> (\<forall>ctx. m_ctx m' = Some ctx \<longrightarrow> m_opened m \<longrightarrow> \<not> ctx_open ctx)"
  by (auto simp: codec_ctx_init_def configure_def Let_def split: if_splits)

lemma change_resolution_ok:
  "change_resolution env w h m = (Inr u, m') \<Longrightarrow>
     codec_ready m' \<and> m_info m' = (m_info m)\<lparr>info_width := w, info_height := h\<rparr>"
  by (auto simp: change_resolution_def dest: codec_ctx_init_ok)

lemma change_resolution_info:
  "m_info (snd (change_resolution env w h m)) =
     (m_info m)\<lparr>info_width := w, info_height := h\<rparr>"
  by (simp add: change_resolution_def)

section \<open>Properties\<close>

text \<open>
  Initialisation and reinitialisation. A constructed manager, and a manager after
  a successful \<open>change_resolution\<close>, holds an open encoder configured from the stored
  configuration, and the latter carries the requested size with every other setting kept.
\<close>

lemma codec_initialised:
  "(AVCodecContextManager_new env info = Inr m \<longrightarrow> codec_ready m \<and> m_info m = info)
   \<and> (change_resolution env w h m = (Inr u, m') \<longrightarrow>
        codec_ready m' \<and> m_info m' = (m_info m)\<lparr>info_width := w, info_height := h\<rparr>)"
  using codec_ctx_init_ok change_resolution_ok
  by (fastforce simp: AVCodecContextManager_new_def split: prod.splits sum.splits)

definition demo_info :: CodecInitInfo where
  "demo_info = \<lparr>codec_id = AV_CODEC_ID_H264, pix_fmt = AV_PIX_FMT_YUV420P,
     x264_encode_preset = ''ultrafast'', x264_encode_tune = ''zerolatency'',
     info_width = 1280, info_height = 720, bit_rate = 400000, fps = 30,
     keyframe_interval = 250\<rparr>"

text \<open>An environment that accepts every configuration of positive size.\<close>

definition demo_env :: codec_env where
  "demo_env = \<lparr>find_encoder = (\<lambda>c. c = AV_CODEC_ID_H264), alloc_context3 = True,
     open2 = (\<lambda>ctx opts. if 0 < ctx_width ctx \<and> 0 < ctx_height ctx then 0 else -22),
     strerror = (\<lambda>e. if e = -22 then Some ''Invalid argument'' else None)\<rparr>"

definition demo_codec :: AVCodecContextManager where
  "demo_codec = \<lparr>m_ctx = Some ((configure demo_info)\<lparr>ctx_open := True\<rparr>), m_info = demo_info,
     m_opened = True\<rparr>"

lemma demo_codec_ready: "codec_ready demo_codec"
  by (simp add: codec_ready_def demo_codec_def)

lemma demo_codec_new: "AVCodecContextManager_new demo_env demo_info = Inr demo_codec"
  by (simp add: AVCodecContextManager_new_def codec_ctx_init_def demo_env_def demo_info_def
      configure_def demo_codec_def)

text \<open>
  Failed reinitialisation. When \<open>change_resolution\<close> on an open encoder throws, the
  exception is a \<open>std::runtime_error\<close>, the old encoder is gone (the context is null or
  not open) and yet the configuration already carries the new size and \<open>m_opened\<close> still
  says the codec is open; if the encoder was not found, the next \<open>send_frame\<close> and
  \<open>receive_packet\<close> dereference a null context.
\<close>

lemma change_resolution_failure:
  assumes "m_opened m" and "change_resolution env w h m = (Inl e, m')"
  shows "(\<exists>text. e = RuntimeError text) \<and> m_opened m' \<and> \<not> codec_ready m'
    \<and> m_info m' = (m_info m)\<lparr>info_width := w, info_height := h\<rparr>
    \<and> (\<not> find_encoder env (codec_id (m_info m)) \<longrightarrow>
        fst (send_frame av_send frm m') = Inl NullPointer
        \<and> fst (receive_packet av_recv m') = Inl NullPointer)"
proof -
  note err = codec_ctx_init_err[OF assms(2)[unfolded change_resolution_def]]
  have "\<not> find_encoder env (codec_id (m_info m)) \<longrightarrow> m_ctx m' = None"
    using assms by (auto simp: change_resolution_def codec_ctx_init_def Let_def)
  then show ?thesis
    using err assms(1) by (auto simp: codec_ready_def send_frame_def receive_packet_def)
qed

end
