(* ===== verification/Messages.thy ===== *)
theory Messages
  imports Prelude
begin

text \<open>
  The protocol messages of \<open>proto/nes.proto\<close>. The generated serialisers are not part of the
  sources: the theories that send or receive messages take them as parameters. A \<open>float\<close>
  is its IEEE-754 single precision bit pattern, since the program only stores, copies and
  prints the camera matrix.
\<close>

type_synonym f32 = u32

record Camera =
  cam_is_left :: bool
  cam_width :: u32
  cam_height :: u32
  cam_matrix :: "f32 list"

record FrameRequest =
  req_index :: u64
  req_camera :: Camera
  req_is_left :: bool

record FrameResponse =
  resp_index :: u64
  resp_camera :: Camera
  resp_is_left :: bool
  resp_frame :: "u8 list"
  resp_depth :: "u8 list"

text \<open>A default-constructed \<open>Camera\<close> has every field at its zero value.\<close>

definition Camera_default :: Camera where
  "Camera_default = \<lparr>cam_is_left = False, cam_width = 0, cam_height = 0, cam_matrix = []\<rparr>"

end
