(* ===== verification/Camera_Manager.thy ===== *)
theory Camera_Manager
  imports Codec Messages
begin

text \<open>
  \<open>CameraManager\<close> (\<open>camera_manager.h\<close>, \<open>camera_manager.cc\<close>): the cameras of the two eyes and
  the reaction to a new resolution, which reinitialises the scene and the depth encoder
  of that eye. The shared pointers to the four encoders are the record \<open>codecs\<close>; the calls
  change both. Each reinitialisation meets its own libavcodec environment: \<open>es\<close> for the
  scene encoder, \<open>ed\<close> for the depth encoder.
\<close>

section \<open>State and operations\<close>

definition kInitialCameraMatrix :: "f32 list" where
  "kInitialCameraMatrix =
     [0x3F800000, 0, 0, 0x3F000000,
      0, 0xBF800000, 0, 0x3F000000,
      0, 0, 0xBF800000, 0x3F000000]"

record codecs =
  scene_left :: AVCodecContextManager
  depth_left :: AVCodecContextManager
  scene_right :: AVCodecContextManager
  depth_right :: AVCodecContextManager

record CameraManager =
  m_camera_left :: Camera
  m_camera_right :: Camera
  m_codecs :: codecs

definition CameraManager_new :: "codecs \<Rightarrow> u32 \<Rightarrow> u32 \<Rightarrow> CameraManager" where
  "CameraManager_new cs default_width default_height =
     \<lparr>m_camera_left = Camera_default\<lparr>cam_matrix := kInitialCameraMatrix,
        cam_width := default_width, cam_height := default_height\<rparr>,
      m_camera_right = Camera_default\<lparr>cam_matrix := kInitialCameraMatrix,
        cam_width := default_width, cam_height := default_height\<rparr>,
      m_codecs = cs\<rparr>"

text \<open>The resolution is made divisible by 2.\<close>

definition make_even :: "Camera \<Rightarrow> Camera" where
  "make_even camera0 =
     (let camera = (if cam_width camera0 mod 2 \<noteq> 0
                    then camera0\<lparr>cam_width := cam_width camera0 - 1\<rparr> else camera0)
      in if cam_height camera mod 2 \<noteq> 0
         then camera\<lparr>cam_height := cam_height camera - 1\<rparr> else camera)"

definition set_camera_left ::
  "codec_env \<Rightarrow> codec_env \<Rightarrow> Camera \<Rightarrow> CameraManager \<Rightarrow> unit res \<times> CameraManager" where
  "set_camera_left es ed camera0 cm =
     (if cam_width (m_camera_left cm) \<noteq> cam_width camera0
         \<or> cam_height (m_camera_left cm) \<noteq> cam_height camera0
      then
        (let camera = make_even camera0;
             cs = m_codecs cm;
             (r, sl) = change_resolution es (cam_width camera) (cam_height camera) (scene_left cs);
             cm1 = cm\<lparr>m_codecs := cs\<lparr>scene_left := sl\<rparr>\<rparr>
         in case r of Inl e \<Rightarrow> (Inl e, cm1)
            | Inr _ \<Rightarrow>
              (let (r', dl) = change_resolution ed (cam_width camera) (cam_height camera)
                                (depth_left cs);
                   cm2 = cm1\<lparr>m_codecs := (m_codecs cm1)\<lparr>depth_left := dl\<rparr>\<rparr>
               in case r' of Inl e \<Rightarrow> (Inl e, cm2)
                  | Inr _ \<Rightarrow> (Inr (), cm2\<lparr>m_camera_left := camera\<rparr>)))
      else (Inr (), cm\<lparr>m_camera_left := camera0\<rparr>))"

definition set_camera_right ::
  "codec_env \<Rightarrow> codec_env \<Rightarrow> Camera \<Rightarrow> CameraManager \<Rightarrow> unit res \<times> CameraManager" where
  "set_camera_right es ed camera0 cm =
     (if cam_width (m_camera_right cm) \<noteq> cam_width camera0
         \<or> cam_height (m_camera_right cm) \<noteq> cam_height camera0
      then
        (let camera = make_even camera0;
             cs = m_codecs cm;
             (r, sr) = change_resolution es (cam_width camera) (cam_height camera) (scene_right cs);
             cm1 = cm\<lparr>m_codecs := cs\<lparr>scene_right := sr\<rparr>\<rparr>
         in case r of Inl e \<Rightarrow> (Inl e, cm1)
            | Inr _ \<Rightarrow>
              (let (r', dr) = change_resolution ed (cam_width camera) (cam_height camera)
                                (depth_right cs);
                   cm2 = cm1\<lparr>m_codecs := (m_codecs cm1)\<lparr>depth_right := dr\<rparr>\<rparr>
               in case r' of Inl e \<Rightarrow> (Inl e, cm2)
                  | Inr _ \<Rightarrow> (Inr (), cm2\<lparr>m_camera_right := camera\<rparr>)))
      else (Inr (), cm\<lparr>m_camera_right := camera0\<rparr>))"

definition get_camera_left :: "CameraManager \<Rightarrow> Camera" where
  "get_camera_left cm = m_camera_left cm"

definition get_camera_right :: "CameraManager \<Rightarrow> Camera" where
  "get_camera_right cm = m_camera_right cm"

lemmas camera_defs [op_defs] =
  set_camera_left_def set_camera_right_def get_camera_left_def get_camera_right_def
  CameraManager_new_def

section \<open>One eye\<close>

text \<open>
  The contract both setters keep, stated for one eye: \<open>setc\<close> is the setter, \<open>getc\<close> the
  eye's camera and \<open>sc\<close>, \<open>dc\<close> its two encoders; \<open>other\<close> is everything that belongs to the
  other eye.
\<close>

definition same_size :: "Camera \<Rightarrow> AVCodecContextManager \<Rightarrow> bool" where
  "same_size camera m =
     (cam_width camera = info_width (m_info m) \<and> cam_height camera = info_height (m_info m))"

locale eye =
  fixes setc :: "codec_env \<Rightarrow> codec_env \<Rightarrow> Camera \<Rightarrow> 's \<Rightarrow> unit res \<times> 's"
    and getc :: "'s \<Rightarrow> Camera"
    and sc :: "'s \<Rightarrow> AVCodecContextManager"
    and dc :: "'s \<Rightarrow> AVCodecContextManager"
    and other :: "'s \<Rightarrow> 'o"
  assumes unchanged_size:
      "cam_width (getc s) = cam_width c \<Longrightarrow> cam_height (getc s) = cam_height c \<Longrightarrow>
       setc es ed c s = (r, s') \<Longrightarrow>
       r = Inr () \<and> getc s' = c \<and> sc s' = sc s \<and> dc s' = dc s"
    and changed_size:
      "\<not> (cam_width (getc s) = cam_width c \<and> cam_height (getc s) = cam_height c) \<Longrightarrow>
       setc es ed c s = (r, s') \<Longrightarrow>
       (case change_resolution es (cam_width (make_even c)) (cam_height (make_even c)) (sc s) of
          (Inl e, m) \<Rightarrow> r = Inl e \<and> sc s' = m \<and> dc s' = dc s \<and> getc s' = getc s
        | (Inr _, m) \<Rightarrow> sc s' = m \<and>
           (case change_resolution ed (cam_width (make_even c)) (cam_height (make_even c)) (dc s) of
              (Inl e, m') \<Rightarrow> r = Inl e \<and> dc s' = m' \<and> getc s' = getc s
            | (Inr _, m') \<Rightarrow> r = Inr () \<and> dc s' = m' \<and> getc s' = make_even c))"
    and other_eye: "setc es ed c s = (r, s') \<Longrightarrow> other s' = other s"
begin

definition synced :: "'s \<Rightarrow> bool" where
  "synced s = (same_size (getc s) (sc s) \<and> same_size (getc s) (dc s)
     \<and> codec_ready (sc s) \<and> codec_ready (dc s))"

text \<open>Camera and encoders stay in step across every call that does not throw.\<close>

lemma synced_set:
  assumes "setc es ed c s = (Inr u, s')" and "synced s"
  shows "synced s'"
proof (cases "cam_width (getc s) = cam_width c \<and> cam_height (getc s) = cam_height c")
  case True
  then show ?thesis
    using unchanged_size[of s c es ed "Inr u" s'] assms by (auto simp: synced_def same_size_def)
next
  case False
  from changed_size[OF this assms(1)] show ?thesis
    by (auto simp: synced_def same_size_def dest!: change_resolution_ok
        split: prod.splits sum.splits)
qed

lemma set_success:
  assumes "setc es ed c s = (Inr u, s')"
  shows "getc s' = (if cam_width (getc s) = cam_width c \<and> cam_height (getc s) = cam_height c
    then c else make_even c)"
proof (cases "cam_width (getc s) = cam_width c \<and> cam_height (getc s) = cam_height c")
  case True
  then show ?thesis using unchanged_size[of s c es ed "Inr u" s'] assms by simp
next
  case False
  from changed_size[OF this assms] False show ?thesis by (auto split: prod.splits sum.splits)
qed

text \<open>
  What a call that throws leaves behind: the camera of before, a scene encoder set to the new size,
  and one encoder of the eye that is not ready. When it is the scene encoder, the depth encoder has
  not been touched; when it is the depth encoder, both are set to the new size.
\<close>

lemma set_failure:
  assumes "setc es ed c s = (Inl e, s')" and "m_opened (sc s)" and "m_opened (dc s)"
  defines "resized m \<equiv> (m_info m)\<lparr>info_width := cam_width (make_even c), info_height := cam_height (make_even c)\<rparr>"
  shows "getc s' = getc s \<and> (\<exists>text. e = RuntimeError text)
    \<and> m_info (sc s') = resized (sc s)
    \<and> (\<not> codec_ready (sc s') \<and> dc s' = dc s
       \<or> codec_ready (sc s') \<and> \<not> codec_ready (dc s') \<and> m_info (dc s') = resized (dc s))"
proof -
  have diff: "\<not> (cam_width (getc s) = cam_width c \<and> cam_height (getc s) = cam_height c)"
    using unchanged_size[of s c es ed "Inl e" s'] assms by auto
  show ?thesis
    using changed_size[OF diff assms(1)] assms(2,3) unfolding resized_def
    by (auto split: prod.splits sum.splits dest: change_resolution_failure change_resolution_ok)
qed

end

interpretation left_eye: eye set_camera_left m_camera_left "\<lambda>cm. scene_left (m_codecs cm)"
  "\<lambda>cm. depth_left (m_codecs cm)"
  "\<lambda>cm. (m_camera_right cm, scene_right (m_codecs cm), depth_right (m_codecs cm))"
  by unfold_locales (auto simp: set_camera_left_def Let_def split: prod.splits sum.splits if_splits)

interpretation right_eye: eye set_camera_right m_camera_right "\<lambda>cm. scene_right (m_codecs cm)"
  "\<lambda>cm. depth_right (m_codecs cm)"
  "\<lambda>cm. (m_camera_left cm, scene_left (m_codecs cm), depth_left (m_codecs cm))"
  by unfold_locales (auto simp: set_camera_right_def Let_def split: prod.splits sum.splits if_splits)

section \<open>Even sizes\<close>

lemma word_mod_2: "w mod 2 = 0 \<longleftrightarrow> even (unat w)" for w :: u32
proof -
  have "unat (w mod 2) = unat w mod 2" by (simp add: unat_mod)
  then show ?thesis by (metis even_iff_mod_2_eq_zero unat_eq_zero)
qed

lemma odd_minus_1: "odd (unat w) \<Longrightarrow> unat (w - 1) = unat w - 1" for w :: u32
proof -
  assume "odd (unat w)"
  then have "1 \<le> w" by (metis even_zero unat_eq_zero word_le_sub1 word_less_1 not_less)
  then show ?thesis by (simp add: unat_sub)
qed

lemma make_even_sizes:
  "unat (cam_width (make_even c)) = unat (cam_width c) - unat (cam_width c) mod 2"
  "unat (cam_height (make_even c)) = unat (cam_height c) - unat (cam_height c) mod 2"
  by (simp_all add: make_even_def Let_def word_mod_2 odd_minus_1 odd_iff_mod_2_eq_one)

lemma make_even_rest [simp]:
  "cam_matrix (make_even c) = cam_matrix c" "cam_is_left (make_even c) = cam_is_left c"
  by (simp_all add: make_even_def Let_def)

lemma even_make_even:
  "even (unat (cam_width (make_even c)))" "even (unat (cam_height (make_even c)))"
  by (simp_all add: make_even_sizes minus_mod_eq_div_mult even_mult_iff)

lemma make_even_id:
  "even (unat (cam_width c)) \<Longrightarrow> even (unat (cam_height c)) \<Longrightarrow> make_even c = c"
  by (simp add: make_even_def word_mod_2)

section \<open>Properties\<close>

text \<open>Both eyes in step: each camera's size is the size of its two open encoders.\<close>

definition camera_sync :: "CameraManager \<Rightarrow> bool" where
  "camera_sync cm =
     (same_size (m_camera_left cm) (scene_left (m_codecs cm))
      \<and> same_size (m_camera_left cm) (depth_left (m_codecs cm))
      \<and> same_size (m_camera_right cm) (scene_right (m_codecs cm))
      \<and> same_size (m_camera_right cm) (depth_right (m_codecs cm))
      \<and> codec_ready (scene_left (m_codecs cm)) \<and> codec_ready (depth_left (m_codecs cm))
      \<and> codec_ready (scene_right (m_codecs cm)) \<and> codec_ready (depth_right (m_codecs cm)))"

lemma camera_sync_eyes: "camera_sync cm \<longleftrightarrow> left_eye.synced cm \<and> right_eye.synced cm"
  by (auto simp: camera_sync_def left_eye.synced_def right_eye.synced_def)

lemma camera_sync_set:
  assumes "camera_sync cm" "set_camera_left es ed c cm = (Inr u, cm') \<or> set_camera_right es ed c cm = (Inr u, cm')"
  shows "camera_sync cm'"
  using assms left_eye.synced_set[of es ed c cm u cm'] left_eye.other_eye[of es ed c cm "Inr u" cm']
    right_eye.synced_set[of es ed c cm u cm'] right_eye.other_eye[of es ed c cm "Inr u" cm']
  by (auto simp: camera_sync_eyes left_eye.synced_def right_eye.synced_def)

text \<open>
  C16. The cameras and the encoders agree on the resolution: they do after construction
  from encoders of the default size, and every \<open>set_camera\<close> call that returns normally keeps it so
  for both eyes.
\<close>

theorem camera_sync_invariant:
  "(same_size (m_camera_left (CameraManager_new cs w h)) (scene_left cs)
      \<and> info_width (m_info (depth_left cs)) = w \<and> info_height (m_info (depth_left cs)) = h
      \<and> info_width (m_info (scene_right cs)) = w \<and> info_height (m_info (scene_right cs)) = h
      \<and> info_width (m_info (depth_right cs)) = w \<and> info_height (m_info (depth_right cs)) = h
      \<and> codec_ready (scene_left cs) \<and> codec_ready (depth_left cs)
      \<and> codec_ready (scene_right cs) \<and> codec_ready (depth_right cs)
      \<longrightarrow> camera_sync (CameraManager_new cs w h))
   \<and> (camera_sync cm \<and> (set_camera_left es ed c cm = (Inr u, cm')
                        \<or> set_camera_right es ed c cm = (Inr u, cm'))
      \<longrightarrow> camera_sync cm')"
proof (intro conjI impI)
  assume "camera_sync cm \<and> (set_camera_left es ed c cm = (Inr u, cm')
    \<or> set_camera_right es ed c cm = (Inr u, cm'))"
  then show "camera_sync cm'" using camera_sync_set by blast
qed (simp add: camera_sync_def same_size_def CameraManager_new_def)

definition demo_codecs :: codecs where
  "demo_codecs = \<lparr>scene_left = demo_codec, depth_left = demo_codec,
     scene_right = demo_codec, depth_right = demo_codec\<rparr>"

definition demo_camera :: Camera where
  "demo_camera = \<lparr>cam_is_left = True, cam_width = 641, cam_height = 480,
     cam_matrix = kInitialCameraMatrix\<rparr>"

definition demo_manager :: CameraManager where
  "demo_manager = CameraManager_new demo_codecs 1280 720"

lemmas demo_camera_defs =
  demo_manager_def demo_camera_def demo_codecs_def CameraManager_new_def
  set_camera_left_def change_resolution_def codec_ctx_init_def make_even_def Camera_default_def
  demo_codec_def demo_env_def demo_info_def configure_def

lemma demo_set_camera_left:
  "\<exists>cm'. set_camera_left demo_env demo_env demo_camera demo_manager = (Inr (), cm')
     \<and> cam_width (m_camera_left cm') = 640"
  by (simp add: demo_camera_defs)

lemma demo_manager_sync: "camera_sync demo_manager"
  using demo_codec_ready
  by (simp add: camera_sync_def same_size_def demo_manager_def CameraManager_new_def
      demo_codecs_def demo_codec_def demo_info_def)

theorem camera_sync_invariant_witness:
  "camera_sync demo_manager \<and> (\<exists>cm'. camera_sync cm'
     \<and> set_camera_left demo_env demo_env demo_camera demo_manager = (Inr (), cm'))"
proof -
  obtain cm' where "set_camera_left demo_env demo_env demo_camera demo_manager = (Inr (), cm')"
    using demo_set_camera_left by blast
  then show ?thesis
    using camera_sync_invariant[of demo_codecs 1280 720 demo_manager demo_env demo_env demo_camera "()" cm']
      demo_manager_sync by blast
qed

text \<open>
  What a successful \<open>set_camera_left\<close> stores: the camera as received when the size is
  the current one, otherwise the camera with both dimensions rounded down to even; the matrix is always
  the one received, and the right eye is not touched. Likewise with the eyes exchanged.
\<close>

lemma set_camera_functional:
  "(set_camera_left es ed c cm = (Inr u, cm') \<longrightarrow>
      m_camera_left cm' =
        (if cam_width (m_camera_left cm) = cam_width c \<and> cam_height (m_camera_left cm) = cam_height c
         then c else make_even c)
      \<and> cam_matrix (m_camera_left cm') = cam_matrix c
      \<and> m_camera_right cm' = m_camera_right cm
      \<and> scene_right (m_codecs cm') = scene_right (m_codecs cm)
      \<and> depth_right (m_codecs cm') = depth_right (m_codecs cm))
   \<and> (set_camera_right es ed c cm = (Inr u, cm') \<longrightarrow>
      m_camera_right cm' =
        (if cam_width (m_camera_right cm) = cam_width c \<and> cam_height (m_camera_right cm) = cam_height c
         then c else make_even c)
      \<and> cam_matrix (m_camera_right cm') = cam_matrix c
      \<and> m_camera_left cm' = m_camera_left cm
      \<and> scene_left (m_codecs cm') = scene_left (m_codecs cm)
      \<and> depth_left (m_codecs cm') = depth_left (m_codecs cm))
   \<and> even (unat (cam_width (make_even c))) \<and> even (unat (cam_height (make_even c)))
   \<and> unat (cam_width c) \<le> Suc (unat (cam_width (make_even c)))
   \<and> unat (cam_height c) \<le> Suc (unat (cam_height (make_even c)))"
proof (intro conjI impI)
  have half: "n \<le> Suc (n - n mod 2)" for n :: nat by presburger
  show "unat (cam_width c) \<le> Suc (unat (cam_width (make_even c)))"
    "unat (cam_height c) \<le> Suc (unat (cam_height (make_even c)))"
    by (simp_all add: make_even_sizes half)
next
  assume l: "set_camera_left es ed c cm = (Inr u, cm')"
  note set = left_eye.set_success[OF l] and oth = left_eye.other_eye[OF l]
  show "m_camera_left cm' = (if cam_width (m_camera_left cm) = cam_width c
      \<and> cam_height (m_camera_left cm) = cam_height c then c else make_even c)" by (fact set)
  then show "cam_matrix (m_camera_left cm') = cam_matrix c" by simp
  show "m_camera_right cm' = m_camera_right cm" "scene_right (m_codecs cm') = scene_right (m_codecs cm)"
    "depth_right (m_codecs cm') = depth_right (m_codecs cm)" using oth by simp_all
next
  assume r: "set_camera_right es ed c cm = (Inr u, cm')"
  note set = right_eye.set_success[OF r] and oth = right_eye.other_eye[OF r]
  show "m_camera_right cm' = (if cam_width (m_camera_right cm) = cam_width c
      \<and> cam_height (m_camera_right cm) = cam_height c then c else make_even c)" by (fact set)
  then show "cam_matrix (m_camera_right cm') = cam_matrix c" by simp
  show "m_camera_left cm' = m_camera_left cm" "scene_left (m_codecs cm') = scene_left (m_codecs cm)"
    "depth_left (m_codecs cm') = depth_left (m_codecs cm)" using oth by simp_all
qed (fact even_make_even)+

text \<open>
  C17. A \<open>set_camera_left\<close> that throws, with both encoders open before: the message asked for another
  size than the stored one; the exception is a \<open>std::runtime_error\<close>; the camera is the one of before
  and nothing of the right eye has changed, but the scene encoder is already set to the rounded size of
  the message. So afterwards camera and scene encoder agree in size just when the stored size is that
  rounded size; and one encoder of the eye is not ready: the scene encoder, with the depth encoder as
  it was before, or the depth encoder, set to the new size, after a scene encoder that is ready.
\<close>

theorem set_camera_failure:
  assumes "set_camera_left es ed c cm = (Inl e, cm')"
    and "m_opened (scene_left (m_codecs cm))" and "m_opened (depth_left (m_codecs cm))"
  defines "size_changed \<equiv> \<lambda>c'. cam_width (m_camera_left cm) \<noteq> cam_width c'
      \<or> cam_height (m_camera_left cm) \<noteq> cam_height c'"
    and "resized \<equiv> \<lambda>m. (m_info m)\<lparr>info_width := cam_width (make_even c), info_height := cam_height (make_even c)\<rparr>"
  shows "size_changed c \<and> (\<exists>text. e = RuntimeError text)
    \<and> m_camera_left cm' = m_camera_left cm \<and> m_camera_right cm' = m_camera_right cm
    \<and> scene_right (m_codecs cm') = scene_right (m_codecs cm)
    \<and> depth_right (m_codecs cm') = depth_right (m_codecs cm)
    \<and> m_info (scene_left (m_codecs cm')) = resized (scene_left (m_codecs cm))
    \<and> (same_size (m_camera_left cm') (scene_left (m_codecs cm')) \<longleftrightarrow> \<not> size_changed (make_even c))
    \<and> (\<not> codec_ready (scene_left (m_codecs cm')) \<and> depth_left (m_codecs cm') = depth_left (m_codecs cm)
       \<or> codec_ready (scene_left (m_codecs cm')) \<and> \<not> codec_ready (depth_left (m_codecs cm'))
         \<and> m_info (depth_left (m_codecs cm')) = resized (depth_left (m_codecs cm)))"
proof -
  note fail = left_eye.set_failure[OF assms(1-3)] and oth = left_eye.other_eye[OF assms(1)]
  have "size_changed c"
    using left_eye.unchanged_size[of cm c es ed "Inl e" cm'] assms(1) by (auto simp: size_changed_def)
  moreover have "same_size (m_camera_left cm') (scene_left (m_codecs cm')) \<longleftrightarrow> \<not> size_changed (make_even c)"
    using fail by (simp add: same_size_def size_changed_def)
  ultimately show ?thesis using fail oth unfolding resized_def by blast
qed

theorem set_camera_failure_witness:
  "\<exists>e cm'. set_camera_left demo_env (demo_env\<lparr>alloc_context3 := False\<rparr>) demo_camera demo_manager
      = (Inl e, cm')
    \<and> m_camera_left cm' = m_camera_left demo_manager
    \<and> \<not> same_size (m_camera_left cm') (scene_left (m_codecs cm'))
    \<and> m_info (scene_left (m_codecs cm')) = (m_info (scene_left (m_codecs demo_manager)))
        \<lparr>info_width := cam_width (make_even demo_camera), info_height := cam_height (make_even demo_camera)\<rparr>"
proof -
  obtain e cm' where run:
    "set_camera_left demo_env (demo_env\<lparr>alloc_context3 := False\<rparr>) demo_camera demo_manager = (Inl e, cm')"
    by (simp add: demo_camera_defs)
  have opened: "m_opened (scene_left (m_codecs demo_manager))" "m_opened (depth_left (m_codecs demo_manager))"
    by (simp_all add: demo_camera_defs)
  have "cam_width (m_camera_left demo_manager) \<noteq> cam_width (make_even demo_camera)"
    by (simp add: demo_camera_defs)
  with run set_camera_failure[OF run opened] show ?thesis by blast
qed

text \<open>
  C18. A client that keeps sending one camera: once its size has been taken over, a
  second identical message leaves the encoders alone if both dimensions are even, but
  if one is odd the stored size never equals the received one, so the scene encoder is
  reinitialised again by every message.
\<close>

theorem repeated_camera:
  assumes "set_camera_left es ed c cm = (Inr u, cm')"
    and "cam_width (m_camera_left cm) \<noteq> cam_width c \<or> cam_height (m_camera_left cm) \<noteq> cam_height c"
  shows "if even (unat (cam_width c)) \<and> even (unat (cam_height c))
    then set_camera_left es' ed' c cm' = (Inr (), cm')
    else scene_left (m_codecs (snd (set_camera_left es' ed' c cm'))) =
      snd (change_resolution es' (cam_width (make_even c)) (cam_height (make_even c))
        (scene_left (m_codecs cm')))"
proof -
  have stored: "m_camera_left cm' = make_even c"
    using left_eye.set_success[OF assms(1)] assms(2) by auto
  show ?thesis
  proof (cases "even (unat (cam_width c)) \<and> even (unat (cam_height c))")
    case True
    then have "m_camera_left cm' = c" using stored make_even_id by simp
    then have "set_camera_left es' ed' c cm' = (Inr (), cm'\<lparr>m_camera_left := m_camera_left cm'\<rparr>)"
      by (simp add: set_camera_left_def)
    then show ?thesis using True by simp
  next
    case False
    then have diff: "\<not> (cam_width (m_camera_left cm') = cam_width c
        \<and> cam_height (m_camera_left cm') = cam_height c)"
      using stored even_make_even[of c] by auto
    obtain r s' where run: "set_camera_left es' ed' c cm' = (r, s')" by fastforce
    from left_eye.changed_size[OF diff run] have
      "scene_left (m_codecs s') = snd (change_resolution es' (cam_width (make_even c))
        (cam_height (make_even c)) (scene_left (m_codecs cm')))"
      by (auto split: prod.splits sum.splits)
    then show ?thesis using False run by auto
  qed
qed

theorem repeated_camera_witness:
  "\<exists>cm'. set_camera_left demo_env demo_env demo_camera demo_manager = (Inr (), cm')
     \<and> scene_left (m_codecs (snd (set_camera_left demo_env demo_env demo_camera cm'))) =
      snd (change_resolution demo_env (cam_width (make_even demo_camera))
        (cam_height (make_even demo_camera)) (scene_left (m_codecs cm')))"
proof -
  obtain cm' where run: "set_camera_left demo_env demo_env demo_camera demo_manager = (Inr (), cm')"
    using demo_set_camera_left by blast
  have odd: "\<not> even (unat (cam_width demo_camera))" by (simp add: demo_camera_def)
  have diff: "cam_width (m_camera_left demo_manager) \<noteq> cam_width demo_camera
      \<or> cam_height (m_camera_left demo_manager) \<noteq> cam_height demo_camera"
    by (simp add: demo_manager_def CameraManager_new_def demo_camera_def)
  show ?thesis
    using run repeated_camera[OF run diff, of demo_env demo_env] odd by auto
qed

end
