(* ===== verification/Render_Text.thy ===== *)
theory Render_Text
  imports Prelude
begin

text \<open>
  \<open>RenderTextContext\<close> (\<open>render_text.h\<close>, \<open>render_text.cc\<close>): drawing a string into the RGB
  buffer of a frame. FreeType is a parameter: \<open>load ch slot\<close> is \<open>FT_Load_Char\<close>, giving its
  return code and the glyph slot afterwards (after a failure the code draws whatever the
  slot then holds). Pen positions and loop bounds are C \<open>int\<close>s: where the source converts an
  \<open>unsigned\<close> or \<open>long\<close> value to \<open>int\<close>, the model reduces it with \<open>i32\<close>. Reads and writes outside a
  buffer end with \<open>OutOfBounds\<close>.
\<close>

section \<open>Data\<close>

datatype RenderPosition =
    RENDER_POSITION_LEFT_TOP
  | RENDER_POSITION_LEFT_BOTTOM
  | RENDER_POSITION_RIGHT_TOP
  | RENDER_POSITION_RIGHT_BOTTOM
  | RENDER_POSITION_CENTER

record glyph =
  bitmap_left :: int
  bitmap_top :: int
  bitmap_width :: u32
  bitmap_rows :: u32
  bitmap_buffer :: "u8 list"
  advance_x :: int

definition i32 :: "int \<Rightarrow> int" where
  "i32 x = signed_take_bit 31 x"

section \<open>Drawing\<close>

text \<open>The pen position for each option, computed in \<open>uint32_t\<close> where the frame's size enters.\<close>

fun pen_start :: "RenderPosition \<Rightarrow> u32 \<Rightarrow> u32 \<Rightarrow> int \<times> int" where
  "pen_start RENDER_POSITION_LEFT_TOP width height = (50, 50)"
| "pen_start RENDER_POSITION_LEFT_BOTTOM width height = (50, sint (height - 100 + 50))"
| "pen_start RENDER_POSITION_RIGHT_TOP width height = (sint (width - 300 + 50), 50)"
| "pen_start RENDER_POSITION_RIGHT_BOTTOM width height =
     (sint (width - 300 + 50), sint (height - 100 + 50))"
| "pen_start RENDER_POSITION_CENTER width height =
     (sint (width div 2 - 300), sint (height div 2 - 100))"

text \<open>One round of the inner loop: frame column \<open>i\<close>, frame row \<open>j\<close>, bitmap column \<open>p\<close>, bitmap row \<open>q\<close>.\<close>

definition blit_pixel ::
  "glyph \<Rightarrow> u32 \<Rightarrow> u32 \<Rightarrow> int \<Rightarrow> int \<Rightarrow> int \<Rightarrow> int \<Rightarrow> u8 list \<Rightarrow> u8 list res" where
  "blit_pixel g width height j q i p surface =
     (if i < 0 \<or> j < 0 \<or> i \<ge> uint width \<or> j \<ge> uint height then Inr surface
      else
        (let b = nat ((q * uint (bitmap_width g) + p) mod 2 ^ 32)
         in if length (bitmap_buffer g) \<le> b then Inl (OutOfBounds b)
            else if bitmap_buffer g ! b = 0 then Inr surface
            else
              (let k0 = nat ((j * uint width + i) * 3 mod 2 ^ 32);
                   k1 = nat (((j * uint width + i) * 3 + 1) mod 2 ^ 32);
                   k2 = nat (((j * uint width + i) * 3 + 2) mod 2 ^ 32)
               in if length surface \<le> k0 then Inl (OutOfBounds k0)
                  else if length surface \<le> k1 then Inl (OutOfBounds k1)
                  else if length surface \<le> k2 then Inl (OutOfBounds k2)
                  else Inr (surface[k0 := 255, k1 := 255, k2 := 255]))))"

fun blit_row ::
  "glyph \<Rightarrow> u32 \<Rightarrow> u32 \<Rightarrow> int \<Rightarrow> int \<Rightarrow> int \<Rightarrow> int \<Rightarrow> nat \<Rightarrow> u8 list \<Rightarrow> u8 list res" where
  "blit_row g width height j q i p 0 surface = Inr surface"
| "blit_row g width height j q i p (Suc n) surface =
     bindE (blit_pixel g width height j q i p surface)
       (blit_row g width height j q (i + 1) (p + 1) n)"

fun blit_rows ::
  "glyph \<Rightarrow> u32 \<Rightarrow> u32 \<Rightarrow> int \<Rightarrow> int \<Rightarrow> int \<Rightarrow> nat \<Rightarrow> nat \<Rightarrow> u8 list \<Rightarrow> u8 list res" where
  "blit_rows g width height j q i0 cols 0 surface = Inr surface"
| "blit_rows g width height j q i0 cols (Suc n) surface =
     bindE (blit_row g width height j q i0 0 cols surface)
       (blit_rows g width height (j + 1) (q + 1) i0 cols n)"

definition blit_glyph ::
  "glyph \<Rightarrow> u32 \<Rightarrow> u32 \<Rightarrow> int \<Rightarrow> int \<Rightarrow> u8 list \<Rightarrow> u8 list res" where
  "blit_glyph slot width height pen_x pen_y surface =
     (let x_min = pen_x + bitmap_left slot;
          y_min = pen_y - bitmap_top slot;
          x_max = i32 (x_min + uint (bitmap_width slot));
          y_max = i32 (y_min + uint (bitmap_rows slot))
      in blit_rows slot width height y_min 0 x_min (nat (x_max - x_min)) (nat (y_max - y_min))
           surface)"

fun render_chars ::
  "(char \<Rightarrow> glyph \<Rightarrow> int \<times> glyph) \<Rightarrow> u32 \<Rightarrow> u32 \<Rightarrow> int \<Rightarrow> int \<Rightarrow> int \<Rightarrow> glyph \<Rightarrow> string \<Rightarrow>
   u8 list \<Rightarrow> (glyph \<times> u8 list) res" where
  "render_chars load width height orig_pen_x pen_x pen_y slot [] surface = Inr (slot, surface)"
| "render_chars load width height orig_pen_x pen_x pen_y slot (ch # content) surface =
     (if ch = CHR 0x0A
      then render_chars load width height orig_pen_x orig_pen_x (pen_y + 20) slot content surface
      else
        (let slot' = snd (load ch slot)
         in bindE (blit_glyph slot' width height pen_x pen_y surface)
              (render_chars load width height orig_pen_x
                 (i32 (pen_x + advance_x slot' div 64)) pen_y slot' content)))"

text \<open>
  The context keeps the glyph slot of its face between calls; a context whose face was never
  opened has none.
\<close>

record RenderTextContext =
  face :: "glyph option"

definition render_string_to_frame ::
  "(char \<Rightarrow> glyph \<Rightarrow> int \<times> glyph) \<Rightarrow> RenderTextContext \<Rightarrow> u32 \<Rightarrow> u32 \<Rightarrow> RenderPosition \<Rightarrow> string \<Rightarrow>
   u8 list \<Rightarrow> (RenderTextContext \<times> u8 list) res" where
  "render_string_to_frame load ctx width height opt content surface =
     (case face ctx of
        None \<Rightarrow> Inl NullPointer
      | Some slot \<Rightarrow>
          (let (pen_x, pen_y) = pen_start opt width height
           in bindE (render_chars load width height pen_x pen_x pen_y slot content surface)
                (\<lambda>(slot', t). Inr (ctx\<lparr>face := Some slot'\<rparr>, t))))"

text \<open>
  The constructor. FreeType's three set-up calls are parameters: their return codes and the
  slot of the face \<open>FT_New_Face\<close> opens, if it opens one.
\<close>

record ft_env =
  FT_Init_FreeType :: int
  FT_New_Face :: "string \<Rightarrow> int \<times> glyph option"
  FT_Set_Char_Size :: int
  FT_Error_String :: "int \<Rightarrow> string"

definition RenderTextContext_new :: "ft_env \<Rightarrow> string \<Rightarrow> RenderTextContext res" where
  "RenderTextContext_new ft font_location =
     (if FT_Init_FreeType ft < 0
      then Inl (RuntimeError (''EncodeTextContext: Failed to init freetype: ''
             @ FT_Error_String ft (FT_Init_FreeType ft)))
      else
        (let (ret, slot) = FT_New_Face ft font_location
         in if ret < 0
            then Inl (RuntimeError (''EncodeTextContext: Failed to init font face: ''
                   @ FT_Error_String ft ret))
            else if FT_Set_Char_Size ft < 0
            then Inl (RuntimeError (''EncodeTextContext: Failed to set character size: ''
                   @ FT_Error_String ft (FT_Set_Char_Size ft)))
            else Inr \<lparr>face = slot\<rparr>))"

section \<open>What a glyph paints\<close>

text \<open>\<open>painted s t P\<close>: \<open>t\<close> is \<open>s\<close> with the bytes at the positions \<open>P\<close> set to 255.\<close>

definition painted :: "u8 list \<Rightarrow> u8 list \<Rightarrow> nat set \<Rightarrow> bool" where
  "painted s t P = (length t = length s \<and> (\<forall>k < length s. t ! k = (if k \<in> P then 255 else s ! k)))"

lemma painted_refl [simp]: "painted s s {}"
  by (simp add: painted_def)

lemma painted_trans: "painted s t P \<Longrightarrow> painted t u Q \<Longrightarrow> painted s u (P \<union> Q)"
  by (auto simp: painted_def)

lemma painted_length: "painted s t P \<Longrightarrow> length t = length s"
  by (simp add: painted_def)

text \<open>The three bytes of the frame pixel a bitmap cell covers, if it is inked and in the frame.\<close>

definition cell :: "glyph \<Rightarrow> u32 \<Rightarrow> u32 \<Rightarrow> int \<Rightarrow> int \<Rightarrow> int \<Rightarrow> int \<Rightarrow> nat set" where
  "cell g width height j q i p =
     (if 0 \<le> i \<and> i < uint width \<and> 0 \<le> j \<and> j < uint height
         \<and> bitmap_buffer g ! nat (q * uint (bitmap_width g) + p) \<noteq> 0
      then {k. int k div 3 = j * uint width + i} else {})"

definition glyph_ok :: "glyph \<Rightarrow> bool" where
  "glyph_ok g = (unat (bitmap_rows g) * unat (bitmap_width g) \<le> length (bitmap_buffer g)
     \<and> unat (bitmap_rows g) * unat (bitmap_width g) < 2 ^ 32)"

definition frame_small :: "u32 \<Rightarrow> u32 \<Rightarrow> bool" where
  "frame_small width height = (3 * (uint width * uint height) < 4294967296)"

text \<open>
  \<open>outcome s r P\<close>: if the bytes \<open>P\<close> all lie in the buffer, \<open>r\<close> is the buffer with them painted;
  otherwise \<open>r\<close> is an access outside the buffer.
\<close>

definition outcome :: "u8 list \<Rightarrow> u8 list res \<Rightarrow> nat set \<Rightarrow> bool" where
  "outcome s r P = (if P \<subseteq> {..<length s} then \<exists>t. r = Inr t \<and> painted s t P
     else \<exists>k. r = Inl (OutOfBounds k))"

lemma outcome_none [simp]: "outcome s (Inr s) {}"
  by (simp add: outcome_def)

lemma outcome_bind:
  assumes "outcome s r P" and "\<And>t. length t = length s \<Longrightarrow> outcome t (f t) Q"
  shows "outcome s (bindE r f) (P \<union> Q)"
proof (cases "P \<subseteq> {..<length s}")
  case True
  then obtain t where t: "r = Inr t" "painted s t P" using assms(1) by (auto simp: outcome_def)
  then have "outcome t (f t) Q" using assms(2) painted_length by blast
  then show ?thesis using True t painted_trans[OF t(2)] painted_length[OF t(2)]
    by (auto simp: outcome_def split: if_splits)
next
  case False
  then show ?thesis using assms(1) by (auto simp: outcome_def)
qed

lemma pixel_index_bound:
  fixes W H i j :: int
  assumes "0 \<le> i" "i < W" "0 \<le> j" "j < H"
  shows "0 \<le> j * W + i" and "j * W + i + 1 \<le> W * H"
proof -
  show "0 \<le> j * W + i" using assms by simp
  have "(j + 1) * W \<le> H * W" using assms by (intro mult_right_mono) simp_all
  then show "j * W + i + 1 \<le> W * H" using assms by (simp add: algebra_simps)
qed

lemma cell_index_bound:
  fixes W R q p :: int
  assumes "0 \<le> q" "q < R" "0 \<le> p" "p < W"
  shows "0 \<le> q * W + p" and "q * W + p < R * W"
  using pixel_index_bound[of p W q R] assms by (simp_all add: mult.commute)

lemma glyph_ok_int:
  assumes "glyph_ok g"
  shows "uint (bitmap_rows g) * uint (bitmap_width g) \<le> int (length (bitmap_buffer g))
    \<and> uint (bitmap_rows g) * uint (bitmap_width g) < 4294967296"
proof -
  have "uint (bitmap_rows g) * uint (bitmap_width g)
      = int (unat (bitmap_rows g) * unat (bitmap_width g))" by simp
  moreover have "(2::nat) ^ 32 = 4294967296" by simp
  ultimately show ?thesis using assms unfolding glyph_ok_def by linarith
qed

lemma pixel_byte_iff:
  fixes K :: int
  assumes "0 \<le> K"
  shows "int m div 3 = K \<longleftrightarrow> m = nat (K * 3) \<or> m = nat (K * 3 + 1) \<or> m = nat (K * 3 + 2)"
  using assms by linarith

lemma painted_update3:
  "painted s (s[a := 255, b := 255, c := 255]) {k. k = a \<or> k = b \<or> k = c}"
  by (cases "a < length s"; cases "b < length s"; cases "c < length s")
    (auto simp: painted_def nth_list_update not_less)

lemma pixel_mod:
  fixes k :: int
  assumes "0 \<le> k" "3 * (k + 1) < 4294967296"
  shows "k * 3 mod 2 ^ 32 = k * 3" "(k * 3 + 1) mod 2 ^ 32 = k * 3 + 1"
    "(k * 3 + 2) mod 2 ^ 32 = k * 3 + 2"
  using assms by simp_all

lemma blit_pixel_outcome:
  assumes f: "frame_small width height" and g: "glyph_ok g"
    and q: "0 \<le> q" "q < uint (bitmap_rows g)" and p: "0 \<le> p" "p < uint (bitmap_width g)"
  shows "outcome surface (blit_pixel g width height j q i p surface)
    (cell g width height j q i p)"
proof (cases "0 \<le> i \<and> i < uint width \<and> 0 \<le> j \<and> j < uint height")
  case False
  then show ?thesis by (auto simp: blit_pixel_def cell_def)
next
  case True
  let ?b = "q * uint (bitmap_width g) + p" and ?k = "j * uint width + i"
  have b: "0 \<le> ?b" "?b < uint (bitmap_rows g) * uint (bitmap_width g)"
    using cell_index_bound[of q _ p] q p by blast+
  have area: "uint (bitmap_rows g) * uint (bitmap_width g) \<le> int (length (bitmap_buffer g))"
    "uint (bitmap_rows g) * uint (bitmap_width g) < 4294967296"
    using glyph_ok_int[OF g] by simp_all
  have k: "0 \<le> ?k" "?k + 1 \<le> uint width * uint height"
    using pixel_index_bound[of i "uint width" j "uint height"] True by simp_all
  have k3: "3 * (?k + 1) < 4294967296"
    using f mult_left_mono[OF k(2), of 3] unfolding frame_small_def by linarith
  have bm: "?b mod 2 ^ 32 = ?b" using b area by simp
  have ib: "\<not> length (bitmap_buffer g) \<le> nat ?b" using b area by linarith
  define k0 k1 k2 where "k0 = nat (?k * 3)" and "k1 = nat (?k * 3 + 1)" and "k2 = nat (?k * 3 + 2)"
  note ks = pixel_mod[OF k(1) k3] k0_def[symmetric] k1_def[symmetric] k2_def[symmetric]
  have cell: "cell g width height j q i p =
      (if bitmap_buffer g ! nat ?b = 0 then {} else {m. m = k0 \<or> m = k1 \<or> m = k2})"
    using True pixel_byte_iff[OF k(1)] by (simp add: cell_def k0_def k1_def k2_def)
  have blit: "blit_pixel g width height j q i p surface =
      (if bitmap_buffer g ! nat ?b = 0 then Inr surface
       else if length surface \<le> k0 then Inl (OutOfBounds k0)
       else if length surface \<le> k1 then Inl (OutOfBounds k1)
       else if length surface \<le> k2 then Inl (OutOfBounds k2)
       else Inr (surface[k0 := 255, k1 := 255, k2 := 255]))"
  proof -
    have "\<not> (i < 0 \<or> j < 0 \<or> i \<ge> uint width \<or> j \<ge> uint height)" using True by linarith
    then show ?thesis unfolding blit_pixel_def bm Let_def ks by (simp only: ib if_False)
  qed
  have sub: "{m. m = k0 \<or> m = k1 \<or> m = k2} \<subseteq> {..<n} \<longleftrightarrow> \<not> n \<le> k0 \<and> \<not> n \<le> k1 \<and> \<not> n \<le> k2" for n
    by (auto simp: not_le)
  show ?thesis
    unfolding cell blit outcome_def
    by (simp only: sub painted_update3 split: if_split) (simp add: painted_update3)
qed

lemma UN_lessThan_Suc_shift: "(\<Union>d<Suc n. f d) = f 0 \<union> (\<Union>d<n. f (Suc d))"
  by (auto simp: lessThan_Suc_eq_insert_0)

lemma blit_row_outcome:
  assumes "frame_small width height" "glyph_ok g"
    and "0 \<le> q" "q < uint (bitmap_rows g)" "0 \<le> p" "p + int n \<le> uint (bitmap_width g)"
  shows "outcome surface (blit_row g width height j q i p n surface)
    (\<Union>d<n. cell g width height j q (i + int d) (p + int d))"
  using assms
proof (induction n arbitrary: i p surface)
  case 0
  then show ?case by simp
next
  case (Suc n)
  have "outcome surface (blit_row g width height j q i p (Suc n) surface)
      (cell g width height j q i p
        \<union> (\<Union>d<n. cell g width height j q (i + 1 + int d) (p + 1 + int d)))"
    using Suc by (simp del: UN_simps) (rule outcome_bind; simp add: blit_pixel_outcome)
  then show ?case by (simp add: UN_lessThan_Suc_shift add.assoc add.left_commute)
qed

text \<open>The bytes a rectangle of \<open>n\<close> bitmap rows and \<open>cols\<close> columns paints.\<close>

definition block ::
  "glyph \<Rightarrow> u32 \<Rightarrow> u32 \<Rightarrow> int \<Rightarrow> int \<Rightarrow> int \<Rightarrow> nat \<Rightarrow> nat \<Rightarrow> nat set" where
  "block g width height j q i0 cols n =
     (\<Union>r<n. \<Union>d<cols. cell g width height (j + int r) (q + int r) (i0 + int d) (int d))"

lemma blit_rows_outcome:
  assumes "frame_small width height" "glyph_ok g"
    and "0 \<le> q" "q + int n \<le> uint (bitmap_rows g)" "int cols \<le> uint (bitmap_width g)"
  shows "outcome surface (blit_rows g width height j q i0 cols n surface)
    (block g width height j q i0 cols n)"
  using assms
proof (induction n arbitrary: j q surface)
  case 0
  then show ?case by (simp add: block_def)
next
  case (Suc n)
  have "outcome surface (blit_row g width height j q i0 0 cols surface)
      (\<Union>d<cols. cell g width height j q (i0 + int d) (int d))"
    using blit_row_outcome[of width height g q 0 cols surface j i0] Suc.prems by simp
  then have "outcome surface (blit_rows g width height j q i0 cols (Suc n) surface)
      ((\<Union>d<cols. cell g width height j q (i0 + int d) (int d))
        \<union> block g width height (j + 1) (q + 1) i0 cols n)"
    using Suc.IH[of "q + 1" _ "j + 1"] Suc.prems by (simp del: UN_simps) (rule outcome_bind; simp)
  then show ?case by (simp add: block_def UN_lessThan_Suc_shift add.assoc add.left_commute)
qed

lemma i32_id: "- 2147483648 \<le> x \<Longrightarrow> x < 2147483648 \<Longrightarrow> i32 x = x"
  by (simp add: i32_def signed_take_bit_int_eq_self)

text \<open>The area of a whole glyph with the pen at \<open>(pen_x, pen_y)\<close>.\<close>

definition glyph_area :: "glyph \<Rightarrow> u32 \<Rightarrow> u32 \<Rightarrow> int \<Rightarrow> int \<Rightarrow> nat set" where
  "glyph_area g width height pen_x pen_y =
     block g width height (pen_y - bitmap_top g) 0 (pen_x + bitmap_left g)
       (unat (bitmap_width g)) (unat (bitmap_rows g))"

definition glyph_small :: "glyph \<Rightarrow> bool" where
  "glyph_small g = (glyph_ok g
     \<and> - 32768 \<le> bitmap_left g \<and> bitmap_left g \<le> 32768
     \<and> - 32768 \<le> bitmap_top g \<and> bitmap_top g \<le> 32768
     \<and> uint (bitmap_width g) \<le> 32768 \<and> uint (bitmap_rows g) \<le> 32768
     \<and> 0 \<le> advance_x g \<and> advance_x g \<le> 2097152)"

lemma blit_glyph_outcome:
  assumes f: "frame_small width height" and g: "glyph_small g"
    and x: "- 1073741824 \<le> pen_x" "pen_x \<le> 1073741824"
    and y: "- 1073741824 \<le> pen_y" "pen_y \<le> 1073741824"
  shows "outcome surface (blit_glyph g width height pen_x pen_y surface)
    (glyph_area g width height pen_x pen_y)"
proof -
  have "i32 (pen_x + bitmap_left g + uint (bitmap_width g))
      = pen_x + bitmap_left g + uint (bitmap_width g)"
    using g x uint_ge_0[of "bitmap_width g"] unfolding glyph_small_def by (intro i32_id) linarith+
  moreover have "i32 (pen_y - bitmap_top g + uint (bitmap_rows g))
      = pen_y - bitmap_top g + uint (bitmap_rows g)"
    using g y uint_ge_0[of "bitmap_rows g"] unfolding glyph_small_def by (intro i32_id) linarith+
  ultimately show ?thesis
    using blit_rows_outcome[of width height g 0 "unat (bitmap_rows g)"
        "unat (bitmap_width g)" surface "pen_y - bitmap_top g" "pen_x + bitmap_left g"] f g
    by (simp add: blit_glyph_def glyph_area_def glyph_small_def Let_def)
qed

section \<open>What a string paints\<close>

fun text_area ::
  "(char \<Rightarrow> glyph \<Rightarrow> int \<times> glyph) \<Rightarrow> u32 \<Rightarrow> u32 \<Rightarrow> int \<Rightarrow> int \<Rightarrow> int \<Rightarrow> glyph \<Rightarrow> string \<Rightarrow> nat set" where
  "text_area load width height line_x pen_x pen_y slot [] = {}"
| "text_area load width height line_x pen_x pen_y slot (ch # content) =
     (if ch = CHR 0x0A then text_area load width height line_x line_x (pen_y + 20) slot content
      else glyph_area (snd (load ch slot)) width height pen_x pen_y
        \<union> text_area load width height line_x (pen_x + advance_x (snd (load ch slot)) div 64) pen_y
            (snd (load ch slot)) content)"

definition surface_of :: "('a \<times> u8 list) res \<Rightarrow> u8 list res" where
  "surface_of r = bindE r (\<lambda>(slot, t). Inr t)"

lemma surface_of_simps [simp]:
  "surface_of (Inr (slot, t)) = Inr t"
  "surface_of (bindE r f) = bindE r (\<lambda>x. surface_of (f x))"
  by (simp_all add: surface_of_def bindE_def split: sum.split)

lemma render_chars_outcome:
  assumes f: "frame_small width height" and load: "\<forall>ch slot. glyph_small (snd (load ch slot))"
    and "- 536870912 \<le> orig_pen_x" "orig_pen_x \<le> pen_x"
    and "pen_x + int (length content) * 32768 \<le> 1073741824"
    and "- 536870912 \<le> pen_y" "pen_y + int (length content) * 20 \<le> 1073741824"
  shows "outcome surface
    (surface_of (render_chars load width height orig_pen_x pen_x pen_y slot content surface))
    (text_area load width height orig_pen_x pen_x pen_y slot content)"
  using assms(3-)
proof (induction content arbitrary: pen_x pen_y slot surface)
  case Nil
  then show ?case by simp
next
  case (Cons ch content)
  let ?g = "snd (load ch slot)" and ?x = "pen_x + advance_x (snd (load ch slot)) div 64"
  show ?case
  proof (cases "ch = CHR 0x0A")
    case True
    have "orig_pen_x + int (length content) * 32768 \<le> 1073741824" using Cons.prems by simp
    then show ?thesis
      using Cons.IH[of orig_pen_x "pen_y + 20"] Cons.prems True by simp
  next
    case False
    have g: "glyph_small ?g" using load by blast
    have adv: "0 \<le> advance_x ?g div 64" "advance_x ?g div 64 \<le> 32768"
      using g unfolding glyph_small_def by linarith+
    have i: "i32 ?x = ?x" using adv Cons.prems by (intro i32_id) auto
    have "outcome surface (blit_glyph ?g width height pen_x pen_y surface)
        (glyph_area ?g width height pen_x pen_y)"
      using Cons.prems by (intro blit_glyph_outcome[OF f g]) auto
    moreover have "outcome t
        (surface_of (render_chars load width height orig_pen_x ?x pen_y ?g content t))
        (text_area load width height orig_pen_x ?x pen_y ?g content)" for t
      using Cons.prems adv by (intro Cons.IH) auto
    ultimately show ?thesis
      using False i by (auto simp: Let_def intro: outcome_bind)
  qed
qed

lemma sint_word_of_int: "sint (word_of_int x :: u32) = i32 x"
  unfolding i32_def by transfer simp

lemma sint_diff: "sint (a - b :: u32) = i32 (uint a - uint b)"
  by (subst word_sub_wi) (rule sint_word_of_int)

lemma pen_start_bounds:
  assumes "uint width \<le> 65535" "uint height \<le> 65535"
  shows "- 300 \<le> fst (pen_start opt width height)" "fst (pen_start opt width height) \<le> 65535"
    "- 300 \<le> snd (pen_start opt width height)" "snd (pen_start opt width height) \<le> 65535"
proof -
  have 1: "width - 300 + 50 = width - 250" "height - 100 + 50 = height - 50" by simp_all
  have 2: "sint (width - 250) = uint width - 250" "sint (height - 50) = uint height - 50"
    using assms uint_ge_0[of width] uint_ge_0[of height]
    unfolding sint_diff by (subst i32_id; simp)+
  have 3: "sint (width div 2 - 300) = uint width div 2 - 300"
    "sint (height div 2 - 100) = uint height div 2 - 100"
    using assms uint_ge_0[of width] uint_ge_0[of height]
    unfolding sint_diff by (subst i32_id; simp add: uint_div)+
  have 4: "0 \<le> uint width" "0 \<le> uint height" by simp_all
  show "- 300 \<le> fst (pen_start opt width height)" "fst (pen_start opt width height) \<le> 65535"
    "- 300 \<le> snd (pen_start opt width height)" "snd (pen_start opt width height) \<le> 65535"
    using assms 4 by (cases opt; simp add: 1 2 3)+
qed

lemma cell_in_frame: "cell g width height j q i p \<subseteq> {..<3 * (unat width * unat height)}"
proof
  fix k assume "k \<in> cell g width height j q i p"
  then have "0 \<le> i" "i < uint width" "0 \<le> j" "j < uint height" and k: "int k div 3 = j * uint width + i"
    by (auto simp: cell_def split: if_splits)
  then have "int k div 3 + 1 \<le> uint width * uint height"
    using pixel_index_bound[of i "uint width" j "uint height"] by simp
  also have "\<dots> = int (unat width * unat height)" by simp
  finally have "k < 3 * (unat width * unat height)" by linarith
  then show "k \<in> {..<3 * (unat width * unat height)}" by simp
qed

lemma text_area_in_frame:
  "text_area load width height line_x pen_x pen_y slot content \<subseteq> {..<3 * (unat width * unat height)}"
  by (induction content arbitrary: pen_x pen_y slot)
    (use cell_in_frame in \<open>simp_all add: glyph_area_def block_def UN_subset_iff\<close>)

lemma render_string_outcome:
  assumes "face ctx = Some slot" and "frame_small width height"
    and "uint width \<le> 65535" "uint height \<le> 65535" and "length content \<le> 16384"
    and "\<forall>ch slot. glyph_small (snd (load ch slot))"
    and "area = text_area load width height (fst (pen_start opt width height))
      (fst (pen_start opt width height)) (snd (pen_start opt width height)) slot content"
  shows "area \<subseteq> {..<3 * (unat width * unat height)}
    \<and> outcome surface (surface_of (render_string_to_frame load ctx width height opt content surface)) area"
proof -
  have "surface_of (case x of (slot', t) \<Rightarrow> Inr (ctx\<lparr>face := Some slot'\<rparr>, t)) = surface_of (Inr x)" for x
    by (cases x) simp
  then have "surface_of (render_string_to_frame load ctx width height opt content surface)
      = surface_of (render_chars load width height (fst (pen_start opt width height))
          (fst (pen_start opt width height)) (snd (pen_start opt width height)) slot content surface)"
    using assms(1) by (simp add: render_string_to_frame_def split_beta surface_of_def)
      (simp add: bindE_def split: sum.split)
  moreover have "int (length content) \<le> 16384" using assms(5) by simp
  ultimately show ?thesis
    using assms(2,6,7) pen_start_bounds[OF assms(3,4), of opt] text_area_in_frame
    by (simp add: render_chars_outcome)
qed

text \<open>
  C22. Drawing a string has an exact effect. For a frame of at most 65535 by 65535 pixels with
  fewer than 2^32 bytes, glyphs whose bitmaps hold their rows (and are of sane size) and a
  text of at most 16384 characters: the bytes of the text's area are set to 255, no other byte
  changes, and the area lies in the frame's width times height times three bytes. If the
  buffer is shorter than that and the area reaches beyond its end, the code writes outside
  the buffer: nothing relates the buffer's length to the frame's size.
\<close>

theorem render_string_exact:
  assumes "face ctx = Some slot" and "frame_small width height"
    and "uint width \<le> 65535" "uint height \<le> 65535" and "length content \<le> 16384"
    and "\<forall>ch slot. glyph_small (snd (load ch slot))"
    and "area = text_area load width height (fst (pen_start opt width height))
      (fst (pen_start opt width height)) (snd (pen_start opt width height)) slot content"
  shows "area \<subseteq> {..<3 * (unat width * unat height)}
    \<and> outcome surface (surface_of (render_string_to_frame load ctx width height opt content surface)) area"
  by (rule render_string_outcome[OF assms])

definition demo_glyph :: glyph where
  "demo_glyph = \<lparr>bitmap_left = 0, bitmap_top = 0, bitmap_width = 1, bitmap_rows = 1,
     bitmap_buffer = [9], advance_x = 640\<rparr>"

definition demo_text :: RenderTextContext where
  "demo_text = \<lparr>face = Some demo_glyph\<rparr>"

theorem render_string_exact_witness:
  "(\<exists>t. surface_of (render_string_to_frame (\<lambda>ch g. (0, demo_glyph)) demo_text 60 60
       RENDER_POSITION_LEFT_TOP ''a'' (replicate 10800 0)) = Inr t \<and> length t = 10800)
   \<and> (\<exists>k. surface_of (render_string_to_frame (\<lambda>ch g. (0, demo_glyph)) demo_text 60 60
       RENDER_POSITION_LEFT_TOP ''a'' []) = Inl (OutOfBounds k))"
proof -
  have g: "glyph_small demo_glyph" by (simp add: demo_glyph_def glyph_small_def glyph_ok_def)
  note r = render_string_exact[of demo_text demo_glyph 60 60 "''a''" "\<lambda>ch g. (0, demo_glyph)" _
      RENDER_POSITION_LEFT_TOP, OF _ _ _ _ _ _ refl]
  have a: "text_area (\<lambda>ch g. (0, demo_glyph)) 60 60 50 50 50 demo_glyph ''a'' \<subseteq> {..<10800}"
    using r[of "[]"] g by (simp add: demo_text_def frame_small_def)
  have i: "9150 \<in> text_area (\<lambda>ch g. (0, demo_glyph)) 60 60 50 50 50 demo_glyph ''a''"
    by (simp add: glyph_area_def block_def cell_def demo_glyph_def lessThan_Suc)
  show ?thesis
    using r[of "[]"] r[of "replicate 10800 0"] g a i
    by (auto simp: demo_text_def frame_small_def outcome_def painted_def split: if_splits)
qed

text \<open>
  The constructor throws exactly when one of the three set-up calls returns a negative
  code. FreeType's codes are zero or positive, so in the field none of the three tests fires:
  the constructor succeeds whatever FreeType reports, and after a failed \<open>FT_New_Face\<close> the first
  string drawn uses a face that does not exist.
\<close>

lemma RenderTextContext_unchecked:
  assumes "0 \<le> FT_Init_FreeType ft" "0 \<le> fst (FT_New_Face ft font)" "0 \<le> FT_Set_Char_Size ft"
  shows "RenderTextContext_new ft font = Inr \<lparr>face = snd (FT_New_Face ft font)\<rparr>
    \<and> (snd (FT_New_Face ft font) = None \<longrightarrow>
        bindE (RenderTextContext_new ft font)
          (\<lambda>ctx. render_string_to_frame load ctx width height opt content surface) = Inl NullPointer)"
  using assms by (simp add: RenderTextContext_new_def render_string_to_frame_def split_beta)

end
