(* ===== verification/Frames.thy ===== *)
theory Frames
  imports Codec Messages Render_Text
begin

text \<open>
  The owners of frame memory: \<open>FrameManager\<close>, \<open>AVFrameWrapper\<close> and \<open>SwsContextManager\<close>
  (\<open>type_managers.h\<close>, \<open>type_managers.cc\<close>) and \<open>RenderedFrame\<close> (\<open>rendered_frame.h\<close>,
  \<open>rendered_frame.cc\<close>), on an explicit heap of byte blocks, so that what a destructor
  releases and what it forgets can be stated. Address 0 is the null pointer. Of the plane
  pointers \<open>data[8]\<close> the model keeps \<open>data[0]\<close>, the only one the program itself reads, writes or
  frees; the others point into the same block.

  libavutil and libswscale are a parameter, the record \<open>av_env\<close>: the return value of each
  call, the line sizes and bytes it leaves behind, and the conversion \<open>sws_scale\<close> computes.
\<close>

section \<open>The heap\<close>

type_synonym ptr = nat

record heap =
  cells :: "ptr \<rightharpoonup> u8 list"
  fresh :: ptr

definition heap_ok :: "heap \<Rightarrow> bool" where
  "heap_ok h = (0 < fresh h \<and> cells h 0 = None \<and> (\<forall>p \<ge> fresh h. cells h p = None))"

definition heap_new :: "u8 list \<Rightarrow> heap \<Rightarrow> ptr \<times> heap" where
  "heap_new bytes h = (fresh h, h\<lparr>cells := (cells h)(fresh h \<mapsto> bytes), fresh := Suc (fresh h)\<rparr>)"

definition heap_free :: "ptr \<Rightarrow> heap \<Rightarrow> heap res" where
  "heap_free p h =
     (if p = 0 then Inr h
      else if cells h p = None then Inl (InvalidFree p)
      else Inr (h\<lparr>cells := (cells h)(p := None)\<rparr>))"

definition heap_empty :: heap where
  "heap_empty = \<lparr>cells = Map.empty, fresh = 1\<rparr>"

section \<open>FrameManager\<close>

definition kBufferSizeAlignValueBytes :: nat where
  "kBufferSizeAlignValueBytes = 32"

definition AV_NUM_DATA_POINTERS :: nat where
  "AV_NUM_DATA_POINTERS = 8"

record FrameContext =
  fc_width :: u32
  fc_height :: u32
  fc_pix_fmt :: AVPixelFormat

record FrameData =
  data0 :: ptr
  linesize :: "int list"

record FrameManager =
  m_data :: FrameData
  m_context :: FrameContext
  m_should_free_buffer :: bool

record av_env =
  image_alloc :: "u32 \<Rightarrow> u32 \<Rightarrow> AVPixelFormat \<Rightarrow> nat \<Rightarrow> int \<times> int list \<times> u8 list"
  image_get_linesize :: "AVPixelFormat \<Rightarrow> u32 \<Rightarrow> nat \<Rightarrow> int"
  nb_components :: "AVPixelFormat \<Rightarrow> nat"
  frame_alloc :: bool
  image_fill_pointers :: "AVPixelFormat \<Rightarrow> u32 \<Rightarrow> int list \<Rightarrow> int"
  sws_getContext :: "FrameContext \<Rightarrow> FrameContext \<Rightarrow> bool"
  sws_scale :: "FrameContext \<Rightarrow> int list \<Rightarrow> FrameContext \<Rightarrow> int list \<Rightarrow> u8 list \<Rightarrow> u8 list \<Rightarrow> u8 list"
  av_strerror :: "int \<Rightarrow> string option"

text \<open>The constructor of \<open>FrameContext\<close> from the codec's configuration.\<close>

definition FrameContext_of :: "CodecInitInfo \<Rightarrow> FrameContext" where
  "FrameContext_of info =
     \<lparr>fc_width = info_width info, fc_height = info_height info, fc_pix_fmt = pix_fmt info\<rparr>"

text \<open>
  A null \<open>buffer\<close> asks for an allocation. When that fails the source builds a
  \<open>std::runtime_error\<close> and does not throw it: the constructor returns with a null pointer.
\<close>

definition FrameManager_new :: "av_env \<Rightarrow> FrameContext \<Rightarrow> ptr \<Rightarrow> heap \<Rightarrow> FrameManager \<times> heap" where
  "FrameManager_new env context buffer h =
     (if buffer = 0 then
        (let (ret, ls, bytes) = image_alloc env (fc_width context) (fc_height context)
               (fc_pix_fmt context) kBufferSizeAlignValueBytes
         in if ret < 0
            then (\<lparr>m_data = \<lparr>data0 = 0, linesize = ls\<rparr>, m_context = context,
                   m_should_free_buffer = True\<rparr>, h)
            else (let (p, h') = heap_new bytes h
                  in (\<lparr>m_data = \<lparr>data0 = p, linesize = ls\<rparr>, m_context = context,
                       m_should_free_buffer = True\<rparr>, h')))
      else
        (\<lparr>m_data = \<lparr>data0 = buffer,
            linesize = map (\<lambda>plane. if plane < nb_components env (fc_pix_fmt context)
                then image_get_linesize env (fc_pix_fmt context) (fc_width context) plane
                else 0) [0..<AV_NUM_DATA_POINTERS]\<rparr>,
          m_context = context, m_should_free_buffer = False\<rparr>, h))"

definition FrameManager_delete :: "FrameManager \<Rightarrow> heap \<Rightarrow> heap res" where
  "FrameManager_delete fm h =
     (if m_should_free_buffer fm then heap_free (data0 (m_data fm)) h else Inr h)"

section \<open>AVFrameWrapper\<close>

record AVFrameWrapper =
  m_avframe :: ptr
  av_format :: AVPixelFormat
  av_width :: int
  av_height :: int
  av_data0 :: ptr
  av_linesize :: "int list"

text \<open>
  A constructor that throws runs no destructor: what it allocated so far stays allocated.
  \<open>av_image_fill_pointers\<close> replaces the pointers of the image allocated just before.
\<close>

definition AVFrameWrapper_new :: "av_env \<Rightarrow> FrameManager \<Rightarrow> heap \<Rightarrow> AVFrameWrapper res \<times> heap" where
  "AVFrameWrapper_new env fm h =
     (if \<not> frame_alloc env then (Inl (RuntimeError ''Failed to allocate AVFrame.''), h)
      else
        (let (frm, h1) = heap_new [] h;
             context = m_context fm;
             (ret, ls, bytes) = image_alloc env (fc_width context) (fc_height context)
               (fc_pix_fmt context) kBufferSizeAlignValueBytes
         in if ret < 0
            then (Inl (RuntimeError (''AVFrameWrapper: Failed to allocate AVFrame data: ''
                    @ averror_explain (av_strerror env) ret)), h1)
            else
              (let (img, h2) = heap_new bytes h1;
                   ret' = image_fill_pointers env (fc_pix_fmt context) (fc_height context)
                            (linesize (m_data fm))
               in if ret' < 0
                  then (Inl (RuntimeError (''AVFrameWrapper: Failed to fill pointer: ''
                          @ averror_explain (av_strerror env) ret')), h2)
                  else (Inr \<lparr>m_avframe = frm, av_format = fc_pix_fmt context,
                           av_width = sint (fc_width context), av_height = sint (fc_height context),
                           av_data0 = data0 (m_data fm), av_linesize = ls\<rparr>, h2))))"

text \<open>
  \<open>av_frame_unref\<close> resets the fields of the frame, whose planes are not reference counted, so
  that the following \<open>av_freep\<close> releases the null pointer.
\<close>

definition av_frame_unref :: "AVFrameWrapper \<Rightarrow> AVFrameWrapper" where
  "av_frame_unref w = w\<lparr>av_data0 := 0, av_linesize := replicate AV_NUM_DATA_POINTERS 0\<rparr>"

definition AVFrameWrapper_delete :: "AVFrameWrapper \<Rightarrow> heap \<Rightarrow> heap res" where
  "AVFrameWrapper_delete w h =
     (let w' = av_frame_unref w
      in bindE (heap_free (av_data0 w') h) (heap_free (m_avframe w')))"

section \<open>SwsContextManager\<close>

text \<open>The conversion writes the destination block; without a block on both sides it writes nothing.\<close>

definition run_sws_scale :: "av_env \<Rightarrow> FrameManager \<Rightarrow> FrameManager \<Rightarrow> heap \<Rightarrow> heap" where
  "run_sws_scale env source dest h =
     (case (cells h (data0 (m_data source)), cells h (data0 (m_data dest))) of
        (Some sb, Some db) \<Rightarrow>
          h\<lparr>cells := (cells h)(data0 (m_data dest) \<mapsto>
             sws_scale env (m_context source) (linesize (m_data source))
               (m_context dest) (linesize (m_data dest)) sb db)\<rparr>
      | _ \<Rightarrow> h)"

definition SwsContextManager_new ::
  "av_env \<Rightarrow> FrameManager \<Rightarrow> FrameManager \<Rightarrow> heap \<Rightarrow> ptr res \<times> heap" where
  "SwsContextManager_new env source dest h =
     (if \<not> sws_getContext env (m_context source) (m_context dest)
      then (Inl (RuntimeError ''Failed to allocate sws_context.''), h)
      else (let (sws_ctx, h') = heap_new [] h
            in (Inr sws_ctx, run_sws_scale env source dest h')))"

definition SwsContextManager_delete :: "ptr \<Rightarrow> heap \<Rightarrow> heap res" where
  "SwsContextManager_delete sws_ctx h = heap_free sws_ctx h"

section \<open>RenderedFrame\<close>

text \<open>\<open>frame_ptr\<close> and \<open>depth_ptr\<close> are where the two byte strings of the message live.\<close>

record RenderedFrame =
  m_frame_response :: FrameResponse
  frame_ptr :: ptr
  depth_ptr :: ptr
  m_source_avframe_scene :: FrameManager
  m_converted_avframe_scene :: FrameManager
  m_pix_fmt_scene :: AVPixelFormat
  m_source_avframe_depth :: FrameManager
  m_converted_avframe_depth :: FrameManager
  m_pix_fmt_depth :: AVPixelFormat
  m_converted :: bool

definition RenderedFrame_new ::
  "av_env \<Rightarrow> FrameResponse \<Rightarrow> AVPixelFormat \<Rightarrow> AVPixelFormat \<Rightarrow> CodecInitInfo \<Rightarrow> CodecInitInfo \<Rightarrow>
   heap \<Rightarrow> RenderedFrame \<times> heap" where
  "RenderedFrame_new env frame pix_fmt_scene pix_fmt_depth info_scene info_depth h =
     (let (pf, h1) = heap_new (resp_frame frame) h;
          (pd, h2) = heap_new (resp_depth frame) h1;
          width = cam_width (resp_camera frame);
          height = cam_height (resp_camera frame);
          (ss, h3) = FrameManager_new env
            \<lparr>fc_width = width, fc_height = height, fc_pix_fmt = pix_fmt_scene\<rparr> pf h2;
          (cs, h4) = FrameManager_new env (FrameContext_of info_scene) 0 h3;
          (sd, h5) = FrameManager_new env
            \<lparr>fc_width = width, fc_height = height, fc_pix_fmt = pix_fmt_depth\<rparr> pd h4;
          (cd, h6) = FrameManager_new env (FrameContext_of info_depth) 0 h5
      in (\<lparr>m_frame_response = frame, frame_ptr = pf, depth_ptr = pd,
           m_source_avframe_scene = ss, m_converted_avframe_scene = cs,
           m_pix_fmt_scene = pix_fmt_scene,
           m_source_avframe_depth = sd, m_converted_avframe_depth = cd,
           m_pix_fmt_depth = pix_fmt_depth, m_converted = False\<rparr>, h6))"

definition frame_index :: "RenderedFrame \<Rightarrow> u64" where
  "frame_index f = resp_index (m_frame_response f)"

definition frame_is_left :: "RenderedFrame \<Rightarrow> bool" where
  "frame_is_left f = resp_is_left (m_frame_response f)"

definition get_cam :: "RenderedFrame \<Rightarrow> Camera" where
  "get_cam f = resp_camera (m_frame_response f)"

text \<open>
  The two conversions; both contexts are destroyed when the scope is left, in the reverse
  order, also when the second constructor throws.
\<close>

definition convert_frame ::
  "av_env \<Rightarrow> RenderedFrame \<Rightarrow> heap \<Rightarrow> unit res \<times> RenderedFrame \<times> heap" where
  "convert_frame env f h =
     (if m_converted f
      then (Inl (RuntimeError ''Tried to convert a converted RenderedFrame.''), f, h)
      else
        (case SwsContextManager_new env (m_source_avframe_scene f) (m_converted_avframe_scene f) h of
           (Inl e, h1) \<Rightarrow> (Inl e, f, h1)
         | (Inr sws_scene, h1) \<Rightarrow>
             (case SwsContextManager_new env (m_source_avframe_depth f)
                     (m_converted_avframe_depth f) h1 of
                (Inl e, h2) \<Rightarrow>
                  (case SwsContextManager_delete sws_scene h2 of
                     Inl e' \<Rightarrow> (Inl e', f, h2) | Inr h3 \<Rightarrow> (Inl e, f, h3))
              | (Inr sws_depth, h2) \<Rightarrow>
                  (case bindE (SwsContextManager_delete sws_depth h2)
                          (SwsContextManager_delete sws_scene) of
                     Inl e' \<Rightarrow> (Inl e', f\<lparr>m_converted := True\<rparr>, h2)
                   | Inr h3 \<Rightarrow> (Inr (), f\<lparr>m_converted := True\<rparr>, h3)))))"

text \<open>The implicit destructor: the members in reverse order of declaration.\<close>

definition RenderedFrame_delete :: "RenderedFrame \<Rightarrow> heap \<Rightarrow> heap res" where
  "RenderedFrame_delete f h =
     bindE (FrameManager_delete (m_converted_avframe_depth f) h) (\<lambda>h1.
     bindE (FrameManager_delete (m_source_avframe_depth f) h1) (\<lambda>h2.
     bindE (FrameManager_delete (m_converted_avframe_scene f) h2) (\<lambda>h3.
     bindE (FrameManager_delete (m_source_avframe_scene f) h3) (\<lambda>h4.
     bindE (heap_free (depth_ptr f) h4) (heap_free (frame_ptr f))))))"

text \<open>\<open>render_string_to_frame\<close> on a frame's buffer.\<close>

definition draw_text ::
  "(char \<Rightarrow> glyph \<Rightarrow> int \<times> glyph) \<Rightarrow> FrameManager \<Rightarrow> RenderPosition \<Rightarrow> string \<Rightarrow>
   RenderTextContext \<times> heap \<Rightarrow> (RenderTextContext \<times> heap) res" where
  "draw_text load fm opt content = (\<lambda>(ctx, h).
     (case cells h (data0 (m_data fm)) of
        None \<Rightarrow> Inl NullPointer
      | Some surface \<Rightarrow>
          bindE (render_string_to_frame load ctx (fc_width (m_context fm)) (fc_height (m_context fm))
                   opt content surface)
            (\<lambda>(ctx', t). Inr (ctx', h\<lparr>cells := (cells h)(data0 (m_data fm) \<mapsto> t)\<rparr>))))"

section \<open>Ownership\<close>

definition manager_owned :: "FrameManager \<Rightarrow> ptr list" where
  "manager_owned fm =
     (if m_should_free_buffer fm \<and> data0 (m_data fm) \<noteq> 0 then [data0 (m_data fm)] else [])"

definition owned :: "RenderedFrame \<Rightarrow> ptr list" where
  "owned f = frame_ptr f # depth_ptr f #
     manager_owned (m_converted_avframe_scene f) @ manager_owned (m_converted_avframe_depth f)"

text \<open>A frame owns its blocks alone, they are live, and the source images alias the message.\<close>

definition frame_wf :: "heap \<Rightarrow> RenderedFrame \<Rightarrow> bool" where
  "frame_wf h f =
     (distinct (owned f) \<and> (\<forall>p \<in> set (owned f). cells h p \<noteq> None)
      \<and> \<not> m_should_free_buffer (m_source_avframe_scene f)
      \<and> \<not> m_should_free_buffer (m_source_avframe_depth f)
      \<and> m_should_free_buffer (m_converted_avframe_scene f)
      \<and> m_should_free_buffer (m_converted_avframe_depth f)
      \<and> data0 (m_data (m_source_avframe_scene f)) = frame_ptr f
      \<and> data0 (m_data (m_source_avframe_depth f)) = depth_ptr f)"

lemma heap_empty_simps [simp]: "heap_ok heap_empty" "cells heap_empty = Map.empty"
  by (simp_all add: heap_ok_def heap_empty_def)

lemma live_bounds:
  assumes "heap_ok h" "cells h p \<noteq> None"
  shows "0 < p \<and> p < fresh h"
  using assms by (metis heap_ok_def not_gr_zero not_le)

lemma heap_new_simps [simp]:
  "fst (heap_new bs h) = fresh h" "fresh (snd (heap_new bs h)) = Suc (fresh h)"
  "cells (snd (heap_new bs h)) = (cells h)(fresh h \<mapsto> bs)"
  by (simp_all add: heap_new_def)

lemma heap_ok_new [simp]: "heap_ok h \<Longrightarrow> heap_ok (snd (heap_new bs h))"
  by (simp add: heap_ok_def)

lemma heap_free_live:
  "heap_ok h \<Longrightarrow> cells h p \<noteq> None \<Longrightarrow> heap_free p h = Inr (h\<lparr>cells := (cells h)(p := None)\<rparr>)"
  using live_bounds[of h p] by (simp add: heap_free_def)

lemma heap_ok_upd_None: "heap_ok h \<Longrightarrow> heap_ok (h\<lparr>cells := (cells h)(p := None)\<rparr>)"
  by (simp add: heap_ok_def)

lemma heap_ok_overwrite:
  assumes "heap_ok h" "cells h p \<noteq> None"
  shows "heap_ok (h\<lparr>cells := (cells h)(p \<mapsto> bs)\<rparr>)"
  using assms live_bounds[OF assms] unfolding heap_ok_def by simp

lemma dom_overwrite: "m p \<noteq> None \<Longrightarrow> dom (m(p \<mapsto> bs)) = dom m"
  by auto

lemma FrameManager_delete_owned:
  assumes "heap_ok h" "\<forall>p \<in> set (manager_owned fm). cells h p \<noteq> None"
  shows "\<exists>h'. FrameManager_delete fm h = Inr h' \<and> heap_ok h' \<and> fresh h' = fresh h
    \<and> cells h' = (cells h) |` (- set (manager_owned fm))"
  using assms
  by (auto simp: FrameManager_delete_def manager_owned_def heap_free_live heap_ok_upd_None
      restrict_complement_singleton_eq heap_free_def)

lemma RenderedFrame_delete_owned:
  assumes ok: "heap_ok h" and wf: "frame_wf h f"
  shows "\<exists>h'. RenderedFrame_delete f h = Inr h' \<and> heap_ok h' \<and> fresh h' = fresh h
    \<and> cells h' = (cells h) |` (- set (owned f))"
proof -
  let ?cd = "manager_owned (m_converted_avframe_depth f)"
  let ?cs = "manager_owned (m_converted_avframe_scene f)"
  have d: "distinct (owned f)" and l: "\<forall>p \<in> set (owned f). cells h p \<noteq> None"
    using wf by (simp_all add: frame_wf_def)
  obtain h1 where h1: "FrameManager_delete (m_converted_avframe_depth f) h = Inr h1" "heap_ok h1"
    "fresh h1 = fresh h" "cells h1 = (cells h) |` (- set ?cd)"
    using FrameManager_delete_owned[OF ok, of "m_converted_avframe_depth f"] l
    by (auto simp: owned_def)
  have "\<forall>p \<in> set ?cs. cells h1 p \<noteq> None" using h1(4) d l by (auto simp: owned_def restrict_map_def)
  then obtain h3 where h3: "FrameManager_delete (m_converted_avframe_scene f) h1 = Inr h3" "heap_ok h3"
    "fresh h3 = fresh h1" "cells h3 = (cells h1) |` (- set ?cs)"
    using FrameManager_delete_owned[OF h1(2), of "m_converted_avframe_scene f"] by auto
  have live: "cells h3 (depth_ptr f) \<noteq> None" "cells h3 (frame_ptr f) \<noteq> None"
    and ne: "depth_ptr f \<noteq> frame_ptr f"
    using h1(4) h3(4) d l by (auto simp: owned_def)
  have src: "FrameManager_delete (m_source_avframe_depth f) h1 = Inr h1"
    "FrameManager_delete (m_source_avframe_scene f) h3 = Inr h3"
    using wf by (simp_all add: frame_wf_def FrameManager_delete_def)
  let ?h5 = "h3\<lparr>cells := (cells h3)(depth_ptr f := None)\<rparr>"
  have ok5: "heap_ok ?h5" by (rule heap_ok_upd_None[OF h3(2)])
  have f5: "heap_free (frame_ptr f) ?h5
      = Inr (?h5\<lparr>cells := (cells ?h5)(frame_ptr f := None)\<rparr>)"
    using live(2) ne by (intro heap_free_live[OF ok5]) simp
  have "RenderedFrame_delete f h = Inr (?h5\<lparr>cells := (cells ?h5)(frame_ptr f := None)\<rparr>)"
    by (simp add: RenderedFrame_delete_def h1(1) h3(1) src heap_free_live[OF h3(2) live(1)] f5
        del: heap.simps)
  moreover have "(cells ?h5)(frame_ptr f := None) = (cells h) |` (- set (owned f))"
    by (rule ext) (simp add: h1(4) h3(4) owned_def restrict_map_def)
  ultimately show ?thesis
    using h1(3) h3(3) heap_ok_upd_None[OF ok5, of "frame_ptr f"] by simp
qed

lemma FrameManager_new_alloc:
  assumes "heap_ok h" "FrameManager_new env c 0 h = (fm, h')"
  shows "heap_ok h' \<and> m_should_free_buffer fm \<and> m_context fm = c
    \<and> set (manager_owned fm) \<subseteq> {fresh h..<fresh h'} \<and> distinct (manager_owned fm)
    \<and> dom (cells h') = dom (cells h) \<union> set (manager_owned fm)
    \<and> (\<forall>p < fresh h. cells h' p = cells h p) \<and> fresh h \<le> fresh h'"
proof (cases "fst (image_alloc env (fc_width c) (fc_height c) (fc_pix_fmt c) kBufferSizeAlignValueBytes) < 0")
  case True
  then show ?thesis
    using assms by (auto simp: FrameManager_new_def manager_owned_def split: prod.splits)
next
  case False
  then show ?thesis
    using assms heap_ok_new[OF assms(1)]
    by (auto simp: FrameManager_new_def manager_owned_def heap_new_def heap_ok_def split: prod.splits)
qed

lemma FrameManager_new_borrow:
  assumes "buffer \<noteq> 0" "FrameManager_new env c buffer h = (fm, h')"
  shows "h' = h \<and> \<not> m_should_free_buffer fm \<and> m_context fm = c \<and> data0 (m_data fm) = buffer"
  using assms by (auto simp: FrameManager_new_def)

lemma restrict_fresh:
  fixes n :: nat
  assumes "\<forall>p < n. m' p = m p" "dom m' \<subseteq> dom m \<union> A" "dom m \<subseteq> {..<n}" "A \<subseteq> {n..}"
  shows "m' |` (- A) = m"
proof
  fix p
  show "(m' |` (- A)) p = m p"
  proof (cases "p < n")
    case True
    then have "p \<notin> A" using assms(4) by auto
    then show ?thesis using assms(1) True by simp
  next
    case False
    then have "m p = None" using assms(3) by auto
    moreover have "p \<notin> A \<Longrightarrow> m' p = None" using assms(2) calculation by auto
    ultimately show ?thesis by (simp add: restrict_map_def)
  qed
qed

lemma heap_dom: "heap_ok h \<Longrightarrow> dom (cells h) \<subseteq> {..<fresh h}"
  using live_bounds by blast

lemma RenderedFrame_new_wf:
  assumes ok: "heap_ok h" and "RenderedFrame_new env r fs fd ni nd h = (f, h')"
  shows "heap_ok h' \<and> frame_wf h' f \<and> fresh h \<le> fresh h' \<and> set (owned f) \<subseteq> {fresh h..<fresh h'}
    \<and> (\<forall>p < fresh h. cells h' p = cells h p) \<and> cells h' |` (- set (owned f)) = cells h
    \<and> \<not> m_converted f \<and> m_frame_response f = r
    \<and> m_context (m_converted_avframe_scene f) = FrameContext_of ni
    \<and> m_context (m_converted_avframe_depth f) = FrameContext_of nd
    \<and> cells h' (frame_ptr f) = Some (resp_frame r) \<and> cells h' (depth_ptr f) = Some (resp_depth r)"
proof -
  let ?h2 = "snd (heap_new (resp_depth r) (snd (heap_new (resp_frame r) h)))"
  let ?w = "cam_width (resp_camera r)" and ?t = "cam_height (resp_camera r)"
  let ?fs = "\<lparr>fc_width = ?w, fc_height = ?t, fc_pix_fmt = fs\<rparr>"
  let ?fd = "\<lparr>fc_width = ?w, fc_height = ?t, fc_pix_fmt = fd\<rparr>"
  obtain ss h3 where ss: "FrameManager_new env ?fs (fresh h) ?h2 = (ss, h3)" by fastforce
  obtain cs h4 where cs: "FrameManager_new env (FrameContext_of ni) 0 h3 = (cs, h4)" by fastforce
  obtain sd h5 where sd: "FrameManager_new env ?fd (Suc (fresh h)) h4 = (sd, h5)" by fastforce
  obtain cd h6 where cd: "FrameManager_new env (FrameContext_of nd) 0 h5 = (cd, h6)" by fastforce
  have f: "f = \<lparr>m_frame_response = r, frame_ptr = fresh h, depth_ptr = Suc (fresh h),
           m_source_avframe_scene = ss, m_converted_avframe_scene = cs, m_pix_fmt_scene = fs,
           m_source_avframe_depth = sd, m_converted_avframe_depth = cd,
           m_pix_fmt_depth = fd, m_converted = False\<rparr>" and h': "h' = h6"
    using assms(2) ss cs sd cd by (auto simp: RenderedFrame_new_def Let_def heap_new_def)
  have pos: "0 < fresh h" using ok by (simp add: heap_ok_def)
  have ok2: "heap_ok ?h2" using ok by simp
  have s: "h3 = ?h2" "\<not> m_should_free_buffer ss" "data0 (m_data ss) = fresh h"
    using FrameManager_new_borrow[OF _ ss] pos by auto
  note a = FrameManager_new_alloc[OF ok2 cs[unfolded s(1)]]
  have d: "h5 = h4" "\<not> m_should_free_buffer sd" "data0 (m_data sd) = Suc (fresh h)"
    using FrameManager_new_borrow[OF _ sd] by auto
  have ok4: "heap_ok h4" using a by blast
  note b = FrameManager_new_alloc[OF ok4 cd[unfolded d(1)]]
  have o: "owned f = fresh h # Suc (fresh h) # manager_owned cs @ manager_owned cd"
    by (simp add: f owned_def)
  have sub: "set (manager_owned cs) \<subseteq> {Suc (Suc (fresh h))..<fresh h4}"
    "set (manager_owned cd) \<subseteq> {fresh h4..<fresh h6}" and le: "Suc (Suc (fresh h)) \<le> fresh h4" "fresh h4 \<le> fresh h6"
    using a b by simp_all
  have cells: "\<forall>p < Suc (Suc (fresh h)). cells h6 p = cells ?h2 p"
    using a b le by (simp add: less_le_trans)
  have dom: "dom (cells h6) = dom (cells h) \<union> set (owned f)"
    using a b o by auto
  have dist: "distinct (owned f)" using o sub a b le by fastforce
  have rng: "set (owned f) \<subseteq> {fresh h..<fresh h6}" using o sub le by fastforce
  have "cells h6 |` (- set (owned f)) = cells h"
  proof (rule restrict_fresh)
    show "\<forall>p < fresh h. cells h6 p = cells h p" using cells by simp
    show "dom (cells h6) \<subseteq> dom (cells h) \<union> set (owned f)" using dom by simp
    show "dom (cells h) \<subseteq> {..<fresh h}" by (rule heap_dom[OF ok])
    show "set (owned f) \<subseteq> {fresh h..}" using rng by auto
  qed
  moreover have "frame_wf h6 f"
    unfolding frame_wf_def using dist dom s d a b by (auto simp: f)
  ultimately show ?thesis
    using b rng cells le a h' by (auto simp: f)
qed

text \<open>Allocating elsewhere commutes with a conversion, and a conversion changes one block.\<close>

lemma run_sws_scale_new:
  assumes "data0 (m_data src) \<noteq> fresh h" "data0 (m_data dst) \<noteq> fresh h"
  shows "run_sws_scale env src dst (snd (heap_new bs h)) = snd (heap_new bs (run_sws_scale env src dst h))"
  using assms by (auto simp: run_sws_scale_def heap_new_def fun_upd_twist split: option.splits)

lemma run_sws_scale_simps [simp]:
  "fresh (run_sws_scale env src dst h) = fresh h"
  "dom (cells (run_sws_scale env src dst h)) = dom (cells h)"
  "heap_ok h \<Longrightarrow> heap_ok (run_sws_scale env src dst h)"
  "p \<noteq> data0 (m_data dst) \<Longrightarrow> cells (run_sws_scale env src dst h) p = cells h p"
  by (auto simp: run_sws_scale_def heap_ok_def split: option.splits)

lemma SwsContextManager_new_result:
  assumes "sws_getContext env (m_context src) (m_context dst)"
    and "data0 (m_data src) < fresh h" "data0 (m_data dst) < fresh h"
  shows "SwsContextManager_new env src dst h =
    (Inr (fresh h), snd (heap_new [] (run_sws_scale env src dst h)))"
  using assms run_sws_scale_new[of src h dst env "[]"]
  by (simp add: SwsContextManager_new_def split_beta)

text \<open>What \<open>convert_frame\<close> leaves in the heap, up to blocks it allocated and released.\<close>

definition sws_both :: "av_env \<Rightarrow> RenderedFrame \<Rightarrow> heap \<Rightarrow> heap" where
  "sws_both env f h =
     run_sws_scale env (m_source_avframe_depth f) (m_converted_avframe_depth f)
       (run_sws_scale env (m_source_avframe_scene f) (m_converted_avframe_scene f) h)"

lemma manager_bound:
  assumes "heap_ok h" "\<forall>p \<in> set (manager_owned fm). cells h p \<noteq> None" "m_should_free_buffer fm"
  shows "data0 (m_data fm) < fresh h"
proof (cases "data0 (m_data fm) = 0")
  case True
  then show ?thesis using assms(1) by (simp add: heap_ok_def)
next
  case False
  then have "cells h (data0 (m_data fm)) \<noteq> None" using assms(2,3) by (simp add: manager_owned_def)
  then show ?thesis using live_bounds[OF assms(1)] by blast
qed

lemma frame_wf_bounds:
  assumes "heap_ok h" "frame_wf h f"
  shows "data0 (m_data (m_source_avframe_scene f)) < fresh h"
    "data0 (m_data (m_source_avframe_depth f)) < fresh h"
    "data0 (m_data (m_converted_avframe_scene f)) < fresh h"
    "data0 (m_data (m_converted_avframe_depth f)) < fresh h"
proof -
  have live: "\<forall>p \<in> set (owned f). cells h p \<noteq> None" using assms(2) by (simp add: frame_wf_def)
  then have "cells h (frame_ptr f) \<noteq> None" "cells h (depth_ptr f) \<noteq> None" by (simp_all add: owned_def)
  then have "frame_ptr f < fresh h" "depth_ptr f < fresh h"
    using live_bounds[OF assms(1)] by blast+
  then show "data0 (m_data (m_source_avframe_scene f)) < fresh h"
    "data0 (m_data (m_source_avframe_depth f)) < fresh h"
    using assms(2) by (simp_all add: frame_wf_def)
  show "data0 (m_data (m_converted_avframe_scene f)) < fresh h"
    "data0 (m_data (m_converted_avframe_depth f)) < fresh h"
    using assms(2) live by (auto simp: frame_wf_def owned_def intro!: manager_bound[OF assms(1)])
qed

lemma frame_wf_dom:
  "frame_wf h f \<Longrightarrow> dom (cells h') = dom (cells h) \<Longrightarrow> frame_wf h' f"
  unfolding frame_wf_def by (metis domIff)

lemma owned_converted [simp]:
  "owned (f\<lparr>m_converted := b\<rparr>) = owned f" "frame_wf h (f\<lparr>m_converted := b\<rparr>) = frame_wf h f"
  by (simp_all add: owned_def frame_wf_def)

lemma heap_free_new:
  assumes "heap_ok h" "p = fresh h"
  shows "heap_free p (snd (heap_new bs h)) = Inr (h\<lparr>fresh := Suc (fresh h)\<rparr>)"
proof -
  have "(cells h)(fresh h := None) = cells h" using assms(1) by (auto simp: heap_ok_def)
  then show ?thesis
    using assms by (simp add: heap_free_def heap_new_def heap_ok_def)
qed

lemma convert_frame_result:
  assumes ok: "heap_ok h" and wf: "frame_wf h f" and "\<not> m_converted f"
  shows "convert_frame env f h =
    (if \<not> sws_getContext env (m_context (m_source_avframe_scene f)) (m_context (m_converted_avframe_scene f))
     then (Inl (RuntimeError ''Failed to allocate sws_context.''), f, h)
     else if \<not> sws_getContext env (m_context (m_source_avframe_depth f)) (m_context (m_converted_avframe_depth f))
     then (Inl (RuntimeError ''Failed to allocate sws_context.''), f,
           (run_sws_scale env (m_source_avframe_scene f) (m_converted_avframe_scene f) h)\<lparr>fresh := Suc (fresh h)\<rparr>)
     else (Inr (), f\<lparr>m_converted := True\<rparr>, (sws_both env f h)\<lparr>fresh := Suc (Suc (fresh h))\<rparr>))"
proof -
  let ?s = "m_source_avframe_scene f" and ?cs = "m_converted_avframe_scene f"
  let ?d = "m_source_avframe_depth f" and ?cd = "m_converted_avframe_depth f"
  let ?h1 = "run_sws_scale env ?s ?cs h"
  note lt = frame_wf_bounds[OF ok wf]
  have ok1: "heap_ok ?h1" using ok by simp
  show ?thesis
  proof (cases "sws_getContext env (m_context ?s) (m_context ?cs)")
    case False
    then show ?thesis using assms(3) by (simp add: convert_frame_def SwsContextManager_new_def)
  next
    case one: True
    note n1 = SwsContextManager_new_result[OF one lt(1,3)]
    show ?thesis
    proof (cases "sws_getContext env (m_context ?d) (m_context ?cd)")
      case False
      then have "SwsContextManager_new env ?d ?cd (snd (heap_new [] ?h1))
          = (Inl (RuntimeError ''Failed to allocate sws_context.''), snd (heap_new [] ?h1))"
        by (simp add: SwsContextManager_new_def)
      then show ?thesis
        using assms(3) one False
        by (simp add: convert_frame_def n1 SwsContextManager_delete_def heap_free_new[OF ok1])
    next
      case two: True
      let ?h2 = "sws_both env f h"
      have ok2: "heap_ok ?h2" using ok by (simp add: sws_both_def)
      have n2: "SwsContextManager_new env ?d ?cd (snd (heap_new [] ?h1))
          = (Inr (Suc (fresh h)), snd (heap_new [] (snd (heap_new [] ?h2))))"
        using two lt run_sws_scale_new[of ?d ?h1 ?cd env "[]"]
        by (subst SwsContextManager_new_result) (simp_all add: sws_both_def)
      have f2: "heap_free (Suc (fresh h)) (snd (heap_new [] (snd (heap_new [] ?h2))))
          = Inr ((snd (heap_new [] ?h2))\<lparr>fresh := Suc (Suc (fresh h))\<rparr>)"
        using heap_free_new[OF heap_ok_new[OF ok2, of "[]"], of "Suc (fresh h)"]
        by (simp add: sws_both_def)
      have "(cells ?h2)(fresh h := None) = cells ?h2" using ok2 by (auto simp: heap_ok_def sws_both_def)
      then have f1: "heap_free (fresh h) ((snd (heap_new [] ?h2))\<lparr>fresh := Suc (Suc (fresh h))\<rparr>)
          = Inr (?h2\<lparr>fresh := Suc (Suc (fresh h))\<rparr>)"
        using ok by (simp add: heap_free_def heap_new_def heap_ok_def sws_both_def)
      show ?thesis
        using assms(3) one two
        by (simp add: convert_frame_def n1 n2 SwsContextManager_delete_def f2 f1)
    qed
  qed
qed

lemma sws_both_simps [simp]:
  "fresh (sws_both env f h) = fresh h" "dom (cells (sws_both env f h)) = dom (cells h)"
  "heap_ok h \<Longrightarrow> heap_ok (sws_both env f h)"
  by (simp_all add: sws_both_def)

lemma heap_ok_fresh: "heap_ok h \<Longrightarrow> fresh h \<le> n \<Longrightarrow> heap_ok (h\<lparr>fresh := n\<rparr>)"
  by (auto simp: heap_ok_def)

lemma restrict_run_sws_scale:
  assumes "set (manager_owned dst) \<subseteq> A" "m_should_free_buffer dst" "heap_ok h"
  shows "cells (run_sws_scale env src dst h) |` (- A) = cells h |` (- A)"
proof
  fix p
  show "(cells (run_sws_scale env src dst h) |` (- A)) p = (cells h |` (- A)) p"
  proof (cases "data0 (m_data dst) = 0")
    case True
    then have "run_sws_scale env src dst h = h"
      using assms(3) by (simp add: run_sws_scale_def heap_ok_def split: option.split)
    then show ?thesis by simp
  next
    case False
    then have "data0 (m_data dst) \<in> A" using assms(1,2) by (simp add: manager_owned_def)
    then show ?thesis by (cases "p = data0 (m_data dst)") (simp_all add: restrict_map_def)
  qed
qed

lemma convert_frame_keeps:
  assumes ok: "heap_ok h" and wf: "frame_wf h f" and "convert_frame env f h = (r, f', h')"
  shows "heap_ok h' \<and> frame_wf h' f' \<and> owned f' = owned f \<and> dom (cells h') = dom (cells h)
    \<and> cells h' |` (- set (owned f)) = cells h |` (- set (owned f))
    \<and> m_frame_response f' = m_frame_response f
    \<and> (case r of Inr _ \<Rightarrow> \<not> m_converted f \<and> m_converted f' | Inl e \<Rightarrow> f' = f \<and> (\<exists>msg. e = RuntimeError msg))"
proof (cases "m_converted f")
  case True
  then show ?thesis using assms by (auto simp: convert_frame_def)
next
  case False
  have m: "set (manager_owned (m_converted_avframe_scene f)) \<subseteq> set (owned f)"
    "set (manager_owned (m_converted_avframe_depth f)) \<subseteq> set (owned f)"
    "m_should_free_buffer (m_converted_avframe_scene f)" "m_should_free_buffer (m_converted_avframe_depth f)"
    using wf by (auto simp: owned_def frame_wf_def)
  have keep: "frame_wf (h0\<lparr>fresh := n\<rparr>) f" if "dom (cells h0) = dom (cells h)" for h0 n
    using frame_wf_dom[OF wf] that by simp
  let ?h1 = "run_sws_scale env (m_source_avframe_scene f) (m_converted_avframe_scene f) h"
  have ok1: "heap_ok ?h1" using ok by simp
  consider (none) "r = Inl (RuntimeError ''Failed to allocate sws_context.'')" "f' = f" "h' = h"
    | (one) "r = Inl (RuntimeError ''Failed to allocate sws_context.'')" "f' = f"
        "h' = ?h1\<lparr>fresh := Suc (fresh h)\<rparr>"
    | (both) "r = Inr ()" "f' = f\<lparr>m_converted := True\<rparr>"
        "h' = (sws_both env f h)\<lparr>fresh := Suc (Suc (fresh h))\<rparr>"
    using assms(3) by (auto simp: convert_frame_result[OF ok wf False] split: if_splits)
  then show ?thesis
  proof cases
    case none
    then show ?thesis using ok wf by simp
  next
    case one
    have "cells ?h1 |` (- set (owned f)) = cells h |` (- set (owned f))"
      using m ok by (simp add: restrict_run_sws_scale)
    then show ?thesis
      using one ok1 keep[of ?h1 "Suc (fresh h)"] heap_ok_fresh[OF ok1, of "Suc (fresh h)"]
      by simp
  next
    case both
    have "cells (sws_both env f h) |` (- set (owned f)) = cells h |` (- set (owned f))"
      using m ok ok1 by (simp add: sws_both_def restrict_run_sws_scale)
    then show ?thesis
      using both False ok keep[of "sws_both env f h" "Suc (Suc (fresh h))"]
        heap_ok_fresh[OF sws_both_simps(3)[OF ok, of env f], of "Suc (Suc (fresh h))"]
      by simp
  qed
qed

section \<open>Properties\<close>

text \<open>
  C24. The life of a rendered frame gives back all its memory: building it from a response,
  converting it (whether or not a conversion context can be had, and whether or not the image
  buffers could be allocated) and destroying it frees no block twice and leaves every block of
  the heap as it was.
\<close>

theorem rendered_frame_lifecycle:
  assumes "heap_ok h"
    and "RenderedFrame_new env resp fmt_scene fmt_depth info_scene info_depth h = (f, h1)"
    and "convert_frame env f h1 = (r, f', h2)"
  shows "\<exists>h3. RenderedFrame_delete f' h2 = Inr h3 \<and> cells h3 = cells h \<and> heap_ok h3
    \<and> (r = Inr () \<longleftrightarrow> m_converted f')"
proof -
  note n = RenderedFrame_new_wf[OF assms(1,2)]
  have k: "heap_ok h2" "frame_wf h2 f'" "owned f' = owned f"
    "cells h2 |` (- set (owned f)) = cells h1 |` (- set (owned f))"
    and r: "r = Inr () \<longleftrightarrow> m_converted f'"
    using convert_frame_keeps[OF _ _ assms(3)] n by (auto split: sum.splits)
  then show ?thesis using RenderedFrame_delete_owned[OF k(1,2)] n by auto
qed

definition demo_av :: av_env where
  "demo_av = \<lparr>image_alloc = (\<lambda>w h fmt al. (6, [4, 2, 2, 0, 0, 0, 0, 0], [0, 0, 0, 0, 0, 0])),
     image_get_linesize = (\<lambda>fmt w plane. if plane = 0 then 6 else 0),
     nb_components = (\<lambda>fmt. 3), frame_alloc = True,
     image_fill_pointers = (\<lambda>fmt h ls. 6), sws_getContext = (\<lambda>a b. True),
     sws_scale = (\<lambda>sc sl dc dl sb db. take 6 sb), av_strerror = (\<lambda>e. None)\<rparr>"

definition demo_response :: FrameResponse where
  "demo_response = \<lparr>resp_index = 7, resp_camera = Camera_default\<lparr>cam_width := 2, cam_height := 2\<rparr>,
     resp_is_left = True, resp_frame = [1, 2, 3, 4, 5, 6, 7, 8, 9, 10, 11, 12], resp_depth = [9, 9, 9, 9]\<rparr>"

definition demo_frame :: "RenderedFrame \<times> heap" where
  "demo_frame = RenderedFrame_new demo_av demo_response AV_PIX_FMT_RGB24 AV_PIX_FMT_GRAY8
     demo_info demo_info heap_empty"

theorem rendered_frame_lifecycle_witness:
  "\<exists>h3. RenderedFrame_delete (fst (snd (convert_frame demo_av (fst demo_frame) (snd demo_frame))))
      (snd (snd (convert_frame demo_av (fst demo_frame) (snd demo_frame)))) = Inr h3
    \<and> cells h3 = Map.empty"
  using rendered_frame_lifecycle[of heap_empty demo_av demo_response AV_PIX_FMT_RGB24 AV_PIX_FMT_GRAY8
      demo_info demo_info "fst demo_frame" "snd demo_frame"
      "fst (convert_frame demo_av (fst demo_frame) (snd demo_frame))"
      "fst (snd (convert_frame demo_av (fst demo_frame) (snd demo_frame)))"
      "snd (snd (convert_frame demo_av (fst demo_frame) (snd demo_frame)))"]
  by (auto simp: demo_frame_def)

text \<open>
  A successful conversion stores in each encoder image what libswscale computes from the
  source image and the frame's two geometries, leaves the source bytes as they are, and can
  be had once: a second call throws and changes nothing.
\<close>

lemma convert_frame_effect:
  assumes "heap_ok h" "frame_wf h f" and "convert_frame env f h = (Inr (), f', h')"
    and "cells h (frame_ptr f) = Some scene" "cells h (depth_ptr f) = Some depth"
    and "cells h (data0 (m_data (m_converted_avframe_scene f))) = Some buf_scene"
    and "cells h (data0 (m_data (m_converted_avframe_depth f))) = Some buf_depth"
  shows "cells h' (data0 (m_data (m_converted_avframe_scene f'))) =
      Some (sws_scale env (m_context (m_source_avframe_scene f)) (linesize (m_data (m_source_avframe_scene f)))
        (m_context (m_converted_avframe_scene f)) (linesize (m_data (m_converted_avframe_scene f))) scene buf_scene)
    \<and> cells h' (data0 (m_data (m_converted_avframe_depth f'))) =
      Some (sws_scale env (m_context (m_source_avframe_depth f)) (linesize (m_data (m_source_avframe_depth f)))
        (m_context (m_converted_avframe_depth f)) (linesize (m_data (m_converted_avframe_depth f))) depth buf_depth)
    \<and> cells h' (frame_ptr f') = Some scene \<and> cells h' (depth_ptr f') = Some depth
    \<and> convert_frame env f' h' =
        (Inl (RuntimeError ''Tried to convert a converted RenderedFrame.''), f', h')"
proof -
  let ?cs = "m_converted_avframe_scene f" and ?cd = "m_converted_avframe_depth f"
  have nc: "\<not> m_converted f" using assms(3) by (auto simp: convert_frame_def)
  have res: "f' = f\<lparr>m_converted := True\<rparr>" "cells h' = cells (sws_both env f h)"
    using assms(3) by (auto simp: convert_frame_result[OF assms(1,2) nc] split: if_splits)
  have pos: "data0 (m_data ?cs) \<noteq> 0" "data0 (m_data ?cd) \<noteq> 0"
    using live_bounds[OF assms(1)] assms(6,7) by (metis less_irrefl option.distinct(1))+
  have mo: "manager_owned ?cs = [data0 (m_data ?cs)]" "manager_owned ?cd = [data0 (m_data ?cd)]"
    using assms(2) pos by (simp_all add: frame_wf_def manager_owned_def)
  have "distinct [frame_ptr f, depth_ptr f, data0 (m_data ?cs), data0 (m_data ?cd)]"
    and src: "data0 (m_data (m_source_avframe_scene f)) = frame_ptr f"
      "data0 (m_data (m_source_avframe_depth f)) = depth_ptr f"
    using assms(2) by (simp_all add: frame_wf_def owned_def mo)
  then show ?thesis
    using assms(4-7) unfolding res(1) by (simp add: res(2) sws_both_def run_sws_scale_def src convert_frame_def)
qed

text \<open>
  The same image by image: each conversion that has both its buffers stores what libswscale makes of
  the source bytes there; the source bytes stay.
\<close>

definition scaled :: "av_env \<Rightarrow> FrameManager \<Rightarrow> FrameManager \<Rightarrow> u8 list \<Rightarrow> u8 list \<Rightarrow> u8 list" where
  "scaled env src dst = sws_scale env (m_context src) (linesize (m_data src)) (m_context dst) (linesize (m_data dst))"

lemma convert_frame_images:
  assumes ok: "heap_ok h" and wf: "frame_wf h f" and c: "convert_frame env f h = (Inr (), f', h')"
  shows "f' = f\<lparr>m_converted := True\<rparr> \<and> cells h' (frame_ptr f) = cells h (frame_ptr f) \<and> cells h' (depth_ptr f) = cells h (depth_ptr f)
    \<and> (\<forall>sb db. cells h (frame_ptr f) = Some sb \<longrightarrow> cells h (data0 (m_data (m_converted_avframe_scene f))) = Some db \<longrightarrow>
        cells h' (data0 (m_data (m_converted_avframe_scene f))) =
          Some (scaled env (m_source_avframe_scene f) (m_converted_avframe_scene f) sb db))
    \<and> (\<forall>sb db. cells h (depth_ptr f) = Some sb \<longrightarrow> cells h (data0 (m_data (m_converted_avframe_depth f))) = Some db \<longrightarrow>
        cells h' (data0 (m_data (m_converted_avframe_depth f))) =
          Some (scaled env (m_source_avframe_depth f) (m_converted_avframe_depth f) sb db))"
proof -
  let ?cs = "m_converted_avframe_scene f" and ?cd = "m_converted_avframe_depth f"
  have nc: "\<not> m_converted f" using c by (auto simp: convert_frame_def)
  have res: "f' = f\<lparr>m_converted := True\<rparr>" "cells h' = cells (sws_both env f h)"
    using c by (auto simp: convert_frame_result[OF ok wf nc] split: if_splits)
  have zero: "cells h 0 = None" using live_bounds[OF ok, of 0] by blast
  have src: "data0 (m_data (m_source_avframe_scene f)) = frame_ptr f"
      "data0 (m_data (m_source_avframe_depth f)) = depth_ptr f"
    and live: "cells h (frame_ptr f) \<noteq> None" "cells h (depth_ptr f) \<noteq> None"
    using wf by (simp_all add: frame_wf_def owned_def)
  then have "frame_ptr f \<noteq> 0" "depth_ptr f \<noteq> 0" using zero by metis+
  then have apart: "frame_ptr f \<noteq> data0 (m_data ?cs)" "frame_ptr f \<noteq> data0 (m_data ?cd)" "depth_ptr f \<noteq> data0 (m_data ?cs)"
    "depth_ptr f \<noteq> data0 (m_data ?cd)" "data0 (m_data ?cs) = data0 (m_data ?cd) \<longrightarrow> data0 (m_data ?cs) = 0"
    using wf by (auto simp: frame_wf_def owned_def manager_owned_def split: if_splits)
  show ?thesis
    unfolding res sws_both_def using apart zero live
    by (auto simp: run_sws_scale_def scaled_def src split: option.splits)
qed

lemma wrapper_life:
  assumes "heap_ok h" and "AVFrameWrapper_new env fm h = (Inr w, h1)"
  shows "av_data0 w = data0 (m_data fm)
    \<and> (\<exists>h2 img bytes. AVFrameWrapper_delete w h1 = Inr h2 \<and> heap_ok h2
        \<and> cells h img = None \<and> cells h2 = (cells h)(img \<mapsto> bytes) \<and> img \<noteq> 0)"
proof -
  obtain ret ls bytes where i: "image_alloc env (fc_width (m_context fm)) (fc_height (m_context fm))
      (fc_pix_fmt (m_context fm)) kBufferSizeAlignValueBytes = (ret, ls, bytes)"
    by (metis prod_cases3)
  have w: "m_avframe w = fresh h" "av_data0 w = data0 (m_data fm)"
    and h1: "h1 = snd (heap_new bytes (snd (heap_new [] h)))"
    using assms(2) by (auto simp: AVFrameWrapper_new_def i Let_def heap_new_def split: if_splits)
  have free: "(cells h)(fresh h := None) = cells h" "cells h (Suc (fresh h)) = None" "fresh h \<noteq> 0"
    using assms(1) by (auto simp: heap_ok_def)
  let ?h2 = "h1\<lparr>cells := (cells h)(Suc (fresh h) \<mapsto> bytes)\<rparr>"
  have "((cells h)(fresh h \<mapsto> [], Suc (fresh h) \<mapsto> bytes))(fresh h := None)
      = (cells h)(Suc (fresh h) \<mapsto> bytes)" using free(1) by (simp add: fun_upd_twist)
  then have "AVFrameWrapper_delete w h1 = Inr ?h2"
    using free(3) by (simp add: AVFrameWrapper_delete_def av_frame_unref_def heap_free_def w h1 heap_new_def)
  moreover have "heap_ok ?h2" using assms(1) by (simp add: h1 heap_ok_def)
  ultimately show ?thesis
    using w free(2) by (intro conjI exI[of _ ?h2] exI[of _ "Suc (fresh h)"] exI[of _ bytes]) simp_all
qed

text \<open>
  A failed allocation goes unreported: \<open>FrameManager\<close> is built all the same, with a null
  image and nothing allocated, and drawing on such a frame uses the null pointer.
\<close>

lemma frame_alloc_unreported:
  assumes "fst (image_alloc env (fc_width c) (fc_height c) (fc_pix_fmt c) kBufferSizeAlignValueBytes) < 0"
    and "heap_ok h"
  shows "\<exists>fm. FrameManager_new env c 0 h = (fm, h) \<and> data0 (m_data fm) = 0 \<and> m_context fm = c
    \<and> FrameManager_delete fm h = Inr h \<and> draw_text load fm opt content (ctx, h) = Inl NullPointer"
  using assms
  by (auto simp: FrameManager_new_def FrameManager_delete_def heap_free_def draw_text_def heap_ok_def
      split: prod.splits)

end
