(* ===== verification/Monitor.thy ===== *)
theory Monitor
  imports Prelude
begin

text \<open>
  A monitor: data behind one \<open>std::mutex\<close>, with callers that take the lock, wait on a
  condition variable with \<open>wait_for(lock, timeout, pred)\<close>, run a body once the predicate
  holds, notify another condition variable and release the lock, or give up with
  \<open>LockTimeout\<close>. \<open>FrameQueue\<close> and \<open>FrameMap\<close> are both written in this shape, so the
  interleaving semantics and its consequences (mutual exclusion, atomicity of every
  call, no lost wake-up) are established here once and interpreted there.
\<close>

section \<open>Callers\<close>

text \<open>
  Where a thread is inside a call. \<open>Testing op b\<close> has taken the mutex; \<open>b\<close> says that the
  last wait reported the time-out, so that a false predicate now ends the call (\<open>wait_for\<close>
  returns \<open>pred()\<close>). \<open>Loaded op b d\<close> has read the shared data, as \<open>d\<close>, and goes by what it has
  read: it evaluates the predicate on \<open>d\<close> and writes back what the body makes of \<open>d\<close>. Other threads
  can act between the reading and the writing; that they do not touch the data is a consequence
  of the locking, not of the step relation. \<open>Relocking op b\<close> has left the condition variable
  (notified, spuriously, or by time-out \<open>b\<close>) and has to reacquire the mutex first.
\<close>

datatype ('d, 'op, 'r) phase =
    Idle
  | Locking 'op
  | Testing 'op bool
  | Loaded 'op bool 'd
  | Sleeping 'op
  | Relocking 'op bool
  | Returned 'op "'r res"

datatype wake = WakeOne | WakeAll

text \<open>
  \<open>history\<close> is auxiliary: the completed calls with their results, in the order in which
  they completed. No rule reads it.
\<close>

record ('d, 'op, 'r) monitor =
  shared :: 'd
  owner :: "nat option"
  phases :: "nat \<Rightarrow> ('d, 'op, 'r) phase"
  history :: "('op \<times> 'r res) list"

definition monitor_init :: "'d \<Rightarrow> ('d, 'op, 'r) monitor" where
  "monitor_init d = \<lparr>shared = d, owner = None, phases = (\<lambda>_. Idle), history = []\<rparr>"

text \<open>
  \<open>notify_one\<close> moves one sleeper of the condition variable, any one, or does nothing when
  nobody sleeps there; \<open>notify_all\<close> moves every sleeper. \<open>S op\<close> says that a call \<open>op\<close> sleeps
  on the notified condition variable.
\<close>

inductive notify ::
  "wake \<Rightarrow> ('op \<Rightarrow> bool) \<Rightarrow> (nat \<Rightarrow> ('d, 'op, 'r) phase) \<Rightarrow> (nat \<Rightarrow> ('d, 'op, 'r) phase) \<Rightarrow> bool" where
  notify_one: "ph u = Sleeping op \<Longrightarrow> S op \<Longrightarrow>
    notify WakeOne S ph (ph(u := Relocking op False))"
| notify_none: "(\<And>u op. ph u = Sleeping op \<Longrightarrow> \<not> S op) \<Longrightarrow> notify WakeOne S ph ph"
| notify_all: "notify WakeAll S ph
    (\<lambda>u. case ph u of Sleeping op \<Rightarrow> if S op then Relocking op False else Sleeping op
         | p \<Rightarrow> p)"

section \<open>The interleaving semantics\<close>

text \<open>
  \<open>guard\<close> is the predicate of \<open>wait_for\<close>, \<open>body\<close> the branch taken when it holds, \<open>wakes\<close> how
  the call notifies, \<open>wakeset op\<close> which calls sleep on the condition variable it notifies.
\<close>

inductive mon_step ::
  "('op \<Rightarrow> 'd \<Rightarrow> bool) \<Rightarrow> ('op \<Rightarrow> 'd \<Rightarrow> 'd \<times> 'r) \<Rightarrow> ('op \<Rightarrow> wake) \<Rightarrow> ('op \<Rightarrow> 'op \<Rightarrow> bool)
    \<Rightarrow> ('d, 'op, 'r) monitor \<Rightarrow> ('d, 'op, 'r) monitor \<Rightarrow> bool"
  for guard body wakes wakeset where
  call: "phases m t = Idle \<or> (\<exists>o' r. phases m t = Returned o' r) \<Longrightarrow>
    mon_step guard body wakes wakeset m (m\<lparr>phases := (phases m)(t := Locking op)\<rparr>)"
| lock: "phases m t = Locking op \<Longrightarrow> owner m = None \<Longrightarrow>
    mon_step guard body wakes wakeset m
      (m\<lparr>phases := (phases m)(t := Testing op False), owner := Some t\<rparr>)"
| load: "phases m t = Testing op b \<Longrightarrow>
    mon_step guard body wakes wakeset m (m\<lparr>phases := (phases m)(t := Loaded op b (shared m))\<rparr>)"
| pass: "phases m t = Loaded op b d \<Longrightarrow> guard op d \<Longrightarrow> body op d = (d', r) \<Longrightarrow>
    notify (wakes op) (wakeset op) (phases m) ph \<Longrightarrow>
    mon_step guard body wakes wakeset m
      (m\<lparr>shared := d', owner := None, phases := ph(t := Returned op (Inr r)),
         history := history m @ [(op, Inr r)]\<rparr>)"
| sleep: "phases m t = Loaded op False d \<Longrightarrow> \<not> guard op d \<Longrightarrow>
    mon_step guard body wakes wakeset m
      (m\<lparr>owner := None, phases := (phases m)(t := Sleeping op)\<rparr>)"
| expire: "phases m t = Loaded op True d \<Longrightarrow> \<not> guard op d \<Longrightarrow>
    mon_step guard body wakes wakeset m
      (m\<lparr>owner := None, phases := (phases m)(t := Returned op (Inl LockTimeout)),
         history := history m @ [(op, Inl LockTimeout)]\<rparr>)"
| wakeup: "phases m t = Sleeping op \<Longrightarrow>
    mon_step guard body wakes wakeset m
      (m\<lparr>phases := (phases m)(t := Relocking op timed_out)\<rparr>)"
| relock: "phases m t = Relocking op b \<Longrightarrow> owner m = None \<Longrightarrow>
    mon_step guard body wakes wakeset m
      (m\<lparr>phases := (phases m)(t := Testing op b), owner := Some t\<rparr>)"

inductive_cases notifyE: "notify k S ph ph'"

text \<open>What one call does when nothing interleaves: the atomic object.\<close>

definition exec_atomic ::
  "('op \<Rightarrow> 'd \<Rightarrow> bool) \<Rightarrow> ('op \<Rightarrow> 'd \<Rightarrow> 'd \<times> 'r) \<Rightarrow> 'op \<Rightarrow> 'd \<Rightarrow> 'd \<times> 'r res" where
  "exec_atomic guard body op d =
     (if guard op d then (fst (body op d), Inr (snd (body op d))) else (d, Inl LockTimeout))"

fun run_atomic ::
  "('op \<Rightarrow> 'd \<Rightarrow> bool) \<Rightarrow> ('op \<Rightarrow> 'd \<Rightarrow> 'd \<times> 'r) \<Rightarrow> 'op list \<Rightarrow> 'd \<Rightarrow> 'd \<times> 'r res list" where
  "run_atomic guard body [] d = (d, [])"
| "run_atomic guard body (op # ops) d =
     (let (d', r) = exec_atomic guard body op d;
          (d'', rs) = run_atomic guard body ops d'
      in (d'', r # rs))"

lemma run_atomic_snoc:
  "run_atomic guard body (ops @ [op]) d =
     (let (d', rs) = run_atomic guard body ops d;
          (d'', r) = exec_atomic guard body op d'
      in (d'', rs @ [r]))"
  by (induction ops arbitrary: d) (auto simp: Let_def split: prod.splits)

lemma zip_history: "zip (map fst h) (map snd h) = h"
  by (induction h) auto

text \<open>
  A specification of the calls one at a time: \<open>T s op r s'\<close> says that the call \<open>op\<close> on the abstract
  state \<open>s\<close> answers \<open>r\<close> and leaves \<open>s'\<close>. \<open>serial T s h s'\<close>: the calls of \<open>h\<close>, one after the
  other from \<open>s\<close>, give the results of \<open>h\<close> and leave \<open>s'\<close>.
\<close>

inductive serial ::
  "('s \<Rightarrow> 'op \<Rightarrow> 'r res \<Rightarrow> 's \<Rightarrow> bool) \<Rightarrow> 's \<Rightarrow> ('op \<times> 'r res) list \<Rightarrow> 's \<Rightarrow> bool"
  for T where
  serial_none: "serial T s [] s"
| serial_call: "T s op r s' \<Longrightarrow> serial T s' h s'' \<Longrightarrow> serial T s ((op, r) # h) s''"

lemma serial_append: "serial T s h s' \<Longrightarrow> T s' op r s'' \<Longrightarrow> serial T s (h @ [(op, r)]) s''"
  by (induction rule: serial.induct) (auto intro: serial.intros)

section \<open>Consequences for every monitor\<close>

text \<open>Inside the critical section.\<close>

definition testing :: "('d, 'op, 'r) phase \<Rightarrow> bool" where
  "testing p = (case p of Testing _ _ \<Rightarrow> True | Loaded _ _ _ \<Rightarrow> True | _ \<Rightarrow> False)"

lemma testing_simps [simp]:
  "testing (Testing op b)" "testing (Loaded op b d)" "\<not> testing Idle" "\<not> testing (Locking op)"
  "\<not> testing (Sleeping op)" "\<not> testing (Relocking op b)" "\<not> testing (Returned op r)"
  by (simp_all add: testing_def)

lemma testing_iff: "testing p \<longleftrightarrow> (\<exists>op b. p = Testing op b \<or> (\<exists>d. p = Loaded op b d))"
  by (cases p) auto

text \<open>A notification only turns sleepers into threads that reacquire the mutex.\<close>

lemma notify_cases_at:
  assumes "notify k S ph ph'"
  shows "ph' u = ph u \<or> (\<exists>op. ph u = Sleeping op \<and> S op \<and> ph' u = Relocking op False)"
  using assms by (cases rule: notify.cases) (auto split: phase.splits)

lemma notify_testing: "notify k S ph ph' \<Longrightarrow> testing (ph' u) = testing (ph u)"
  using notify_cases_at[of k S ph ph' u] by (auto simp: testing_def)

lemma notify_not_sleeping: "notify k S ph ph' \<Longrightarrow> ph' u = Sleeping op \<Longrightarrow> ph u = Sleeping op"
  using notify_cases_at[of k S ph ph' u] by auto

lemma notify_all_none_left:
  "notify WakeAll S ph ph' \<Longrightarrow> S op \<Longrightarrow> ph' u \<noteq> Sleeping op"
  by (auto elim!: notifyE split: phase.splits if_splits)

definition mutex_ok :: "('d, 'op, 'r) monitor \<Rightarrow> bool" where
  "mutex_ok m = (\<forall>t. testing (phases m t) \<longleftrightarrow> owner m = Some t)"

lemma mutex_ok_owner: "mutex_ok m \<Longrightarrow> testing (phases m t) \<Longrightarrow> owner m = Some t"
  by (simp add: mutex_ok_def)

lemma mutex_ok_other: "mutex_ok m \<Longrightarrow> owner m \<noteq> Some t \<Longrightarrow> \<not> testing (phases m t)"
  by (simp add: mutex_ok_def)

text \<open>Leaving, entering and staying outside the critical section keep the agreement.\<close>

lemma mutex_ok_leave:
  assumes "mutex_ok m" and "testing (phases m t)" and "\<not> testing p"
    and "\<And>u. testing (ph u) = testing (phases m u)"
  shows "mutex_ok (m\<lparr>shared := d, owner := None, phases := ph(t := p), history := h\<rparr>)"
  using assms mutex_ok_owner[OF assms(1,2)] by (auto simp: mutex_ok_def)

lemma mutex_ok_enter:
  assumes "mutex_ok m" and "owner m = None" and "testing p"
  shows "mutex_ok (m\<lparr>phases := (phases m)(t := p), owner := Some t\<rparr>)"
  using assms by (auto simp: mutex_ok_def)

lemma mutex_ok_outside:
  assumes "mutex_ok m" and "\<not> testing (phases m t)" and "\<not> testing p"
  shows "mutex_ok (m\<lparr>phases := (phases m)(t := p)\<rparr>)"
  using assms by (auto simp: mutex_ok_def)

lemma mutex_ok_inside:
  assumes "mutex_ok m" and "testing (phases m t)" and "testing p"
  shows "mutex_ok (m\<lparr>phases := (phases m)(t := p)\<rparr>)"
  using assms by (auto simp: mutex_ok_def)

lemma mutex_ok_step:
  assumes "mon_step guard body wakes wakeset m m'" and "mutex_ok m"
  shows "mutex_ok m'"
  using assms
proof (induction rule: mon_step.induct)
  case (call m t op)
  then have "\<not> testing (phases m t)" by auto
  with call.prems show ?case by (intro mutex_ok_outside) simp_all
next
  case (lock m t op)
  then show ?case by (intro mutex_ok_enter) simp_all
next
  case (load m t op b)
  then show ?case by (intro mutex_ok_inside) simp_all
next
  case (pass m t op b d d' r ph)
  then show ?case by (intro mutex_ok_leave) (simp_all add: notify_testing)
next
  case (sleep m t op d)
  then show ?case
    using mutex_ok_leave[where m = m and ph = "phases m" and d = "shared m" and h = "history m"]
    by simp
next
  case (expire m t op d)
  then show ?case
    using mutex_ok_leave[where m = m and ph = "phases m" and d = "shared m"] by simp
next
  case (wakeup m t op timed_out)
  then show ?case by (intro mutex_ok_outside) simp_all
next
  case (relock m t op b)
  then show ?case by (intro mutex_ok_enter) simp_all
qed

text \<open>What a thread has read is still there when it writes: this is where the mutex is needed.\<close>

definition loaded_ok :: "('d, 'op, 'r) monitor \<Rightarrow> bool" where
  "loaded_ok m = (\<forall>t op b d. phases m t = Loaded op b d \<longrightarrow> d = shared m)"

lemma loaded_okD: "loaded_ok m \<Longrightarrow> phases m t = Loaded op b d \<Longrightarrow> d = shared m"
  by (simp add: loaded_ok_def)

lemma loaded_ok_step:
  assumes "mon_step guard body wakes wakeset m m'" and "mutex_ok m" and "loaded_ok m"
  shows "loaded_ok m'"
  using assms
proof (induction rule: mon_step.induct)
  case (pass m t op b d d' r ph)
  have "\<not> testing (phases m u)" if "u \<noteq> t" for u
    using pass.prems(1) pass.hyps(1) that mutex_ok_owner[of m] by (metis option.inject testing_simps(2))
  then have "ph u \<noteq> Loaded op' b' e" if "u \<noteq> t" for u op' b' e
    using notify_testing[OF pass.hyps(4), of u] that by (metis testing_simps(2))
  then show ?case by (auto simp: loaded_ok_def)
qed (auto simp: loaded_ok_def, metis+)

lemma loaded_ok_init: "loaded_ok (monitor_init d)"
  by (simp add: loaded_ok_def monitor_init_def)

definition atomic_from ::
  "('op \<Rightarrow> 'd \<Rightarrow> bool) \<Rightarrow> ('op \<Rightarrow> 'd \<Rightarrow> 'd \<times> 'r) \<Rightarrow> 'd \<Rightarrow> ('d, 'op, 'r) monitor \<Rightarrow> bool" where
  "atomic_from guard body d0 m =
     (run_atomic guard body (map fst (history m)) d0 = (shared m, map snd (history m)))"

lemma atomic_from_step:
  assumes "mon_step guard body wakes wakeset m m'" and "loaded_ok m" and "atomic_from guard body d0 m"
  shows "atomic_from guard body d0 m'"
  using assms
  by (induction rule: mon_step.induct)
     (auto simp: atomic_from_def run_atomic_snoc exec_atomic_def dest: loaded_okD)

text \<open>Who has returned has its result in the history.\<close>

definition returned_ok :: "('d, 'op, 'r) monitor \<Rightarrow> bool" where
  "returned_ok m = (\<forall>t op r. phases m t = Returned op r \<longrightarrow> (op, r) \<in> set (history m))"

lemma notify_returned: "notify k S ph ph' \<Longrightarrow> ph' u = Returned op r \<Longrightarrow> ph u = Returned op r"
  using notify_cases_at[of k S ph ph' u] by auto

lemma returned_ok_step:
  "mon_step guard body wakes wakeset m m' \<Longrightarrow> returned_ok m \<Longrightarrow> returned_ok m'"
  by (induction rule: mon_step.induct) (auto simp: returned_ok_def dest: notify_returned)

lemma returned_ok_init: "returned_ok (monitor_init d)"
  by (simp add: returned_ok_def monitor_init_def)

lemma mutex_ok_init: "mutex_ok (monitor_init d)"
  by (simp add: mutex_ok_def monitor_init_def)

lemma atomic_from_init: "atomic_from guard body d (monitor_init d)"
  by (simp add: atomic_from_def monitor_init_def)

text \<open>A call that nobody disturbs runs from entry to return.\<close>

lemma notify_no_sleepers: "(\<And>u op. ph u \<noteq> Sleeping op) \<Longrightarrow> notify k S ph ph"
proof (cases k)
  case WakeOne
  assume "\<And>u op. ph u \<noteq> Sleeping op"
  then show ?thesis unfolding WakeOne by (intro notify.notify_none) blast
next
  case WakeAll
  assume "\<And>u op. ph u \<noteq> Sleeping op"
  then have "(\<lambda>u. case ph u of Sleeping op \<Rightarrow> if S op then Relocking op False else Sleeping op
      | p \<Rightarrow> p) = ph"
    by (auto split: phase.splits)
  then show ?thesis unfolding WakeAll using notify.notify_all[of S ph] by simp
qed

lemma call_enter:
  assumes r: "reach start (mon_step guard body wakes wakeset) m"
    and idle: "phases m t = Idle" and own: "owner m = None"
  shows "reach start (mon_step guard body wakes wakeset)
    (m\<lparr>phases := (phases m)(t := Testing op False), owner := Some t\<rparr>)"
proof -
  let ?m1 = "m\<lparr>phases := (phases m)(t := Locking op)\<rparr>"
  have "reach start (mon_step guard body wakes wakeset) ?m1"
    by (rule reach.reach_step[OF r]) (rule mon_step.call, simp add: idle)
  then have "reach start (mon_step guard body wakes wakeset)
    (?m1\<lparr>phases := (phases ?m1)(t := Testing op False), owner := Some t\<rparr>)"
    by (rule reach.reach_step) (rule mon_step.lock, simp_all add: own)
  then show ?thesis by simp
qed

lemma call_load:
  assumes r: "reach start (mon_step guard body wakes wakeset) m"
    and idle: "phases m t = Idle" and own: "owner m = None"
  shows "reach start (mon_step guard body wakes wakeset)
    (m\<lparr>owner := Some t, phases := (phases m)(t := Loaded op False (shared m))\<rparr>)"
proof -
  let ?m = "m\<lparr>phases := (phases m)(t := Testing op False), owner := Some t\<rparr>"
  have "reach start (mon_step guard body wakes wakeset)
      (?m\<lparr>phases := (phases ?m)(t := Loaded op False (shared ?m))\<rparr>)"
    by (rule reach.reach_step[OF call_enter[OF r idle own]]) (rule mon_step.load, simp)
  then show ?thesis by simp
qed

lemma call_pass:
  assumes r: "reach start (mon_step guard body wakes wakeset) m"
    and idle: "phases m t = Idle" and own: "owner m = None"
    and g: "guard op (shared m)" and b: "body op (shared m) = (d', x)"
    and n: "notify (wakes op) (wakeset op) ((phases m)(t := Loaded op False (shared m))) ph"
  shows "reach start (mon_step guard body wakes wakeset)
    (m\<lparr>shared := d', owner := None, phases := ph(t := Returned op (Inr x)),
       history := history m @ [(op, Inr x)]\<rparr>)"
proof -
  let ?m2 = "m\<lparr>owner := Some t, phases := (phases m)(t := Loaded op False (shared m))\<rparr>"
  let ?m3 = "?m2\<lparr>shared := d', owner := None, phases := ph(t := Returned op (Inr x)),
       history := history ?m2 @ [(op, Inr x)]\<rparr>"
  have s: "mon_step guard body wakes wakeset ?m2 ?m3"
    by (rule mon_step.pass[where b = False and d = "shared m" and wakes = wakes and wakeset = wakeset])
       (simp_all add: g b n)
  have "reach start (mon_step guard body wakes wakeset) ?m3"
    using call_load[OF r idle own] s by (rule reach.reach_step)
  then show ?thesis by simp
qed

lemma call_sleep:
  assumes r: "reach start (mon_step guard body wakes wakeset) m"
    and idle: "phases m t = Idle" and own: "owner m = None" and g: "\<not> guard op (shared m)"
  shows "reach start (mon_step guard body wakes wakeset)
    (m\<lparr>owner := None, phases := (phases m)(t := Sleeping op)\<rparr>)"
proof -
  let ?m2 = "m\<lparr>owner := Some t, phases := (phases m)(t := Loaded op False (shared m))\<rparr>"
  have "mon_step guard body wakes wakeset ?m2
      (?m2\<lparr>owner := None, phases := (phases ?m2)(t := Sleeping op)\<rparr>)"
    by (rule mon_step.sleep[where d = "shared m"]) (simp_all add: g)
  with call_load[OF r idle own]
  have "reach start (mon_step guard body wakes wakeset)
      (?m2\<lparr>owner := None, phases := (phases ?m2)(t := Sleeping op)\<rparr>)"
    by (rule reach.reach_step)
  then show ?thesis by simp
qed

lemma solo_pass:
  assumes "reach start (mon_step guard body wakes wakeset) m"
    and "phases m t = Idle" and "owner m = None"
    and nosleep: "\<And>u op. phases m u \<noteq> Sleeping op"
    and "guard op (shared m)" and "body op (shared m) = (d', x)"
  shows "reach start (mon_step guard body wakes wakeset)
    (m\<lparr>shared := d', owner := None, phases := (phases m)(t := Returned op (Inr x)),
       history := history m @ [(op, Inr x)]\<rparr>)"
proof -
  have n: "notify (wakes op) (wakeset op)
      ((phases m)(t := Loaded op False (shared m))) ((phases m)(t := Loaded op False (shared m)))"
    by (rule notify_no_sleepers) (simp add: nosleep)
  from call_pass[where ph = "(phases m)(t := Loaded op False (shared m))", OF assms(1,2,3,5,6) n]
  show ?thesis by simp
qed

text \<open>
  The contract of a monitor over its own data: an invariant of the shared data that
  every body keeps. It then holds in every reachable state, whatever the interleaving.
\<close>

locale monitor_data =
  fixes guard :: "'op \<Rightarrow> 'd \<Rightarrow> bool"
    and body :: "'op \<Rightarrow> 'd \<Rightarrow> 'd \<times> 'r"
    and wakes :: "'op \<Rightarrow> wake"
    and wakeset :: "'op \<Rightarrow> 'op \<Rightarrow> bool"
    and d0 :: 'd
    and dinv :: "'d \<Rightarrow> bool"
  assumes dinv_init: "dinv d0"
    and dinv_body: "dinv d \<Longrightarrow> guard op d \<Longrightarrow> dinv (fst (body op d))"
begin

abbreviation mreach :: "('d, 'op, 'r) monitor \<Rightarrow> bool" where
  "mreach \<equiv> reach (\<lambda>m. m = monitor_init d0) (mon_step guard body wakes wakeset)"

lemma mutex_reach: "mreach m \<Longrightarrow> mutex_ok m"
  by (induction rule: reach.induct) (auto intro: mutex_ok_init mutex_ok_step)

lemma loaded_reach: "mreach m \<Longrightarrow> loaded_ok m"
  by (induction rule: reach.induct) (auto intro: loaded_ok_init loaded_ok_step mutex_reach)

lemma dinv_reach: "mreach m \<Longrightarrow> dinv (shared m)"
proof (induction rule: reach.induct)
  case (reach_start s)
  then show ?case by (simp add: monitor_init_def dinv_init)
next
  case (reach_step s t)
  from reach_step.hyps(2) reach_step.IH loaded_reach[OF reach_step.hyps(1)] show ?case
  proof (induction rule: mon_step.induct)
    case (pass m t op b d d' r ph)
    then show ?case using dinv_body[of d op] loaded_okD[of m t op b d] by simp
  qed simp_all
qed

lemma atomic_reach: "mreach m \<Longrightarrow> atomic_from guard body d0 m"
  by (induction rule: reach.induct) (auto intro: atomic_from_init atomic_from_step loaded_reach)

lemma returned_reach: "mreach m \<Longrightarrow> returned_ok m"
  by (induction rule: reach.induct) (auto intro: returned_ok_init returned_ok_step)

text \<open>
  When each call on its own meets a specification of the abstract state, the completed calls of
  all threads are a serial run of that specification, in the order in which they completed.
\<close>

lemma serial_reach:
  assumes "mreach m"
    and sim: "\<And>op d d' r. dinv d \<Longrightarrow> exec_atomic guard body op d = (d', r) \<Longrightarrow> T (\<alpha> d) op r (\<alpha> d')"
  shows "serial T (\<alpha> d0) (history m) (\<alpha> (shared m))"
  using assms(1)
proof (induction rule: reach.induct)
  case (reach_start s)
  then show ?case by (simp add: monitor_init_def serial.serial_none)
next
  case (reach_step s t)
  note inv = dinv_reach[OF reach_step.hyps(1)]
  from reach_step.hyps(2) reach_step.IH loaded_reach[OF reach_step.hyps(1)] inv show ?case
  proof (induction rule: mon_step.induct)
    case (pass m t op b d d' r ph)
    have d: "d = shared m" using pass.prems(2) pass.hyps(1) by (rule loaded_okD)
    have "T (\<alpha> (shared m)) op (Inr r) (\<alpha> d')"
      using pass.hyps(2,3) pass.prems(3) by (intro sim) (simp_all add: exec_atomic_def d)
    with pass.prems(1) show ?case by (simp add: serial_append)
  next
    case (expire m t op d)
    have d: "d = shared m" using expire.prems(2) expire.hyps(1) by (rule loaded_okD)
    have "T (\<alpha> (shared m)) op (Inl LockTimeout) (\<alpha> (shared m))"
      using expire.hyps(2) expire.prems(3) by (intro sim) (simp_all add: exec_atomic_def d)
    with expire.prems(1) show ?case by (simp add: serial_append)
  qed simp_all
qed

lemma one_owner:
  assumes "mreach m" and "testing (phases m t)" and "testing (phases m u)"
  shows "t = u"
  using mutex_reach[OF assms(1)] assms(2,3) by (auto simp: mutex_ok_def)

end

section \<open>No lost wake-up\<close>

text \<open>
  \<open>C\<close> is the class of calls that sleep on one condition variable. \<open>asleep\<close> and \<open>awake\<close>
  say where a caller of that class is: blocked on the condition variable, or inside its
  call and not blocked there.
\<close>

definition asleep :: "('op \<Rightarrow> bool) \<Rightarrow> ('d, 'op, 'r) phase \<Rightarrow> bool" where
  "asleep C p = (case p of Sleeping op \<Rightarrow> C op | _ \<Rightarrow> False)"

definition awake :: "('op \<Rightarrow> bool) \<Rightarrow> ('d, 'op, 'r) phase \<Rightarrow> bool" where
  "awake C p = (case p of Locking op \<Rightarrow> C op | Testing op _ \<Rightarrow> C op | Loaded op _ _ \<Rightarrow> C op
     | Relocking op _ \<Rightarrow> C op | _ \<Rightarrow> False)"

lemma asleep_simps [simp]:
  "asleep C (Sleeping op) = C op" "\<not> asleep C Idle" "\<not> asleep C (Locking op)"
  "\<not> asleep C (Testing op b)" "\<not> asleep C (Loaded op b d)" "\<not> asleep C (Relocking op b)" "\<not> asleep C (Returned op r)"
  by (simp_all add: asleep_def)

lemma awake_simps [simp]:
  "awake C (Locking op) = C op" "awake C (Testing op b) = C op" "awake C (Loaded op b d) = C op"
  "awake C (Relocking op b) = C op" "\<not> awake C Idle" "\<not> awake C (Sleeping op)"
  "\<not> awake C (Returned op r)"
  by (simp_all add: awake_def)

definition awake_set :: "('op \<Rightarrow> bool) \<Rightarrow> (nat \<Rightarrow> ('d, 'op, 'r) phase) \<Rightarrow> nat set" where
  "awake_set C ph = {t. awake C (ph t)}"

lemma awake_set_iff [simp]: "t \<in> awake_set C ph \<longleftrightarrow> awake C (ph t)"
  by (simp add: awake_set_def)

definition finite_active :: "(nat \<Rightarrow> ('d, 'op, 'r) phase) \<Rightarrow> bool" where
  "finite_active ph = finite {t. ph t \<noteq> Idle}"

text \<open>
  Whenever a caller of class \<open>C\<close> sleeps, at least as many callers of the class are awake as
  there are calls of the class that could succeed right now.
\<close>

definition balanced :: "('op \<Rightarrow> bool) \<Rightarrow> ('d \<Rightarrow> nat) \<Rightarrow> ('d, 'op, 'r) monitor \<Rightarrow> bool" where
  "balanced C avail m =
     ((\<exists>t. asleep C (phases m t)) \<longrightarrow> avail (shared m) \<le> card (awake_set C (phases m)))"

lemma balancedI:
  "(\<And>t. asleep C (phases m t) \<Longrightarrow> avail (shared m) \<le> card (awake_set C (phases m)))
    \<Longrightarrow> balanced C avail m"
  by (auto simp: balanced_def)

lemma balancedD:
  "balanced C avail m \<Longrightarrow> asleep C (phases m t) \<Longrightarrow>
    avail (shared m) \<le> card (awake_set C (phases m))"
  by (auto simp: balanced_def)

lemma finite_active_upd [simp]: "finite_active ph \<Longrightarrow> finite_active (ph(u := p))"
  unfolding finite_active_def
  by (rule finite_subset[of _ "insert u {t. ph t \<noteq> Idle}"]) auto

lemma finite_active_notify:
  assumes "notify k S ph ph'" and "finite_active ph"
  shows "finite_active ph'"
  unfolding finite_active_def
proof (rule finite_subset[OF _ assms(2)[unfolded finite_active_def]])
  show "{t. ph' t \<noteq> Idle} \<subseteq> {t. ph t \<noteq> Idle}"
  proof
    fix t
    assume "t \<in> {t. ph' t \<noteq> Idle}"
    then show "t \<in> {t. ph t \<noteq> Idle}" using notify_cases_at[OF assms(1), of t] by auto
  qed
qed

lemma finite_active_step:
  assumes "mon_step guard body wakes wakeset m m'" and "finite_active (phases m)"
  shows "finite_active (phases m')"
  using assms by (induction rule: mon_step.induct) (simp_all add: finite_active_notify)

lemma finite_awake: "finite_active ph \<Longrightarrow> finite (awake_set C ph)"
  unfolding finite_active_def awake_set_def by (erule rev_finite_subset) auto

text \<open>Moving one thread changes the awake set by at most that thread.\<close>

lemma awake_set_upd:
  "awake_set C (ph(t := p)) =
     (if awake C p then insert t (awake_set C ph) else awake_set C ph - {t})"
  by (auto simp: awake_set_def)

lemma awake_set_notify_other:
  assumes "notify k S ph ph'" and "\<And>op. S op \<Longrightarrow> \<not> C op"
  shows "awake C (ph' u) = awake C (ph u)" and "asleep C (ph' u) = asleep C (ph u)"
  using notify_cases_at[OF assms(1), of u] assms(2) by auto

lemma notify_one_awakes:
  assumes "notify WakeOne C ph ph'" and "asleep C (ph' t)" and "finite (awake_set C ph)"
  shows "card (awake_set C ph') = Suc (card (awake_set C ph))"
  using assms
proof (cases rule: notify.cases)
  case (notify_one u op)
  then have "awake_set C ph' = insert u (awake_set C ph)" and "u \<notin> awake_set C ph"
    by (auto simp: awake_set_upd)
  then show ?thesis using assms(3) by simp
next
  case notify_none
  then show ?thesis using assms(2) by (auto simp: asleep_def split: phase.splits)
qed

lemma asleep_notify: "notify k S ph ph' \<Longrightarrow> asleep C (ph' t) \<Longrightarrow> asleep C (ph t)"
  using notify_cases_at[of k S ph ph' t] by (auto simp: asleep_def split: phase.splits)

locale wake_balanced = monitor_data guard body wakes wakeset d0 dinv
  for guard :: "'op \<Rightarrow> 'd \<Rightarrow> bool" and body :: "'op \<Rightarrow> 'd \<Rightarrow> 'd \<times> 'r"
    and wakes wakeset d0 dinv +
  fixes C :: "'op \<Rightarrow> bool" and avail :: "'d \<Rightarrow> nat"
  assumes guard_avail: "C op \<Longrightarrow> guard op d \<longleftrightarrow> 0 < avail d"
    and own_uses: "dinv d \<Longrightarrow> C op \<Longrightarrow> guard op d \<Longrightarrow> avail (fst (body op d)) < avail d"
    and own_silent: "C op \<Longrightarrow> wakeset op op' \<Longrightarrow> \<not> C op'"
    and other_frees: "dinv d \<Longrightarrow> \<not> C op \<Longrightarrow> guard op d \<Longrightarrow>
      avail (fst (body op d)) \<le> Suc (avail d)"
    and other_wakes: "\<not> C op \<Longrightarrow> wakes op = WakeOne \<and> wakeset op = C"
begin

lemma balanced_pass:
  assumes bal: "balanced C avail m" and fin: "finite_active (phases m)" and inv: "dinv (shared m)"
    and ph: "phases m t = Loaded op b d" and g: "guard op (shared m)"
    and body: "body op (shared m) = (d', r)"
    and ntf: "notify (wakes op) (wakeset op) (phases m) ph'"
  shows "balanced C avail (m\<lparr>shared := d', owner := None,
     phases := ph'(t := Returned op (Inr r)), history := h\<rparr>)"
proof (cases "C op")
  case True
  have less: "avail d' < avail (shared m)"
    using own_uses[OF inv True g] body by simp
  have same: "awake C (ph' u) = awake C (phases m u)" "asleep C (ph' u) = asleep C (phases m u)"
    for u using awake_set_notify_other[OF ntf, of C u] own_silent[OF True] by blast+
  have "t \<in> awake_set C (phases m)" using ph True by simp
  then have "card (awake_set C (phases m) - {t}) = card (awake_set C (phases m)) - 1"
    using finite_awake[OF fin] by simp
  moreover have "awake_set C ph' = awake_set C (phases m)"
    by (simp add: awake_set_def same)
  ultimately have "card (awake_set C (ph'(t := Returned op (Inr r)))) =
      card (awake_set C (phases m)) - 1"
    by (simp add: awake_set_upd)
  moreover have "avail (shared m) \<le> card (awake_set C (phases m))"
    if "asleep C ((ph'(t := Returned op (Inr r))) u)" for u
    using that balancedD[OF bal, of u] by (simp add: same split: if_splits)
  ultimately show ?thesis using less by (fastforce intro!: balancedI)
next
  case False
  have w: "wakes op = WakeOne" "wakeset op = C" using other_wakes[OF False] by auto
  have le: "avail d' \<le> Suc (avail (shared m))"
    using other_frees[OF inv False g] body by simp
  have "\<not> awake C (ph' t)"
    using notify_cases_at[OF ntf, of t] ph False by auto
  then have aset: "awake_set C (ph'(t := Returned op (Inr r))) = awake_set C ph'"
    by (auto simp: awake_set_upd)
  show ?thesis
  proof (rule balancedI, simp del: fun_upd_apply add: aset)
    fix u
    assume "asleep C ((ph'(t := Returned op (Inr r))) u)"
    then have u: "asleep C (ph' u)" by (auto split: if_splits)
    then have "avail (shared m) \<le> card (awake_set C (phases m))"
      by (rule balancedD[OF bal asleep_notify[OF ntf]])
    moreover have "card (awake_set C ph') = Suc (card (awake_set C (phases m)))"
      using ntf u finite_awake[OF fin] by (simp add: w notify_one_awakes)
    ultimately show "avail d' \<le> card (awake_set C ph')"
      using le by simp
  qed
qed

text \<open>A thread that only moves between two phases of the same kind changes nothing.\<close>

lemma balanced_move:
  assumes "balanced C avail m" and "finite_active (phases m)"
    and "asleep C p \<Longrightarrow> asleep C (phases m t)" and "awake C (phases m t) \<Longrightarrow> awake C p"
  shows "balanced C avail (m\<lparr>phases := (phases m)(t := p), owner := w\<rparr>)"
proof -
  have "card (awake_set C (phases m)) \<le> card (awake_set C ((phases m)(t := p)))"
    unfolding awake_set_upd using finite_awake[OF assms(2), of C] assms(4)
    by (auto intro: card_mono)
  moreover have "avail (shared m) \<le> card (awake_set C (phases m))"
    if "asleep C (((phases m)(t := p)) u)" for u
    using that balancedD[OF assms(1), of u] assms(3) by (simp split: if_splits)
  ultimately show ?thesis by (fastforce intro!: balancedI simp del: fun_upd_apply)
qed

lemma balanced_give_up:
  assumes "balanced C avail m" and "phases m t = Loaded op b d" and "\<not> guard op (shared m)"
    and "asleep C p \<Longrightarrow> C op" and "\<not> awake C p"
  shows "balanced C avail (m\<lparr>owner := w, phases := (phases m)(t := p), history := h\<rparr>)"
proof (cases "C op")
  case True
  then show ?thesis using assms(3) guard_avail[of op "shared m"] by (simp add: balanced_def)
next
  case False
  then have "awake_set C ((phases m)(t := p)) = awake_set C (phases m)"
    using assms(2,5) by (auto simp: awake_set_upd)
  moreover have "avail (shared m) \<le> card (awake_set C (phases m))"
    if "asleep C (((phases m)(t := p)) u)" for u
    using that balancedD[OF assms(1), of u] assms(4) False by (simp split: if_splits)
  ultimately show ?thesis by (auto intro!: balancedI simp del: fun_upd_apply)
qed

lemma balanced_step:
  assumes "mon_step guard body wakes wakeset m m'"
    and "balanced C avail m" and "finite_active (phases m)" and "dinv (shared m)" and "loaded_ok m"
  shows "balanced C avail m'"
  using assms
proof (induction rule: mon_step.induct)
  case (call m t op)
  then show ?case
    using balanced_move[where m = m and t = t and p = "Locking op" and w = "owner m"] by auto
next
  case (lock m t op)
  then show ?case by (intro balanced_move) auto
next
  case (load m t op b)
  then show ?case
    using balanced_move[where m = m and t = t and p = "Loaded op b (shared m)" and w = "owner m"] by auto
next
  case (pass m t op b d d' r ph)
  then show ?case using loaded_okD[of m t op b d] by (intro balanced_pass) auto
next
  case (sleep m t op d)
  then show ?case
    using balanced_give_up[where m = m and p = "Sleeping op" and h = "history m"] loaded_okD[of m t op False d] by auto
next
  case (expire m t op d)
  then show ?case using loaded_okD[of m t op True d] by (intro balanced_give_up) auto
next
  case (wakeup m t op timed_out)
  then show ?case
    using balanced_move[where m = m and t = t and p = "Relocking op timed_out" and w = "owner m"]
    by auto
next
  case (relock m t op b)
  then show ?case by (intro balanced_move) auto
qed

lemma finite_active_reach: "mreach m \<Longrightarrow> finite_active (phases m)"
proof (induction rule: reach.induct)
  case (reach_start s)
  then show ?case by (simp add: finite_active_def monitor_init_def)
qed (rule finite_active_step)

lemma balanced_reach: "mreach m \<Longrightarrow> balanced C avail m"
proof (induction rule: reach.induct)
  case (reach_start s)
  then show ?case by (simp add: balanced_def monitor_init_def)
next
  case (reach_step s t)
  then show ?case by (blast intro: balanced_step finite_active_reach dinv_reach loaded_reach)
qed

text \<open>The user-facing form: a sleeping caller that could proceed is not alone.\<close>

lemma no_lost_wakeup:
  assumes "mreach m" and "phases m t = Sleeping op" and "C op" and "guard op (shared m)"
  shows "\<exists>u. awake C (phases m u)"
proof -
  have "0 < avail (shared m)" using assms(3,4) guard_avail by blast
  moreover have "avail (shared m) \<le> card (awake_set C (phases m))"
    using assms(2,3) by (intro balancedD[OF balanced_reach[OF assms(1)], of t]) simp
  ultimately have "awake_set C (phases m) \<noteq> {}" by (metis card.empty leD)
  then show ?thesis by (auto simp: awake_set_def)
qed

end

text \<open>
  The other discipline: every call that can make a sleeper's predicate true notifies all
  sleepers of that class. Then nobody sleeps on a true predicate.
\<close>

definition blocked :: "('op \<Rightarrow> bool) \<Rightarrow> ('op \<Rightarrow> 'd \<Rightarrow> bool) \<Rightarrow> ('d, 'op, 'r) monitor \<Rightarrow> bool" where
  "blocked C guard m = (\<forall>t op. phases m t = Sleeping op \<longrightarrow> C op \<longrightarrow> \<not> guard op (shared m))"

locale wake_notified = monitor_data guard body wakes wakeset d0 dinv
  for guard :: "'op \<Rightarrow> 'd \<Rightarrow> bool" and body :: "'op \<Rightarrow> 'd \<Rightarrow> 'd \<times> 'r"
    and wakes wakeset d0 dinv +
  fixes C :: "'op \<Rightarrow> bool"
  assumes enables: "C op' \<Longrightarrow> \<not> guard op' d \<Longrightarrow> guard op d \<Longrightarrow> guard op' (fst (body op d)) \<Longrightarrow>
    wakes op = WakeAll \<and> wakeset op op'"
begin

lemma blocked_step:
  assumes "mon_step guard body wakes wakeset m m'" and "loaded_ok m" and "blocked C guard m"
  shows "blocked C guard m'"
  using assms
proof (induction rule: mon_step.induct)
  case (pass m t op b d d' r ph)
  have d: "d = shared m" using pass.prems(1) pass.hyps(1) by (rule loaded_okD)
  show ?case
    unfolding blocked_def
  proof (intro allI impI notI)
    fix u op'
    let ?m = "m\<lparr>shared := d', owner := None, phases := ph(t := Returned op (Inr r)),
      history := history m @ [(op, Inr r)]\<rparr>"
    assume "phases ?m u = Sleeping op'" and "C op'" and "guard op' (shared ?m)"
    then have u: "ph u = Sleeping op'" and en: "guard op' d'" by (auto split: if_splits)
    have "\<not> guard op' (shared m)"
      using notify_not_sleeping[OF pass.hyps(4) u] \<open>C op'\<close> pass.prems
      by (auto simp: blocked_def)
    then have "wakes op = WakeAll \<and> wakeset op op'"
      using enables[OF \<open>C op'\<close>, of "shared m" op] pass.hyps(2,3) en by (simp add: d)
    then show False using notify_all_none_left[of "wakeset op" "phases m" ph op' u] pass.hyps(4) u
      by simp
  qed
qed (auto simp: blocked_def dest: loaded_okD split: if_splits)

lemma sleeper_blocked:
  assumes "mreach m" and "phases m t = Sleeping op" and "C op"
  shows "\<not> guard op (shared m)"
proof -
  have "blocked C guard m"
    using assms(1)
  proof (induction rule: reach.induct)
    case (reach_start s)
    then show ?case by (simp add: blocked_def monitor_init_def)
  next
    case (reach_step s t)
    then show ?case by (blast intro: blocked_step loaded_reach)
  qed
  then show ?thesis using assms(2,3) by (simp add: blocked_def)
qed

end

end
