(* ===== verification/Frame_Queue.thy ===== *)
theory Frame_Queue
  imports Monitor
begin

text \<open>
  \<open>FrameQueue\<close> (\<open>frame_queue.h\<close>, \<open>frame_queue.cc\<close>): the bounded queue of rendered frames
  between the socket client threads and the frame processing thread. The calls are given
  twice: as the atomic operations \<open>FrameQueue_push\<close> and \<open>FrameQueue_pop\<close>, and as the
  predicates, bodies and notifications that the monitor of theory \<open>Monitor\<close> interleaves.
  The element type is left open: the queue only moves its \<open>unique_ptr\<close>s.
\<close>

section \<open>State and operations\<close>

definition kFrameQueueMaxSize :: nat where
  "kFrameQueueMaxSize = 100"

record 'a FrameQueue =
  m_queue :: "'a list"

definition FrameQueue_new :: "'a FrameQueue" where
  "FrameQueue_new = \<lparr>m_queue = []\<rparr>"

definition FrameQueue_push :: "'a \<Rightarrow> 'a FrameQueue \<Rightarrow> 'a FrameQueue res" where
  "FrameQueue_push el q =
     (if length (m_queue q) < kFrameQueueMaxSize
      then Inr (q\<lparr>m_queue := m_queue q @ [el]\<rparr>)
      else Inl LockTimeout)"

definition FrameQueue_pop :: "'a FrameQueue \<Rightarrow> ('a \<times> 'a FrameQueue) res" where
  "FrameQueue_pop q =
     (case m_queue q of
        item # rest \<Rightarrow> Inr (item, q\<lparr>m_queue := rest\<rparr>)
      | [] \<Rightarrow> Inl LockTimeout)"

text \<open>The pieces of the two calls: predicate of \<open>wait_for\<close>, body, notification.\<close>

datatype 'a queue_op = Push 'a | Pop

fun queue_guard :: "'a queue_op \<Rightarrow> 'a FrameQueue \<Rightarrow> bool" where
  "queue_guard (Push el) q = (length (m_queue q) < kFrameQueueMaxSize)"
| "queue_guard Pop q = (length (m_queue q) > 0)"

fun queue_body :: "'a queue_op \<Rightarrow> 'a FrameQueue \<Rightarrow> 'a FrameQueue \<times> 'a option" where
  "queue_body (Push el) q = (q\<lparr>m_queue := m_queue q @ [el]\<rparr>, None)"
| "queue_body Pop q = (q\<lparr>m_queue := tl (m_queue q)\<rparr>, Some (hd (m_queue q)))"

fun queue_wakes :: "'a queue_op \<Rightarrow> wake" where
  "queue_wakes (Push el) = WakeOne"
| "queue_wakes Pop = WakeOne"

fun is_push :: "'a queue_op \<Rightarrow> bool" where
  "is_push (Push el) = True"
| "is_push Pop = False"

text \<open>\<open>push\<close> notifies \<open>m_popper\<close>, on which \<open>pop\<close> waits, and \<open>pop\<close> notifies \<open>m_pusher\<close>.\<close>

fun queue_wakeset :: "'a queue_op \<Rightarrow> 'a queue_op \<Rightarrow> bool" where
  "queue_wakeset (Push el) = (\<lambda>op. \<not> is_push op)"
| "queue_wakeset Pop = is_push"

definition queue_step ::
  "('a FrameQueue, 'a queue_op, 'a option) monitor \<Rightarrow>
   ('a FrameQueue, 'a queue_op, 'a option) monitor \<Rightarrow> bool" where
  "queue_step = mon_step queue_guard queue_body queue_wakes queue_wakeset"

definition queue_reach :: "('a FrameQueue, 'a queue_op, 'a option) monitor \<Rightarrow> bool" where
  "queue_reach = reach (\<lambda>m. m = monitor_init FrameQueue_new) queue_step"

lemmas queue_defs [op_defs] =
  FrameQueue_push_def FrameQueue_pop_def kFrameQueueMaxSize_def FrameQueue_new_def

text \<open>The atomic operations are what the pieces do when nothing interleaves.\<close>

lemma FrameQueue_push_atomic:
  "exec_atomic queue_guard queue_body (Push el) q =
     (case FrameQueue_push el q of Inl e \<Rightarrow> (q, Inl e) | Inr q' \<Rightarrow> (q', Inr None))"
  by (simp add: exec_atomic_def FrameQueue_push_def)

lemma FrameQueue_pop_atomic:
  "exec_atomic queue_guard queue_body Pop q =
     (case FrameQueue_pop q of Inl e \<Rightarrow> (q, Inl e) | Inr (x, q') \<Rightarrow> (q', Inr (Some x)))"
  by (simp add: exec_atomic_def FrameQueue_pop_def split: list.splits)

text \<open>A sequence of calls on the atomic object, with the results in order.\<close>

fun queue_apply :: "'a queue_op \<Rightarrow> 'a FrameQueue \<Rightarrow> 'a FrameQueue \<times> 'a option res" where
  "queue_apply (Push el) q =
     (case FrameQueue_push el q of Inl e \<Rightarrow> (q, Inl e) | Inr q' \<Rightarrow> (q', Inr None))"
| "queue_apply Pop q =
     (case FrameQueue_pop q of Inl e \<Rightarrow> (q, Inl e) | Inr (x, q') \<Rightarrow> (q', Inr (Some x)))"

fun queue_apply_all ::
  "'a queue_op list \<Rightarrow> 'a FrameQueue \<Rightarrow> 'a FrameQueue \<times> 'a option res list" where
  "queue_apply_all [] q = (q, [])"
| "queue_apply_all (op # ops) q =
     (let (q', r) = queue_apply op q; (q'', rs) = queue_apply_all ops q' in (q'', r # rs))"

lemma exec_atomic_queue: "exec_atomic queue_guard queue_body op q = queue_apply op q"
  by (cases op) (simp_all add: FrameQueue_push_atomic FrameQueue_pop_atomic)

lemma run_atomic_queue: "run_atomic queue_guard queue_body ops q = queue_apply_all ops q"
  by (induction ops arbitrary: q) (simp_all add: exec_atomic_queue)

section \<open>The interface: a bounded first-in first-out channel\<close>

locale bounded_fifo =
  fixes put :: "'a \<Rightarrow> 's \<Rightarrow> 's res"
    and get :: "'s \<Rightarrow> ('a \<times> 's) res"
    and contents :: "'s \<Rightarrow> 'a list"
    and cap :: nat
  assumes put_room: "length (contents s) < cap \<Longrightarrow>
      \<exists>s'. put x s = Inr s' \<and> contents s' = contents s @ [x]"
    and put_full: "\<not> length (contents s) < cap \<Longrightarrow> put x s = Inl LockTimeout"
    and get_some: "contents s = x # xs \<Longrightarrow> \<exists>s'. get s = Inr (x, s') \<and> contents s' = xs"
    and get_none: "contents s = [] \<Longrightarrow> get s = Inl LockTimeout"
begin

lemma put_Inr: "put x s = Inr s' \<Longrightarrow> contents s' = contents s @ [x]"
  by (metis put_room put_full old.sum.distinct(2) old.sum.inject(2) sum.disc(1) isl_def)

lemma get_Inr: "get s = Inr (x, s') \<Longrightarrow> contents s = x # contents s'"
  by (cases "contents s") (auto simp: get_none dest: get_some)

lemma put_bounded:
  "put x s = Inr s' \<Longrightarrow> length (contents s) \<le> cap \<Longrightarrow> length (contents s') \<le> cap"
  by (cases "length (contents s) < cap") (auto simp: put_full dest!: put_Inr)

lemma put_then_get_empty:
  assumes "contents s = []" and "0 < cap"
  obtains s' s'' where "put x s = Inr s'" and "get s' = Inr (x, s'')" and "contents s'' = []"
  using put_room[of s x] get_some[of _ x "[]"] assms by force

end

interpretation fq: bounded_fifo FrameQueue_push FrameQueue_pop m_queue kFrameQueueMaxSize
  by unfold_locales (auto simp: FrameQueue_push_def FrameQueue_pop_def)

section \<open>The queue as a monitor\<close>

definition queue_inv :: "'a FrameQueue \<Rightarrow> bool" where
  "queue_inv q = (length (m_queue q) \<le> kFrameQueueMaxSize)"

interpretation qm: monitor_data queue_guard queue_body queue_wakes queue_wakeset
  FrameQueue_new queue_inv
proof
  show "queue_inv FrameQueue_new"
    by (simp add: queue_inv_def FrameQueue_new_def)
next
  fix d :: "'a FrameQueue" and op
  assume "queue_inv d" and "queue_guard op d"
  then show "queue_inv (fst (queue_body op d))"
    by (cases op) (auto simp: queue_inv_def)
qed

text \<open>Free slots for the pushers, stored frames for the poppers.\<close>

definition queue_room :: "'a FrameQueue \<Rightarrow> nat" where
  "queue_room q = kFrameQueueMaxSize - length (m_queue q)"

definition queue_size :: "'a FrameQueue \<Rightarrow> nat" where
  "queue_size q = length (m_queue q)"

interpretation qpush: wake_balanced queue_guard queue_body queue_wakes queue_wakeset
  FrameQueue_new queue_inv is_push queue_room
proof
  fix op op' :: "'a queue_op" and d :: "'a FrameQueue"
  show "is_push op \<Longrightarrow> queue_guard op d \<longleftrightarrow> 0 < queue_room d"
    by (cases op) (auto simp: queue_room_def)
  show "queue_inv d \<Longrightarrow> is_push op \<Longrightarrow> queue_guard op d \<Longrightarrow>
      queue_room (fst (queue_body op d)) < queue_room d"
    by (cases op) (auto simp: queue_room_def)
  show "is_push op \<Longrightarrow> queue_wakeset op op' \<Longrightarrow> \<not> is_push op'"
    by (cases op) auto
  show "queue_inv d \<Longrightarrow> \<not> is_push op \<Longrightarrow> queue_guard op d \<Longrightarrow>
      queue_room (fst (queue_body op d)) \<le> Suc (queue_room d)"
    by (cases op) (auto simp: queue_room_def)
  show "\<not> is_push op \<Longrightarrow> queue_wakes op = WakeOne \<and> queue_wakeset op = is_push"
    by (cases op) auto
qed

interpretation qpop: wake_balanced queue_guard queue_body queue_wakes queue_wakeset
  FrameQueue_new queue_inv "\<lambda>op. \<not> is_push op" queue_size
proof
  fix op op' :: "'a queue_op" and d :: "'a FrameQueue"
  show "\<not> is_push op \<Longrightarrow> queue_guard op d \<longleftrightarrow> 0 < queue_size d"
    by (cases op) (auto simp: queue_size_def)
  show "queue_inv d \<Longrightarrow> \<not> is_push op \<Longrightarrow> queue_guard op d \<Longrightarrow>
      queue_size (fst (queue_body op d)) < queue_size d"
    by (cases op) (auto simp: queue_size_def)
  show "\<not> is_push op \<Longrightarrow> queue_wakeset op op' \<Longrightarrow> \<not> \<not> is_push op'"
    by (cases op) auto
  show "queue_inv d \<Longrightarrow> \<not> \<not> is_push op \<Longrightarrow> queue_guard op d \<Longrightarrow>
      queue_size (fst (queue_body op d)) \<le> Suc (queue_size d)"
    by (cases op) (auto simp: queue_size_def)
  show "\<not> \<not> is_push op \<Longrightarrow> queue_wakes op = WakeOne \<and> queue_wakeset op = (\<lambda>op. \<not> is_push op)"
    by (cases op) auto
qed

section \<open>First in, first out\<close>

text \<open>The frames accepted by completed pushes and handed out by completed pops, in order.\<close>

fun accepted :: "('a queue_op \<times> 'a option res) list \<Rightarrow> 'a list" where
  "accepted [] = []"
| "accepted ((Push x, Inr r) # h) = x # accepted h"
| "accepted (_ # h) = accepted h"

fun delivered :: "('a queue_op \<times> 'a option res) list \<Rightarrow> 'a list" where
  "delivered [] = []"
| "delivered ((Pop, Inr (Some x)) # h) = x # delivered h"
| "delivered (_ # h) = delivered h"

lemma accepted_Cons: "accepted (c # h) = accepted [c] @ accepted h"
  by (cases "(c # h)" rule: accepted.cases) simp_all

lemma delivered_Cons: "delivered (c # h) = delivered [c] @ delivered h"
  by (cases "(c # h)" rule: delivered.cases) simp_all

lemma exec_atomic_fifo:
  "exec_atomic queue_guard queue_body op q = (q', r) \<Longrightarrow>
     m_queue q @ accepted [(op, r)] = delivered [(op, r)] @ m_queue q'"
  by (cases op) (auto simp: exec_atomic_def split: if_splits)

text \<open>
  The channel itself, apart from the code: a list of at most \<open>cap\<close> items that answers one call at
  a time. A put into a full channel and a get from an empty one end with the time-out.
\<close>

inductive fifo_call :: "nat \<Rightarrow> 'a list \<Rightarrow> 'a queue_op \<Rightarrow> 'a option res \<Rightarrow> 'a list \<Rightarrow> bool"
  for cap where
  put: "length xs < cap \<Longrightarrow> fifo_call cap xs (Push x) (Inr None) (xs @ [x])"
| put_full: "cap \<le> length xs \<Longrightarrow> fifo_call cap xs (Push x) (Inl LockTimeout) xs"
| get: "fifo_call cap (x # xs) Pop (Inr (Some x)) xs"
| get_none: "fifo_call cap [] Pop (Inl LockTimeout) []"

lemma exec_atomic_fifo_call:
  assumes "exec_atomic queue_guard queue_body op q = (q', r)"
  shows "fifo_call kFrameQueueMaxSize (m_queue q) op r (m_queue q')"
proof (cases op)
  case (Push x)
  then show ?thesis
    using assms by (auto simp: exec_atomic_def intro: fifo_call.intros split: if_splits)
next
  case Pop
  then show ?thesis
    using assms by (cases "m_queue q") (auto simp: exec_atomic_def intro: fifo_call.intros)
qed

lemma run_atomic_fifo:
  "run_atomic queue_guard queue_body ops q = (q', rs) \<Longrightarrow>
     m_queue q @ accepted (zip ops rs) = delivered (zip ops rs) @ m_queue q'"
proof (induction ops arbitrary: q rs)
  case Nil
  then show ?case by simp
next
  case (Cons op ops)
  obtain q1 r where step: "exec_atomic queue_guard queue_body op q = (q1, r)"
    by fastforce
  obtain rs' where run: "run_atomic queue_guard queue_body ops q1 = (q', rs')"
    and rs: "rs = r # rs'"
    using Cons.prems step by (auto split: prod.splits)
  have "m_queue q @ accepted (zip (op # ops) rs) =
      delivered [(op, r)] @ (m_queue q1 @ accepted (zip ops rs'))"
    using exec_atomic_fifo[OF step] by (simp add: rs accepted_Cons[of "(op, r)" "zip ops rs'"])
  also have "\<dots> = delivered (zip (op # ops) rs) @ m_queue q'"
    using Cons.IH[OF run] by (simp add: rs delivered_Cons[of "(op, r)" "zip ops rs'"])
  finally show ?case .
qed

section \<open>Properties\<close>

text \<open>
  C4. Whatever the interleaving of pushing and popping threads, with time-outs and
  spurious wake-ups, the frames accepted by completed pushes are, in order, the frames
  handed out by completed pops followed by the frames still queued: nothing is lost,
  duplicated or reordered.
\<close>

theorem queue_concurrent_fifo:
  assumes "queue_reach m"
  shows "accepted (history m) = delivered (history m) @ m_queue (shared m)"
proof -
  have "run_atomic queue_guard queue_body (map fst (history m)) FrameQueue_new =
      (shared m, map snd (history m))"
    using qm.atomic_reach[of m] assms
    by (simp add: queue_reach_def queue_step_def atomic_from_def)
  from run_atomic_fifo[OF this] show ?thesis
    by (simp add: zip_history FrameQueue_new_def)
qed

text \<open>Two frames pushed and one popped, each call running undisturbed.\<close>

lemma queue_reach_example:
  "\<exists>m. queue_reach m \<and> owner m = None \<and>
     history m = [(Push (7 :: nat), Inr None), (Push 8, Inr None), (Pop, Inr (Some 7))] \<and>
     shared m = \<lparr>m_queue = [8]\<rparr>"
proof -
  let ?S = "\<lambda>m. m = monitor_init FrameQueue_new"
  let ?step = "mon_step queue_guard queue_body queue_wakes queue_wakeset"
  let ?m0 = "monitor_init FrameQueue_new ::
    (nat FrameQueue, nat queue_op, nat option) monitor"
  have r0: "reach ?S ?step ?m0" by (rule reach.reach_start) simp
  note ex = monitor_init_def FrameQueue_new_def kFrameQueueMaxSize_def
  have r1: "reach ?S ?step (?m0\<lparr>shared := \<lparr>m_queue = [7]\<rparr>, owner := None,
      phases := (phases ?m0)(0 := Returned (Push 7) (Inr None)),
      history := history ?m0 @ [(Push 7, Inr None)]\<rparr>)" (is "reach ?S ?step ?m1")
    by (rule solo_pass[OF r0]) (simp_all add: ex)
  have r2: "reach ?S ?step (?m1\<lparr>shared := \<lparr>m_queue = [7, 8]\<rparr>, owner := None,
      phases := (phases ?m1)(1 := Returned (Push 8) (Inr None)),
      history := history ?m1 @ [(Push 8, Inr None)]\<rparr>)" (is "reach ?S ?step ?m2")
    by (rule solo_pass[OF r1]) (simp_all add: ex)
  have "reach ?S ?step (?m2\<lparr>shared := \<lparr>m_queue = [8]\<rparr>, owner := None,
      phases := (phases ?m2)(2 := Returned Pop (Inr (Some 7))),
      history := history ?m2 @ [(Pop, Inr (Some 7))]\<rparr>)" (is "reach ?S ?step ?m3")
    by (rule solo_pass[OF r2]) (simp_all add: ex)
  then show ?thesis
    by (intro exI[of _ ?m3]) (simp add: queue_reach_def queue_step_def ex)
qed

theorem queue_concurrent_fifo_witness:
  "\<exists>m. queue_reach m \<and> history m = [(Push (7 :: nat), Inr None), (Push 8, Inr None),
     (Pop, Inr (Some 7))] \<and> accepted (history m) = delivered (history m) @ m_queue (shared m)"
  using queue_reach_example queue_concurrent_fifo by blast

text \<open>
  C5. The calls of all threads are linearizable because of the mutex. A call reads the queue in
  one step and writes what the body makes of the copy in a later one, and other threads may take
  steps in between; still, whoever is between the two steps has a copy that is the queue as it
  is now, the completed calls with their results are a serial run of a bounded first-in
  first-out channel from the empty queue to the contents of the queue, in the order in which they
  completed, each call answers what \<open>push\<close> and \<open>pop\<close> answer there, and what a thread has
  returned is one of these results.
\<close>

theorem queue_linearizable:
  assumes "queue_reach m"
  shows "serial (fifo_call kFrameQueueMaxSize) [] (history m) (m_queue (shared m))
    \<and> queue_apply_all (map fst (history m)) FrameQueue_new = (shared m, map snd (history m))
    \<and> (\<forall>t op b q. phases m t = Loaded op b q \<longrightarrow> q = shared m)
    \<and> (\<forall>t op r. phases m t = Returned op r \<longrightarrow> (op, r) \<in> set (history m))"
proof -
  have r: "qm.mreach m" using assms by (simp add: queue_reach_def queue_step_def)
  have "serial (fifo_call kFrameQueueMaxSize) (m_queue (FrameQueue_new :: 'a FrameQueue))
      (history m) (m_queue (shared m))"
    by (rule qm.serial_reach[OF r, where \<alpha> = m_queue]) (rule exec_atomic_fifo_call)
  then show ?thesis
    using qm.atomic_reach[OF r] qm.loaded_reach[OF r] qm.returned_reach[OF r]
    by (simp add: FrameQueue_new_def atomic_from_def run_atomic_queue loaded_ok_def returned_ok_def)
qed

theorem queue_linearizable_witness:
  "\<exists>m. queue_reach m \<and> map fst (history m) = [Push (7 :: nat), Push 8, Pop] \<and>
     serial (fifo_call kFrameQueueMaxSize) [] (history m) (m_queue (shared m)) \<and>
     queue_apply_all (map fst (history m)) FrameQueue_new = (shared m, map snd (history m))"
proof -
  obtain m where m: "queue_reach m" "map fst (history m) = [Push (7 :: nat), Push 8, Pop]"
    using queue_reach_example by fastforce
  show ?thesis using m queue_linearizable[OF m(1)] by (intro exI[of _ m]) blast
qed

text \<open>
  At most one thread is inside the critical section, and the queue never holds more
  than \<open>kFrameQueueMaxSize\<close> frames.
\<close>

lemma queue_exclusive_bounded:
  assumes "queue_reach m"
  shows "length (m_queue (shared m)) \<le> kFrameQueueMaxSize
    \<and> (testing (phases m t) \<and> testing (phases m u) \<longrightarrow> t = u)"
  using qm.dinv_reach[of m] qm.one_owner[of m t u] assms
  by (auto simp: queue_reach_def queue_step_def queue_inv_def)

text \<open>
  C6. No wake-up is lost although both calls notify only one thread: whenever a popping
  thread sleeps on \<open>m_popper\<close>, at least as many popping threads are awake inside their
  call as there are queued frames, and the same for pushing threads and free slots.
\<close>

theorem queue_no_lost_wakeup:
  assumes "queue_reach m"
  shows "(phases m t = Sleeping Pop \<longrightarrow>
      length (m_queue (shared m)) \<le> card {u. awake (\<lambda>op. \<not> is_push op) (phases m u)})
    \<and> (phases m t = Sleeping (Push el) \<longrightarrow>
      kFrameQueueMaxSize - length (m_queue (shared m)) \<le> card {u. awake is_push (phases m u)})"
  using balancedD[OF qpop.balanced_reach[of m], of t] balancedD[OF qpush.balanced_reach[of m], of t]
    assms
  by (simp add: queue_reach_def queue_step_def queue_size_def queue_room_def awake_set_def)

text \<open>Two threads sleep in \<open>pop\<close>, a third pushes: one of them is woken, the other sleeps on.\<close>

lemma queue_reach_two_poppers:
  "\<exists>m. queue_reach m \<and> m_queue (shared m) = [5 :: nat] \<and>
     phases m 0 = Relocking Pop False \<and> phases m 1 = Sleeping Pop"
proof -
  let ?S = "\<lambda>m. m = monitor_init FrameQueue_new"
  let ?step = "mon_step queue_guard queue_body queue_wakes queue_wakeset"
  let ?m0 = "monitor_init FrameQueue_new ::
    (nat FrameQueue, nat queue_op, nat option) monitor"
  have r0: "reach ?S ?step ?m0" by (rule reach.reach_start) simp
  note ex = monitor_init_def FrameQueue_new_def kFrameQueueMaxSize_def
  have r1: "reach ?S ?step (?m0\<lparr>owner := None, phases := (phases ?m0)(0 := Sleeping Pop)\<rparr>)"
    (is "reach ?S ?step ?m1")
    by (rule call_sleep[OF r0]) (simp_all add: ex)
  have r2: "reach ?S ?step (?m1\<lparr>owner := None, phases := (phases ?m1)(1 := Sleeping Pop)\<rparr>)"
    (is "reach ?S ?step ?m2")
    by (rule call_sleep[OF r1]) (simp_all add: ex)
  let ?ph = "(phases ?m2)(2 := Loaded (Push 5) False (shared ?m2))"
  have n: "notify (queue_wakes (Push 5)) (queue_wakeset (Push 5)) ?ph
      (?ph(0 := Relocking Pop False))"
    by (simp only: queue_wakes.simps) (rule notify.notify_one, simp_all)
  have "reach ?S ?step (?m2\<lparr>shared := \<lparr>m_queue = [5]\<rparr>, owner := None,
      phases := (?ph(0 := Relocking Pop False))(2 := Returned (Push 5) (Inr None)),
      history := history ?m2 @ [(Push 5, Inr None)]\<rparr>)" (is "reach ?S ?step ?m3")
    by (rule call_pass[OF r2 _ _ _ _ n]) (simp_all add: ex)
  then show ?thesis
    by (intro exI[of _ ?m3]) (simp add: queue_reach_def queue_step_def)
qed

theorem queue_no_lost_wakeup_witness:
  "\<exists>m. queue_reach m \<and> phases m 1 = Sleeping (Pop :: nat queue_op)
     \<and> length (m_queue (shared m)) = 1
     \<and> 1 \<le> card {u. awake (\<lambda>op. \<not> is_push op) (phases m u)}"
proof -
  obtain m where m: "queue_reach m" "m_queue (shared m) = [5 :: nat]"
    "phases m 1 = Sleeping Pop"
    using queue_reach_two_poppers by blast
  show ?thesis
    using m queue_no_lost_wakeup[OF m(1), of 1] by (intro exI[of _ m]) simp
qed

end
