(* ===== verification/Text_Format.thy ===== *)
theory Text_Format
  imports Messages
begin

unbundle bit_operations_syntax

text \<open>
  The standard library's text formatting and parsing as the program uses it:
  \<open>std::to_string\<close> of the frame index, \<open>std::stoi\<close> and \<open>std::getline\<close> on a renderer address,
  \<open>std::put_time\<close> with zero-filled milliseconds for the time stamp, and the fixed-point
  printing of the camera matrix (\<open>std::fixed\<close>, \<open>std::showpos\<close>, \<open>std::setprecision(5)\<close>,
  \<open>std::setw(7)\<close>, \<open>std::setfill('0')\<close>), which rounds the exact value of the float half to even.
\<close>

section \<open>Numbers\<close>

definition digit :: "nat \<Rightarrow> char" where
  "digit d = char_of (48 + d)"

fun show_nat :: "nat \<Rightarrow> string" where
  "show_nat n = (if n < 10 then [digit n] else show_nat (n div 10) @ [digit (n mod 10)])"

declare show_nat.simps [simp del]

definition to_string :: "u64 \<Rightarrow> string" where
  "to_string n = show_nat (unat n)"

definition pad_left :: "nat \<Rightarrow> char \<Rightarrow> string \<Rightarrow> string" where
  "pad_left width fill s = replicate (width - length s) fill @ s"

definition isdigit :: "char \<Rightarrow> bool" where
  "isdigit c = (48 \<le> (of_char c :: nat) \<and> (of_char c :: nat) \<le> 57)"

definition isspace :: "char \<Rightarrow> bool" where
  "isspace c = (c = CHR '' '' \<or> (9 \<le> (of_char c :: nat) \<and> (of_char c :: nat) \<le> 13))"

definition digits_value :: "string \<Rightarrow> nat" where
  "digits_value ds = foldl (\<lambda>acc c. 10 * acc + (of_char c - 48)) 0 ds"

definition stoi :: "string \<Rightarrow> int res" where
  "stoi str =
     (let s = dropWhile isspace str;
          neg = (s \<noteq> [] \<and> hd s = CHR ''-'');
          s' = (if s \<noteq> [] \<and> (hd s = CHR ''-'' \<or> hd s = CHR ''+'') then tl s else s);
          ds = takeWhile isdigit s';
          v = (if neg then - int (digits_value ds) else int (digits_value ds))
      in if ds = [] then Inl (InvalidArgument ''stoi'')
         else if v < - 2147483648 \<or> v > 2147483647 then Inl (OutOfRange ''stoi'')
         else Inr v)"

text \<open>\<open>std::getline\<close> with a delimiter: the line and what is left in the stream.\<close>

definition getline :: "char \<Rightarrow> string \<Rightarrow> string \<times> string" where
  "getline delim s = (takeWhile (\<lambda>c. c \<noteq> delim) s, drop 1 (dropWhile (\<lambda>c. c \<noteq> delim) s))"

section \<open>The overlay texts\<close>

text \<open>The local time of a clock reading and its milliseconds since the epoch.\<close>

record clock_time =
  tm_hour :: nat
  tm_min :: nat
  tm_sec :: nat
  ms_since_epoch :: nat

definition timestamp :: "clock_time \<Rightarrow> string" where
  "timestamp t =
     pad_left 2 CHR ''0'' (show_nat (tm_hour t)) @ '':'' @ pad_left 2 CHR ''0'' (show_nat (tm_min t))
     @ '':'' @ pad_left 2 CHR ''0'' (show_nat (tm_sec t))
     @ ''.'' @ pad_left 3 CHR ''0'' (show_nat (ms_since_epoch t mod 1000))"

text \<open>
  A single precision value is \<open>mantissa * 2 ^ (exponent - 150)\<close>; \<open>scaled5\<close> is that value times
  \<open>10 ^ 5\<close>, rounded half to even.
\<close>

definition f32_exp :: "f32 \<Rightarrow> nat" where
  "f32_exp w = unat (drop_bit 23 w AND 0xFF)"

definition f32_frac :: "f32 \<Rightarrow> nat" where
  "f32_frac w = unat (w AND 0x7FFFFF)"

definition f32_negative :: "f32 \<Rightarrow> bool" where
  "f32_negative w = bit w 31"

definition round_half_even :: "nat \<Rightarrow> nat \<Rightarrow> nat" where
  "round_half_even num den =
     (let q = num div den; r = num mod den
      in if 2 * r > den \<or> (2 * r = den \<and> odd q) then q + 1 else q)"

definition scaled5 :: "f32 \<Rightarrow> nat" where
  "scaled5 w =
     (let e = f32_exp w;
          m = (if e = 0 then f32_frac w else f32_frac w + 2 ^ 23);
          e' = (if e = 0 then 1 else e)
      in if 150 \<le> e' then m * 2 ^ (e' - 150) * 100000
         else round_half_even (m * 100000) (2 ^ (150 - e')))"

definition show_f32 :: "f32 \<Rightarrow> string" where
  "show_f32 w =
     pad_left 7 CHR ''0''
       ((if f32_negative w then ''-'' else ''+'')
        @ (if f32_exp w = 255 then (if f32_frac w = 0 then ''inf'' else ''nan'')
           else show_nat (scaled5 w div 100000) @ ''.''
                @ pad_left 5 CHR ''0'' (show_nat (scaled5 w mod 100000))))"

fun matrix_entries :: "nat \<Rightarrow> f32 list \<Rightarrow> string" where
  "matrix_entries idx [] = []"
| "matrix_entries idx (it # its) =
     show_f32 it @ '' '' @ (if (idx + 1) mod 4 = 0 then [CHR 0x0A] else [])
     @ matrix_entries (idx + 1) its"

definition cam_matrix_text :: "f32 list \<Rightarrow> string" where
  "cam_matrix_text matrix =
     matrix_entries 0 matrix @ concat (map (\<lambda>w. show_f32 w @ '' '') [0, 0, 0, 0x3F800000])"

definition index_text :: "u64 \<Rightarrow> string" where
  "index_text index = ''index='' @ to_string index"

definition direction_text :: "bool \<Rightarrow> string" where
  "direction_text is_left = (if is_left then ''direction=left'' else ''direction=right'')"

section \<open>Lemmas\<close>

lemma of_char_digit: "d < 10 \<Longrightarrow> of_char (digit d) = 48 + d"
  by (simp add: digit_def of_char_of take_bit_nat_eq_self)

lemma isdigit_digit [simp]: "d < 10 \<Longrightarrow> isdigit (digit d)"
  by (simp add: isdigit_def of_char_digit)

lemma show_nat_digits: "c \<in> set (show_nat n) \<Longrightarrow> isdigit c"
  by (induction n rule: show_nat.induct) (subst (asm) (2) show_nat.simps, auto split: if_splits)

lemma show_nat_ne [simp]: "show_nat n \<noteq> []"
  by (subst show_nat.simps) simp

lemma digits_value_snoc [simp]: "digits_value (ds @ [c]) = 10 * digits_value ds + (of_char c - 48)"
  by (simp add: digits_value_def)

lemma digits_value_show: "digits_value (show_nat n) = n"
proof (induction n rule: show_nat.induct)
  case (1 n)
  show ?case
  proof (cases "n < 10")
    case True
    then show ?thesis by (subst show_nat.simps) (simp add: digits_value_def of_char_digit)
  next
    case False
    then show ?thesis using 1 by (subst show_nat.simps) (simp add: of_char_digit)
  qed
qed

lemma isdigit_not_space: "isdigit c \<Longrightarrow> \<not> isspace c \<and> c \<noteq> CHR ''-'' \<and> c \<noteq> CHR ''+'' \<and> c \<noteq> CHR '':''"
  by (auto simp: isdigit_def isspace_def)

lemma stoi_show_nat:
  assumes "n \<le> 2147483647"
  shows "stoi (show_nat n) = Inr (int n)"
proof -
  obtain c cs where s: "show_nat n = c # cs" by (cases "show_nat n") auto
  have c: "isdigit c" using show_nat_digits[of c n] s by simp
  have "takeWhile isdigit (show_nat n) = show_nat n" using show_nat_digits by (auto simp: takeWhile_eq_all_conv)
  then show ?thesis
    using assms digits_value_show[of n] isdigit_not_space[OF c] by (simp add: stoi_def s Let_def)
qed

lemma show_nat_length: "n < 10 ^ Suc k \<Longrightarrow> length (show_nat n) \<le> Suc k"
proof (induction k arbitrary: n)
  case 0
  then show ?case by (subst show_nat.simps) simp
next
  case (Suc k)
  then have "n div 10 < 10 ^ Suc k" by (simp add: less_mult_imp_div_less)
  with Suc.IH show ?case by (subst show_nat.simps) simp
qed

lemma f32_frac_bound: "f32_frac w < 2 ^ 23"
proof -
  have m: "(0x7FFFFF :: u32) = mask 23" by (simp add: mask_eq_exp_minus_1)
  have "f32_frac w = take_bit 23 (unat w)"
    unfolding f32_frac_def m by (simp add: take_bit_eq_mask[symmetric] unsigned_take_bit_eq)
  also have "\<dots> < 2 ^ 23" by (rule take_bit_nat_less_exp)
  finally show ?thesis .
qed

lemma f32_exp_bound: "f32_exp w \<le> 255"
proof -
  have m: "(0xFF :: u32) = mask 8" by (simp add: mask_eq_exp_minus_1)
  have "f32_exp w = take_bit 8 (unat (drop_bit 23 w))"
    unfolding f32_exp_def m by (simp add: take_bit_eq_mask[symmetric] unsigned_take_bit_eq)
  also have "\<dots> < 2 ^ 8" by (rule take_bit_nat_less_exp)
  finally show ?thesis by simp
qed

lemma round_half_even_le: "round_half_even n d \<le> n div d + 1"
  by (simp add: round_half_even_def Let_def)

lemma scaled5_bound:
  assumes "f32_exp w \<noteq> 255"
  shows "scaled5 w div 100000 < 10 ^ 39"
proof -
  define m where "m = (if f32_exp w = 0 then f32_frac w else f32_frac w + 2 ^ 23)"
  define e where "e = (if f32_exp w = 0 then 1 else f32_exp w)"
  have m: "m < 2 ^ 24" using f32_frac_bound[of w] by (simp add: m_def)
  have e: "e \<le> 254" using assms f32_exp_bound[of w] by (simp add: e_def)
  have sc: "scaled5 w = (if 150 \<le> e then m * 2 ^ (e - 150) * 100000
      else round_half_even (m * 100000) (2 ^ (150 - e)))"
    by (simp add: scaled5_def m_def e_def Let_def)
  show ?thesis
  proof (cases "150 \<le> e")
    case True
    have "scaled5 w div 100000 = m * 2 ^ (e - 150)" using True sc by simp
    also have "\<dots> < 2 ^ 24 * 2 ^ (e - 150)" using m by simp
    also have "\<dots> \<le> 2 ^ 24 * 2 ^ 104" using e by (intro mult_le_mono2 power_increasing) simp_all
    also have "\<dots> < (10 ^ 39 :: nat)" by simp
    finally show ?thesis .
  next
    case False
    have "scaled5 w \<le> m * 100000 div 2 ^ (150 - e) + 1"
      using False sc round_half_even_le by simp
    also have "\<dots> \<le> m * 100000 + 1" by (simp add: div_le_dividend)
    finally have "scaled5 w \<le> m * 100000 + 1" .
    then have "scaled5 w div 100000 \<le> (m * 100000 + 1) div 100000" by (rule div_le_mono)
    also have "\<dots> = m" by simp
    also have "m < (10 ^ 39 :: nat)" using m by (rule less_trans) simp
    finally show ?thesis .
  qed
qed

lemma length_pad_left: "length (pad_left n c s) = max n (length s)"
  by (simp add: pad_left_def)

lemma show_f32_length: "length (show_f32 w) \<le> 46"
proof (cases "f32_exp w = 255")
  case True
  then show ?thesis by (simp add: show_f32_def length_pad_left)
next
  case False
  have "length (show_nat (scaled5 w div 100000)) \<le> 39"
    using show_nat_length[of _ 38] scaled5_bound[OF False] by simp
  moreover have "length (show_nat (scaled5 w mod 100000)) \<le> 5"
    using show_nat_length[of "scaled5 w mod 100000" 4] by simp
  ultimately show ?thesis using False by (simp add: show_f32_def length_pad_left)
qed

lemma matrix_entries_length: "length (matrix_entries idx m) \<le> 48 * length m"
proof (induction m arbitrary: idx)
  case (Cons x m)
  show ?case using show_f32_length[of x] Cons.IH[of "idx + 1"] by (auto simp: add_mono)
qed simp

lemma cam_matrix_text_length: "length (cam_matrix_text m) \<le> 48 * length m + 188"
  using matrix_entries_length[of 0 m] show_f32_length[of 0] show_f32_length[of "0x3F800000"]
  by (simp add: cam_matrix_text_def)

lemma index_text_length: "length (index_text n) \<le> 26"
proof -
  have "unat n < 2 ^ 64" using unsigned_less[of n] by simp
  then have "unat n < 10 ^ Suc 19" by simp
  then show ?thesis using show_nat_length[of "unat n" 19] by (simp add: index_text_def to_string_def)
qed

lemma timestamp_length:
  assumes "tm_hour t < 24" "tm_min t < 60" "tm_sec t \<le> 60"
  shows "length (timestamp t) = 12"
  using assms show_nat_length[of "tm_hour t" 1] show_nat_length[of "tm_min t" 1]
    show_nat_length[of "tm_sec t" 1] show_nat_length[of "ms_since_epoch t mod 1000" 2]
  by (simp add: timestamp_def length_pad_left)

end
