(* ===== verification/Server_Threads.thy ===== *)
theory Server_Threads
  imports Socket_IO Camera_Manager Frames Frame_Queue Text_Format
begin

unbundle bit_operations_syntax

text \<open>
  The threads of \<open>server.cpp\<close> that talk to the renderers: \<open>socket_client_thread\<close> (draw a ticket,
  send a request, receive the rendered frame, queue it), \<open>socket_manage_thread\<close> (parse the
  renderer's address, connect, run a client thread, reconnect) and \<open>socket_main_thread\<close> (one
  managing thread per renderer).

  A round of a loop is a function from the thread's variables and the shared state. What the
  other threads do to the shared state between two rounds, whether the loop test sees the
  shutdown flag, and the measured milliseconds come from a script, one entry per round; a
  thread that outlives its script is \<open>Blocked\<close>. The generated protobuf code is a parameter
  (\<open>serialize\<close>, \<open>parse_frame\<close>), as are allocation and the libav environment.
\<close>

section \<open>Shared state\<close>

record server_state =
  sv_is_left :: int
  frame_index_left :: u64
  frame_index_right :: u64
  cameramgr :: CameraManager
  frame_queue_left :: "RenderedFrame FrameQueue"
  frame_queue_right :: "RenderedFrame FrameQueue"
  sv_heap :: heap

text \<open>\<open>is_left.fetch_xor(true)\<close> and \<open>frame_index_*.fetch_add(1)\<close>.\<close>

definition fetch_is_left :: "server_state \<Rightarrow> bool \<times> server_state" where
  "fetch_is_left s = (sv_is_left s \<noteq> 0, s\<lparr>sv_is_left := sv_is_left s XOR 1\<rparr>)"

definition fetch_frame_index :: "bool \<Rightarrow> server_state \<Rightarrow> u64 \<times> server_state" where
  "fetch_frame_index is_left_val s =
     (if is_left_val
      then (frame_index_left s, s\<lparr>frame_index_left := frame_index_left s + 1\<rparr>)
      else (frame_index_right s, s\<lparr>frame_index_right := frame_index_right s + 1\<rparr>))"

definition make_request :: "bool \<Rightarrow> u64 \<Rightarrow> CameraManager \<Rightarrow> FrameRequest" where
  "make_request is_left_val index cm =
     \<lparr>req_index = index,
      req_camera = (if is_left_val then get_camera_left cm else get_camera_right cm),
      req_is_left = is_left_val\<rparr>"

section \<open>The client thread\<close>

definition kLogStatsIntervalFrame :: u64 where
  "kLogStatsIntervalFrame = 100"

text \<open>
  The thread's variables, the scripts of its socket, whether the socket is open, and the
  averages it has logged.
\<close>

record client =
  c_ret :: int
  c_count :: u64
  c_elapsed :: u64
  c_outs :: "send_event list"
  c_evs :: "recv_event list"
  c_wire :: "u8 list"
  c_open :: bool
  c_logged :: "u64 list"

definition client_start :: "send_event list \<Rightarrow> recv_event list \<Rightarrow> client" where
  "client_start outs evs =
     \<lparr>c_ret = 0, c_count = 0, c_elapsed = 0, c_outs = outs, c_evs = evs, c_wire = [],
      c_open = True, c_logged = []\<rparr>"

record client_env =
  serialize :: "FrameRequest \<Rightarrow> u8 list"
  parse_frame :: "u8 list \<Rightarrow> FrameResponse option"
  alloc_ok :: "u64 \<Rightarrow> bool"
  av :: av_env
  ctxmgr_scene :: "codecs \<Rightarrow> AVCodecContextManager"
  ctxmgr_depth :: "codecs \<Rightarrow> AVCodecContextManager"

datatype 's round = Next 's | Exit 's | Throws error 's | Blocked

text \<open>
  The frame is built for the configurations \<open>scene\<close> and \<open>depth\<close> that \<open>get_codec_info\<close> has returned, and pushed.
  The \<open>unique_ptr\<close> still owns the frame when \<open>push\<close> times out, and destroys it.
\<close>

definition push_frame ::
  "client_env \<Rightarrow> CodecInitInfo \<Rightarrow> CodecInitInfo \<Rightarrow> FrameResponse \<Rightarrow> server_state \<Rightarrow> server_state res" where
  "push_frame env scene depth frame s =
     (let (frame_o, h) = RenderedFrame_new (av env) frame AV_PIX_FMT_RGB24 AV_PIX_FMT_GRAY8 scene depth (sv_heap s);
          dropped = bindE (RenderedFrame_delete frame_o h) (\<lambda>h'. Inr (s\<lparr>sv_heap := h'\<rparr>))
      in if frame_is_left frame_o
         then (case FrameQueue_push frame_o (frame_queue_left s) of
                 Inr q \<Rightarrow> Inr (s\<lparr>sv_heap := h, frame_queue_left := q\<rparr>)
               | Inl e \<Rightarrow> dropped)
         else (case FrameQueue_push frame_o (frame_queue_right s) of
                 Inr q \<Rightarrow> Inr (s\<lparr>sv_heap := h, frame_queue_right := q\<rparr>)
               | Inl e \<Rightarrow> dropped))"

text \<open>A thread that is not disturbed reads the configurations as they are.\<close>

definition enqueue_frame :: "client_env \<Rightarrow> FrameResponse \<Rightarrow> server_state \<Rightarrow> server_state res" where
  "enqueue_frame env frame s =
     (let cs = m_codecs (cameramgr s)
      in push_frame env (m_info (ctxmgr_scene env cs)) (m_info (ctxmgr_depth env cs)) frame s)"

definition client_stats :: "u64 \<Rightarrow> client \<Rightarrow> client" where
  "client_stats ms c =
     (let count = c_count c + 1; elapsed = c_elapsed c + ms
      in if count = kLogStatsIntervalFrame
         then c\<lparr>c_count := 0, c_elapsed := 0, c_logged := c_logged c @ [elapsed div count]\<rparr>
         else c\<lparr>c_count := count, c_elapsed := elapsed\<rparr>)"

text \<open>
  One round of the loop, after the test of the shutdown flag; \<open>ms\<close> is the timer's reading.
  Only \<open>std::runtime_error\<close> is caught around the reception.
\<close>

definition socket_client_round ::
  "client_env \<Rightarrow> u64 \<Rightarrow> client \<times> server_state \<Rightarrow> (client \<times> server_state) round" where
  "socket_client_round env ms = (\<lambda>(c, s).
     if c_ret c < 0 then Exit (c, s)
     else
       (let (is_left_val, s1) = fetch_is_left s;
            (index, s2) = fetch_frame_index is_left_val s1;
            req = make_request is_left_val index (cameramgr s2)
        in case socket_send_blocking_lpf (serialize env req) (c_outs c) of
             None \<Rightarrow> Blocked
           | Some (ret, wire, outs) \<Rightarrow>
               (let c1 = c\<lparr>c_ret := ret, c_outs := outs, c_wire := c_wire c @ wire\<rparr>
                in if ret < 0 then Next (c1, s2)
                   else
                     (case socket_receive_blocking_lpf (alloc_ok env) (c_evs c1) of
                        None \<Rightarrow> Blocked
                      | Some (Inl (RuntimeError msg), evs) \<Rightarrow> Next (c1\<lparr>c_evs := evs\<rparr>, s2)
                      | Some (Inl e, evs) \<Rightarrow> Throws e (c1\<lparr>c_evs := evs\<rparr>, s2)
                      | Some (Inr bytes, evs) \<Rightarrow>
                          (let c2 = c1\<lparr>c_evs := evs\<rparr>
                           in case parse_frame env bytes of
                                None \<Rightarrow> Next (c2, s2)
                              | Some frame \<Rightarrow>
                                  (case enqueue_frame env frame s2 of
                                     Inl e \<Rightarrow> Throws e (client_stats ms c2, s2)
                                   | Inr s3 \<Rightarrow> Next (client_stats ms c2, s3)))))))"

text \<open>
  The thread. A script entry holds what the loop test reads, the timer's reading, and what
  the other threads have done to the shared state in the meantime. On the way out the socket
  is closed; an exception leaves the thread function.
\<close>

fun socket_client_thread ::
  "client_env \<Rightarrow> (bool \<times> u64 \<times> (server_state \<Rightarrow> server_state)) list \<Rightarrow> client \<times> server_state \<Rightarrow>
   (client \<times> server_state) round" where
  "socket_client_thread env [] cs = Blocked"
| "socket_client_thread env ((shutdown_requested, ms, others) # script) (c, s0) =
     (let s = others s0
      in if shutdown_requested then Exit (c\<lparr>c_open := False\<rparr>, s)
         else (case socket_client_round env ms (c, s) of
                 Next cs \<Rightarrow> socket_client_thread env script cs
               | Exit (c', s') \<Rightarrow> Exit (c'\<lparr>c_open := False\<rparr>, s')
               | Throws e cs \<Rightarrow> Throws e cs
               | Blocked \<Rightarrow> Blocked))"

section \<open>The managing thread\<close>

definition htons :: "u16 \<Rightarrow> u16" where
  "htons p = push_bit 8 p OR drop_bit 8 p"

definition parse_renderer :: "string \<Rightarrow> (string \<times> u16) res" where
  "parse_renderer renderer =
     (let (ip, rest) = getline CHR '':'' renderer;
          (port_str, rest') = getline CHR '':'' rest
      in bindE (stoi port_str) (\<lambda>port. Inr (ip, word_of_int port)))"

text \<open>
  What one attempt meets: \<open>socket\<close> fails, \<open>connect\<close> fails, or a connection with its scripts.
\<close>

datatype attempt =
    SocketFails
  | ConnectFails
  | Connects "send_event list" "recv_event list" "(bool \<times> u64 \<times> (server_state \<Rightarrow> server_state)) list"

record manager =
  error_times :: int
  open_fds :: nat
  attempted :: "(u32 \<times> u16) list"
  failures_logged :: nat

definition manager_start :: manager where
  "manager_start = \<lparr>error_times = 0, open_fds = 0, attempted = [], failures_logged = 0\<rparr>"

text \<open>
  One round; \<open>inet_addr\<close> is a parameter. \<open>attempted\<close> records the socket addresses given to
  \<open>connect\<close>, \<open>failures_logged\<close> counts the error messages about failed connections, and \<open>open_fds\<close>
  the sockets of this thread that are open: the client thread closes its socket, a failed
  \<open>connect\<close> does not.
\<close>

definition socket_manage_round ::
  "client_env \<Rightarrow> (string \<Rightarrow> u32) \<Rightarrow> string \<Rightarrow> attempt \<Rightarrow> manager \<times> server_state \<Rightarrow>
   (manager \<times> server_state) round" where
  "socket_manage_round env inet_addr renderer att = (\<lambda>(m, s).
     (case parse_renderer renderer of
        Inl e \<Rightarrow> Throws e (m, s)
      | Inr (ip, port) \<Rightarrow>
          (let m1 = m\<lparr>attempted := attempted m @ [(inet_addr ip, htons port)], open_fds := Suc (open_fds m)\<rparr>
           in case att of
                SocketFails \<Rightarrow> Next (m, s)
              | ConnectFails \<Rightarrow>
                  (let n = error_times m + 1
                   in if n > 30
                      then Next (m1\<lparr>error_times := 0, failures_logged := Suc (failures_logged m)\<rparr>, s)
                      else Next (m1\<lparr>error_times := n\<rparr>, s))
              | Connects outs evs script \<Rightarrow>
                  (case socket_client_thread env script (client_start outs evs, s) of
                     Exit (c, s') \<Rightarrow> Next (m1\<lparr>error_times := 0, open_fds := open_fds m\<rparr>, s')
                   | Throws e (c, s') \<Rightarrow> Throws e (m1, s')
                   | _ \<Rightarrow> Blocked))))"

fun socket_manage_thread ::
  "client_env \<Rightarrow> (string \<Rightarrow> u32) \<Rightarrow> string \<Rightarrow> (bool \<times> attempt) list \<Rightarrow> manager \<times> server_state \<Rightarrow>
   (manager \<times> server_state) round" where
  "socket_manage_thread env inet_addr renderer [] ms = Blocked"
| "socket_manage_thread env inet_addr renderer ((shutdown_requested, att) # script) ms =
     (if shutdown_requested then Exit ms
      else (case socket_manage_round env inet_addr renderer att ms of
              Next ms' \<Rightarrow> socket_manage_thread env inet_addr renderer script ms'
            | r \<Rightarrow> r))"

lemmas server_thread_defs [op_defs] =
  fetch_is_left_def fetch_frame_index_def make_request_def push_frame_def enqueue_frame_def client_stats_def
  socket_client_round_def socket_manage_round_def parse_renderer_def

section \<open>Lemmas\<close>

definition same_counters :: "server_state \<Rightarrow> server_state \<Rightarrow> bool" where
  "same_counters s s' = (sv_is_left s' = sv_is_left s \<and> frame_index_left s' = frame_index_left s
     \<and> frame_index_right s' = frame_index_right s)"

definition eye_queue :: "bool \<Rightarrow> server_state \<Rightarrow> RenderedFrame FrameQueue" where
  "eye_queue b s = (if b then frame_queue_left s else frame_queue_right s)"

text \<open>What queueing a response does, with room in the queue and without.\<close>

definition enqueued :: "client_env \<Rightarrow> FrameResponse \<Rightarrow> server_state \<Rightarrow> server_state \<Rightarrow> bool" where
  "enqueued env frame s s' =
     (let b = resp_is_left frame; cs = m_codecs (cameramgr s) in
      same_counters s s' \<and> cameramgr s' = cameramgr s \<and> heap_ok (sv_heap s')
      \<and> eye_queue (\<not> b) s' = eye_queue (\<not> b) s
      \<and> (if length (m_queue (eye_queue b s)) < kFrameQueueMaxSize
         then \<exists>f. m_queue (eye_queue b s') = m_queue (eye_queue b s) @ [f]
           \<and> m_frame_response f = frame \<and> \<not> m_converted f \<and> frame_wf (sv_heap s') f
           \<and> m_context (m_converted_avframe_scene f) = FrameContext_of (m_info (ctxmgr_scene env cs))
           \<and> cells (sv_heap s') |` (- set (owned f)) = cells (sv_heap s)
         else eye_queue b s' = eye_queue b s \<and> cells (sv_heap s') = cells (sv_heap s)))"

lemma enqueue_frame_outcome:
  assumes "heap_ok (sv_heap s)"
  shows "\<exists>s'. enqueue_frame env frame s = Inr s' \<and> enqueued env frame s s'"
proof -
  let ?cs = "m_codecs (cameramgr s)"
  obtain f h where n: "RenderedFrame_new (av env) frame AV_PIX_FMT_RGB24 AV_PIX_FMT_GRAY8
      (m_info (ctxmgr_scene env ?cs)) (m_info (ctxmgr_depth env ?cs)) (sv_heap s) = (f, h)" by fastforce
  note wf = RenderedFrame_new_wf[OF assms n]
  obtain h' where d: "RenderedFrame_delete f h = Inr h'" "heap_ok h'" "cells h' = cells (sv_heap s)"
    using RenderedFrame_delete_owned[of h f] wf by auto
  have l: "frame_is_left f = resp_is_left frame" using wf by (simp add: frame_is_left_def)
  show ?thesis
    using wf d l n
    by (auto simp: enqueue_frame_def push_frame_def enqueued_def FrameQueue_push_def eye_queue_def same_counters_def
        Let_def)
qed

text \<open>The ticket the next round draws, and the shared state after it.\<close>

definition next_request :: "server_state \<Rightarrow> FrameRequest" where
  "next_request s =
     make_request (sv_is_left s \<noteq> 0) (fst (fetch_frame_index (sv_is_left s \<noteq> 0) s)) (cameramgr s)"

definition after_ticket :: "server_state \<Rightarrow> server_state" where
  "after_ticket s = snd (fetch_frame_index (sv_is_left s \<noteq> 0) (snd (fetch_is_left s)))"

lemma after_ticket_rest [simp]:
  "cameramgr (after_ticket s) = cameramgr s" "sv_heap (after_ticket s) = sv_heap s"
  "eye_queue b (after_ticket s) = eye_queue b s"
  by (simp_all add: after_ticket_def fetch_frame_index_def fetch_is_left_def eye_queue_def)

lemma client_round_unfold:
  assumes "\<not> c_ret c < 0"
    and "socket_send_blocking_lpf (serialize env (next_request s)) (c_outs c) = Some (ret, wire, outs)"
  shows "socket_client_round env ms (c, s) =
    (let c1 = c\<lparr>c_ret := ret, c_outs := outs, c_wire := c_wire c @ wire\<rparr>
     in if ret < 0 then Next (c1, after_ticket s)
        else case socket_receive_blocking_lpf (alloc_ok env) (c_evs c) of
               None \<Rightarrow> Blocked
             | Some (Inl (RuntimeError msg), evs) \<Rightarrow> Next (c1\<lparr>c_evs := evs\<rparr>, after_ticket s)
             | Some (Inl e, evs) \<Rightarrow> Throws e (c1\<lparr>c_evs := evs\<rparr>, after_ticket s)
             | Some (Inr bytes, evs) \<Rightarrow>
                 (case parse_frame env bytes of
                    None \<Rightarrow> Next (c1\<lparr>c_evs := evs\<rparr>, after_ticket s)
                  | Some frame \<Rightarrow>
                      (case enqueue_frame env frame (after_ticket s) of
                         Inl e \<Rightarrow> Throws e (client_stats ms (c1\<lparr>c_evs := evs\<rparr>), after_ticket s)
                       | Inr s3 \<Rightarrow> Next (client_stats ms (c1\<lparr>c_evs := evs\<rparr>), s3))))"
proof -
  have b: "fetch_is_left s = (sv_is_left s \<noteq> 0, snd (fetch_is_left s))" by (simp add: fetch_is_left_def)
  have i: "fetch_frame_index (sv_is_left s \<noteq> 0) (snd (fetch_is_left s)) =
      (fst (fetch_frame_index (sv_is_left s \<noteq> 0) s), after_ticket s)"
    by (simp add: after_ticket_def fetch_frame_index_def fetch_is_left_def)
  have r: "make_request (sv_is_left s \<noteq> 0) (fst (fetch_frame_index (sv_is_left s \<noteq> 0) s))
      (cameramgr s) = next_request s" by (simp add: next_request_def)
  show ?thesis
    using assms unfolding socket_client_round_def
    by (subst (1) split, subst b, simp only: if_False Let_def split, subst i, simp add: r Let_def)
qed

lemma client_stats_simps [simp]:
  "c_ret (client_stats ms c) = c_ret c" "c_wire (client_stats ms c) = c_wire c"
  "c_open (client_stats ms c) = c_open c" "c_evs (client_stats ms c) = c_evs c"
  "c_outs (client_stats ms c) = c_outs c"
  by (simp_all add: client_stats_def Let_def)

section \<open>Properties\<close>

text \<open>
  C26. A round that gets an answer: the framed request on the wire carries the eye, the index
  and the camera of the ticket just drawn; the frame received goes to the back of the queue of
  the eye the renderer names in the response, with the index and the image it sent; when that
  queue is full the frame is dropped and all its memory released. Nothing compares the
  response with the request.
\<close>

theorem client_round_delivers:
  assumes "0 \<le> c_ret c" and "heap_ok (sv_heap s)"
    and "socket_send_blocking_lpf (serialize env (next_request s)) (c_outs c) = Some (0, wire, outs)"
    and "socket_receive_blocking_lpf (alloc_ok env) (c_evs c) = Some (Inr bytes, evs)"
    and "parse_frame env bytes = Some frame"
  shows "\<exists>c' s'. socket_client_round env ms (c, s) = Next (c', s') \<and> c_ret c' = 0
    \<and> c_wire c' = c_wire c @ lpf_frame (serialize env (next_request s)) \<and> c_evs c' = evs
    \<and> enqueued env frame (after_ticket s) s'"
proof -
  have nn: "\<not> c_ret c < 0" using assms(1) by simp
  have w: "wire = lpf_frame (serialize env (next_request s))" using send_lpf_outcome[OF assms(3)] by simp
  obtain s' where s': "enqueue_frame env frame (after_ticket s) = Inr s'" "enqueued env frame (after_ticket s) s'"
    using enqueue_frame_outcome[of "after_ticket s" env frame] assms(2) by auto
  then show ?thesis
    using assms(4,5) w by (simp add: client_round_unfold[OF nn assms(3)] Let_def)
qed

definition demo_server :: server_state where
  "demo_server = \<lparr>sv_is_left = 0, frame_index_left = 0, frame_index_right = 0, cameramgr = demo_manager,
     frame_queue_left = FrameQueue_new, frame_queue_right = FrameQueue_new, sv_heap = heap_empty\<rparr>"

definition demo_client_env :: client_env where
  "demo_client_env = \<lparr>serialize = (\<lambda>r. [ucast (req_index r), if req_is_left r then 1 else 0]),
     parse_frame = (\<lambda>bs. Some demo_response), alloc_ok = (\<lambda>n. n \<le> 1000), av = demo_av,
     ctxmgr_scene = scene_left, ctxmgr_depth = depth_left\<rparr>"

lemma demo_exchange:
  "\<exists>outs. socket_send_blocking_lpf (serialize demo_client_env (next_request demo_server)) [Room 10, Room 10]
     = Some (0, lpf_frame [0, 0], outs)"
  "\<exists>evs. socket_receive_blocking_lpf (alloc_ok demo_client_env) [Seg [1, 0, 0, 0, 0, 0, 0, 0, 9]] = Some (Inr [9], evs)"
proof -
  have r: "serialize demo_client_env (next_request demo_server) = [0, 0]"
    by (simp add: demo_client_env_def next_request_def make_request_def fetch_frame_index_def demo_server_def)
  have p: "size_bytes 2 = [2, 0, 0, 0, 0, 0, 0, 0]" "size_bytes 1 = [1, 0, 0, 0, 0, 0, 0, 0]"
    by (simp_all add: size_bytes_def upt_rec drop_bit_eq_div)
  show "\<exists>outs. socket_send_blocking_lpf (serialize demo_client_env (next_request demo_server)) [Room 10, Room 10]
     = Some (0, lpf_frame [0, 0], outs)"
    unfolding r by (simp add: socket_send_blocking_lpf_def socket_send_blocking_def lpf_frame_def p)
  show "\<exists>evs. socket_receive_blocking_lpf (alloc_ok demo_client_env) [Seg [1, 0, 0, 0, 0, 0, 0, 0, 9]] = Some (Inr [9], evs)"
    using receive_lpf_completes[of "[Seg [1, 0, 0, 0, 0, 0, 0, 0, 9]]" "[9]" "[]" "alloc_ok demo_client_env"]
    by (auto simp: lpf_frame_def p demo_client_env_def)
qed

theorem client_round_delivers_witness:
  "\<exists>c' s'. socket_client_round demo_client_env 3
      (client_start [Room 10, Room 10] [Seg [1, 0, 0, 0, 0, 0, 0, 0, 9]], demo_server) = Next (c', s')
    \<and> c_wire c' = lpf_frame [0, 0] \<and> (\<exists>f. m_queue (frame_queue_left s') = [f] \<and> frame_index f = 7)"
proof -
  let ?c = "client_start [Room 10, Room 10] [Seg [1, 0, 0, 0, 0, 0, 0, 0, 9]]"
  obtain outs evs where
    e: "socket_send_blocking_lpf (serialize demo_client_env (next_request demo_server)) (c_outs ?c)
      = Some (0, lpf_frame [0, 0], outs)"
    "socket_receive_blocking_lpf (alloc_ok demo_client_env) (c_evs ?c) = Some (Inr [9], evs)"
    using demo_exchange by (auto simp: client_start_def)
  have "\<exists>c' s'. socket_client_round demo_client_env 3 (?c, demo_server) = Next (c', s') \<and> c_ret c' = 0
    \<and> c_wire c' = c_wire ?c @ lpf_frame (serialize demo_client_env (next_request demo_server)) \<and> c_evs c' = evs
    \<and> enqueued demo_client_env demo_response (after_ticket demo_server) s'"
    by (rule client_round_delivers[OF _ _ e]) (simp_all add: client_start_def demo_server_def demo_client_env_def)
  then show ?thesis
    using send_lpf_outcome[OF e(1)]
    by (auto simp: enqueued_def demo_response_def demo_server_def client_start_def eye_queue_def
        FrameQueue_new_def kFrameQueueMaxSize_def frame_index_def after_ticket_def fetch_is_left_def
        fetch_frame_index_def)
qed

text \<open>
  C28. A round that fails still uses up its ticket, and how it fails decides what follows: after
  a failed send the return code is kept, so that the next round leaves the loop; after a
  \<open>std::runtime_error\<close> from the reception, or a response that does not parse, the return code is
  0 and the loop goes on; \<open>std::bad_alloc\<close> is not caught and leaves the thread.
\<close>

theorem client_round_failures:
  assumes "0 \<le> c_ret c"
    and "socket_send_blocking_lpf (serialize env (next_request s)) (c_outs c) = Some (ret, wire, outs)"
    and "c1 = c\<lparr>c_ret := ret, c_outs := outs, c_wire := c_wire c @ wire\<rparr>"
    and "received = socket_receive_blocking_lpf (alloc_ok env) (c_evs c)"
  shows "(ret \<noteq> 0 \<longrightarrow> ret < 0 \<and> socket_client_round env ms (c, s) = Next (c1, after_ticket s)
      \<and> (\<forall>ms' s'. socket_client_round env ms' (c1, s') = Exit (c1, s')))
   \<and> (ret = 0 \<longrightarrow>
      (\<forall>msg evs. received = Some (Inl (RuntimeError msg), evs) \<longrightarrow>
         socket_client_round env ms (c, s) = Next (c1\<lparr>c_evs := evs\<rparr>, after_ticket s))
      \<and> (\<forall>bytes evs. received = Some (Inr bytes, evs) \<and> parse_frame env bytes = None \<longrightarrow>
         socket_client_round env ms (c, s) = Next (c1\<lparr>c_evs := evs\<rparr>, after_ticket s))
      \<and> (\<forall>evs. received = Some (Inl BadAlloc, evs) \<longrightarrow>
         socket_client_round env ms (c, s) = Throws BadAlloc (c1\<lparr>c_evs := evs\<rparr>, after_ticket s)))"
proof -
  have nn: "\<not> c_ret c < 0" using assms(1) by simp
  have r: "ret = 0 \<or> ret < 0" using send_lpf_outcome[OF assms(2)] by auto
  have exit: "ret < 0 \<Longrightarrow> socket_client_round env ms' (c1, s') = Exit (c1, s')" for ms' s'
    by (simp add: socket_client_round_def assms(3))
  show ?thesis
    using r exit by (auto simp: client_round_unfold[OF nn assms(2)] assms(3,4) Let_def)
qed

theorem client_round_failures_witness:
  "socket_client_round demo_client_env 3 (client_start [SendFail (num_of_nat 32) (num_of_nat 32)] [], demo_server) =
     Next ((client_start [SendFail (num_of_nat 32) (num_of_nat 32)] [])\<lparr>c_ret := -32, c_outs := []\<rparr>, after_ticket demo_server)"
proof -
  let ?c = "client_start [SendFail (num_of_nat 32) (num_of_nat 32)] []"
  have n: "num_of_nat 32 \<noteq> EAGAIN" "numeral (num_of_nat 32) = (32 :: int)" by (simp_all add: EAGAIN_def num_of_nat_numeral_eq)
  have "socket_send_blocking_lpf (serialize demo_client_env (next_request demo_server)) (c_outs ?c) = Some (-32, [], [])"
    using n by (simp add: socket_send_blocking_lpf_def socket_send_blocking_def client_start_def)
  from client_round_failures[OF _ this refl refl] show ?thesis by (simp add: client_start_def)
qed

lemma client_stats_count: "unat (c_count c) < 100 \<Longrightarrow> unat (c_count (client_stats ms c)) < 100"
proof -
  assume lt: "unat (c_count c) < 100"
  have "unat (c_count c + 1) = unat (c_count c) + 1" using lt by (simp add: unat_word_ariths)
  moreover have "c_count c + 1 \<noteq> 100 \<Longrightarrow> unat (c_count c + 1) \<noteq> 100"
    by (simp add: word_unat_eq_iff)
  ultimately show ?thesis
    using lt by (auto simp: client_stats_def Let_def kLogStatsIntervalFrame_def)
qed

lemma client_round_count:
  assumes "socket_client_round env ms (c, s) = Next (c', s') \<or> socket_client_round env ms (c, s) = Exit (c', s')"
  shows "c_open c' = c_open c \<and> (unat (c_count c) < 100 \<longrightarrow> unat (c_count c') < 100)"
  using assms client_stats_count
  by (auto simp: socket_client_round_def Let_def split_beta
      split: if_splits option.splits sum.splits error.splits)

text \<open>
  The end of a client thread. At a loop test that sees the shutdown flag, or that comes
  after a failed send, the thread returns without another round. A thread that returns has
  closed its socket, whatever it went through, and its frame counter has stayed below the
  logging interval.
\<close>

lemma client_thread_ends:
  "(c_ret c < 0 \<or> shutdown_requested \<longrightarrow>
      socket_client_thread env ((shutdown_requested, ms, others) # script) (c, s)
        = Exit (c\<lparr>c_open := False\<rparr>, others s))
   \<and> (socket_client_thread env script (c, s) = Exit (c', s') \<longrightarrow>
        \<not> c_open c' \<and> (unat (c_count c) < 100 \<longrightarrow> unat (c_count c') < 100))"
proof (intro conjI impI)
  show "socket_client_thread env ((shutdown_requested, ms, others) # script) (c, s) = Exit (c\<lparr>c_open := False\<rparr>, others s)"
    if "c_ret c < 0 \<or> shutdown_requested"
    using that by (cases "c_ret c < 0"; cases shutdown_requested) (simp_all add: Let_def socket_client_round_def)
  assume "socket_client_thread env script (c, s) = Exit (c', s')"
  then have "\<not> c_open c' \<and> (unat (c_count c) < 100 \<longrightarrow> unat (c_count c') < 100)"
  proof (induction env script "(c, s)" arbitrary: c s rule: socket_client_thread.induct)
    case (2 env sd ms others script c s)
    show ?case
    proof (cases "socket_client_round env ms (c, others s)")
      case (Next cs)
      obtain d t where cs: "cs = (d, t)" by fastforce
      then show ?thesis
        using 2 Next client_round_count[of env ms c "others s" d t] by (auto simp: Let_def split: if_splits)
    next
      case (Exit cs)
      obtain d t where cs: "cs = (d, t)" by fastforce
      then show ?thesis
        using 2 Exit client_round_count[of env ms c "others s" d t] by (auto simp: Let_def split: if_splits)
    qed (use 2 in \<open>auto simp: Let_def split: if_splits\<close>)
  qed simp
  then show "\<not> c_open c'" "unat (c_count c) < 100 \<Longrightarrow> unat (c_count c') < 100" by blast+
qed

lemma parse_renderer_show:
  assumes "CHR '':'' \<notin> set ip" and "n \<le> 2147483647"
  shows "parse_renderer (ip @ '':'' @ show_nat n) = Inr (ip, of_nat n)"
proof -
  have d: "takeWhile (\<lambda>c. c \<noteq> CHR '':'') (show_nat n) = show_nat n"
    using show_nat_digits isdigit_not_space by (auto simp: takeWhile_eq_all_conv)
  have t: "takeWhile (\<lambda>c. c \<noteq> CHR '':'') (ip @ CHR '':'' # show_nat n) = ip"
    "dropWhile (\<lambda>c. c \<noteq> CHR '':'') (ip @ CHR '':'' # show_nat n) = CHR '':'' # show_nat n"
    using assms(1) by (auto simp: takeWhile_append dropWhile_append)
  show ?thesis
    using stoi_show_nat[OF assms(2)] by (simp add: parse_renderer_def getline_def t d)
qed

lemma parse_renderer_no_port:
  assumes "CHR '':'' \<notin> set ip"
  shows "parse_renderer ip = Inl (InvalidArgument ''stoi'')"
proof -
  have i: "takeWhile (\<lambda>c. c \<noteq> CHR '':'') ip = ip" "dropWhile (\<lambda>c. c \<noteq> CHR '':'') ip = []"
    using assms by (auto simp: takeWhile_eq_all_conv dropWhile_eq_Nil_conv)
  show ?thesis by (simp add: parse_renderer_def getline_def stoi_def i)
qed

text \<open>
  C30. Renderer addresses. An address written as \<open>ip:port\<close> is parsed into just these two parts; a
  number beyond 65535 is reduced modulo 65536, since the conversion to \<open>uint16_t\<close> is not checked;
  and an address without a port makes \<open>std::stoi\<close> throw, which leaves the managing thread.
\<close>

theorem parse_renderer_roundtrip:
  assumes "CHR '':'' \<notin> set ip" and "n \<le> 2147483647"
  shows "parse_renderer (ip @ '':'' @ show_nat n) = Inr (ip, of_nat n)
    \<and> (\<forall>att m s. socket_manage_round env inet ip att (m, s) = Throws (InvalidArgument ''stoi'') (m, s))"
  using parse_renderer_show[OF assms] parse_renderer_no_port[OF assms(1)]
  by (simp add: socket_manage_round_def)

theorem parse_renderer_roundtrip_witness:
  "parse_renderer (''10.0.0.7'' @ '':'' @ show_nat 74527) = Inr (''10.0.0.7'', 8991)"
  using parse_renderer_roundtrip[of "''10.0.0.7''" 74527] by simp

definition connect_failures :: "(bool \<times> attempt) list \<Rightarrow> int" where
  "connect_failures script = int (length (filter (\<lambda>(sd, att). att = ConnectFails) script))"

lemma connect_failures_simps [simp]:
  "connect_failures [] = 0"
  "connect_failures ((sd, att) # script) = (if att = ConnectFails then 1 else 0) + connect_failures script"
  by (simp_all add: connect_failures_def)

lemma manage_round_inv:
  assumes "socket_manage_round env inet renderer att (m, s) = Next (m', s')"
    and "0 \<le> error_times m" "error_times m \<le> 30"
  shows "0 \<le> error_times m' \<and> error_times m' \<le> 30
    \<and> (\<exists>ip port. parse_renderer renderer = Inr (ip, port)
        \<and> set (attempted m') \<subseteq> insert (inet ip, htons port) (set (attempted m)))
    \<and> 31 * int (failures_logged m') + error_times m' \<le>
        31 * int (failures_logged m) + error_times m + (if att = ConnectFails then 1 else 0)
    \<and> open_fds m' = open_fds m + (if att = ConnectFails then 1 else 0)"
  using assms
  by (auto simp: socket_manage_round_def Let_def split: sum.splits attempt.splits round.splits if_splits)

lemma manage_thread_inv:
  assumes "socket_manage_thread env inet renderer script (m, s) = Exit (m', s')"
    and "0 \<le> error_times m" "error_times m \<le> 30"
    and "\<forall>a \<in> set (attempted m). \<exists>ip port. parse_renderer renderer = Inr (ip, port) \<and> a = (inet ip, htons port)"
  shows "0 \<le> error_times m' \<and> error_times m' \<le> 30
    \<and> (\<forall>a \<in> set (attempted m'). \<exists>ip port. parse_renderer renderer = Inr (ip, port) \<and> a = (inet ip, htons port))
    \<and> 31 * int (failures_logged m') + error_times m' \<le>
        31 * int (failures_logged m) + error_times m + connect_failures script
    \<and> int (open_fds m') = int (open_fds m) + connect_failures (takeWhile (\<lambda>e. \<not> fst e) script)"
  using assms
proof (induction script arbitrary: m s)
  case (Cons e script)
  obtain sd att where e: "e = (sd, att)" by fastforce
  show ?case
  proof (cases sd)
    case True
    then show ?thesis using Cons.prems e by (simp add: connect_failures_def)
  next
    case False
    then obtain n t where n: "socket_manage_round env inet renderer att (m, s) = Next (n, t)"
      and rest: "socket_manage_thread env inet renderer script (n, t) = Exit (m', s')"
      using Cons.prems(1) e
      by (cases "socket_manage_round env inet renderer att (m, s)")
        (auto simp: socket_manage_round_def Let_def split: sum.splits attempt.splits round.splits if_splits)
    note inv = manage_round_inv[OF n Cons.prems(2,3)]
    have att': "\<forall>a \<in> set (attempted n). \<exists>ip port. parse_renderer renderer = Inr (ip, port) \<and> a = (inet ip, htons port)"
      using inv Cons.prems(4) by blast
    show ?thesis using Cons.IH[OF rest _ _ att'] inv e False by simp
  qed
qed simp

text \<open>
  The managing thread keeps its failure counter between 0 and 30, reports failed
  connections at most once per 31 failures, and only ever tries one address: the parsed ip
  with the port in network byte order. Every failed connection leaves a socket open.
\<close>

lemma manage_thread_attempts:
  assumes "socket_manage_thread env inet renderer script (manager_start, s) = Exit (m', s')"
  shows "0 \<le> error_times m' \<and> error_times m' \<le> 30
    \<and> 31 * int (failures_logged m') \<le> connect_failures script
    \<and> int (open_fds m') = connect_failures (takeWhile (\<lambda>e. \<not> fst e) script)
    \<and> (\<forall>a \<in> set (attempted m'). \<exists>ip port. parse_renderer renderer = Inr (ip, port) \<and> a = (inet ip, htons port))"
  using manage_thread_inv[OF assms] by (simp add: manager_start_def)

end
