(* ===== verification/Tickets.thy ===== *)
theory Tickets
  imports Server_Threads
begin

unbundle bit_operations_syntax

text \<open>
  The request tickets of the client threads. Each round of \<open>socket_client_thread\<close> performs two
  atomic operations on shared counters, \<open>is_left.fetch_xor(true)\<close> and then the
  \<open>fetch_add(1)\<close> on the frame index of the eye it got. The threads of all renderers interleave
  between the two; this theory shows what the indices handed out look like all the same.
\<close>

section \<open>Interleaving\<close>

datatype client_pc = AtTop | HasEye bool | HasTicket bool u64

text \<open>\<open>tk_eyes\<close> and \<open>tk_given\<close> record the results of the two operations, in order.\<close>

record ticket_sys =
  tk_srv :: server_state
  tk_pc :: "nat \<Rightarrow> client_pc"
  tk_eyes :: "bool list"
  tk_given :: "(bool \<times> u64) list"

definition index_of_eye :: "bool \<Rightarrow> server_state \<Rightarrow> u64" where
  "index_of_eye b s = (if b then frame_index_left s else frame_index_right s)"

definition ticket_start :: "ticket_sys \<Rightarrow> bool" where
  "ticket_start x = (sv_is_left (tk_srv x) = 0 \<and> frame_index_left (tk_srv x) = 0
     \<and> frame_index_right (tk_srv x) = 0 \<and> tk_pc x = (\<lambda>_. AtTop) \<and> tk_eyes x = [] \<and> tk_given x = [])"

inductive ticket_step :: "ticket_sys \<Rightarrow> ticket_sys \<Rightarrow> bool" where
  toss: "tk_pc x t = AtTop \<or> (\<exists>b i. tk_pc x t = HasTicket b i) \<Longrightarrow>
    fetch_is_left (tk_srv x) = (b, s') \<Longrightarrow>
    ticket_step x (x\<lparr>tk_srv := s', tk_pc := (tk_pc x)(t := HasEye b), tk_eyes := tk_eyes x @ [b]\<rparr>)"
| draw: "tk_pc x t = HasEye b \<Longrightarrow> fetch_frame_index b (tk_srv x) = (i, s') \<Longrightarrow>
    ticket_step x (x\<lparr>tk_srv := s', tk_pc := (tk_pc x)(t := HasTicket b i),
      tk_given := tk_given x @ [(b, i)]\<rparr>)"
| other: "same_counters (tk_srv x) s' \<Longrightarrow> ticket_step x (x\<lparr>tk_srv := s'\<rparr>)"

definition ticket_reach :: "ticket_sys \<Rightarrow> bool" where
  "ticket_reach = reach ticket_start ticket_step"

text \<open>The indices given out for one eye, in order, and the threads about to draw one.\<close>

definition eye_tickets :: "bool \<Rightarrow> ticket_sys \<Rightarrow> u64 list" where
  "eye_tickets b x = map snd (filter (\<lambda>p. fst p = b) (tk_given x))"

definition drawing :: "bool \<Rightarrow> ticket_sys \<Rightarrow> nat set" where
  "drawing b x = {t. tk_pc x t = HasEye b}"

section \<open>The invariant\<close>

definition tickets_inv :: "ticket_sys \<Rightarrow> bool" where
  "tickets_inv x =
     (tk_eyes x = map odd [0..<length (tk_eyes x)]
      \<and> sv_is_left (tk_srv x) = int (length (tk_eyes x) mod 2)
      \<and> (\<forall>b. eye_tickets b x = map of_nat [0..<length (eye_tickets b x)]
           \<and> index_of_eye b (tk_srv x) = of_nat (length (eye_tickets b x))
           \<and> finite (drawing b x)
           \<and> count_list (tk_eyes x) b = length (eye_tickets b x) + card (drawing b x)))"

lemma xor_one_parity: "int (n mod 2) XOR 1 = int (Suc n mod 2)"
  by (cases "even n") (simp_all add: even_iff_mod_2_eq_zero odd_iff_mod_2_eq_one mod_Suc)

lemma eye_tickets_upd [simp]:
  "eye_tickets b (x\<lparr>tk_srv := s\<rparr>) = eye_tickets b x"
  "eye_tickets b (x\<lparr>tk_srv := s, tk_pc := pc, tk_eyes := es\<rparr>) = eye_tickets b x"
  "eye_tickets b (x\<lparr>tk_srv := s, tk_pc := pc, tk_given := tk_given x @ [(c, i)]\<rparr>) =
     eye_tickets b x @ (if c = b then [i] else [])"
  by (simp_all add: eye_tickets_def)

lemma drawing_toss:
  assumes "\<And>b. tk_pc x t \<noteq> HasEye b"
  shows "drawing b (x\<lparr>tk_srv := s, tk_pc := (tk_pc x)(t := HasEye c), tk_eyes := es\<rparr>) =
      (if c = b then insert t (drawing b x) else drawing b x)"
    and "t \<notin> drawing b x"
  using assms by (auto simp: drawing_def)

lemma drawing_draw:
  assumes "tk_pc x t = HasEye c"
  shows "drawing b (x\<lparr>tk_srv := s, tk_pc := (tk_pc x)(t := HasTicket c i), tk_given := gs\<rparr>) =
      (if c = b then drawing b x - {t} else drawing b x)"
    and "t \<in> drawing c x"
  using assms by (auto simp: drawing_def)

lemma index_of_eye_simps [simp]:
  "index_of_eye b (s\<lparr>sv_is_left := v\<rparr>) = index_of_eye b s"
  "same_counters s s' \<Longrightarrow> index_of_eye b s' = index_of_eye b s"
  by (simp_all add: index_of_eye_def same_counters_def)

lemma drawing_other [simp]: "drawing b (x\<lparr>tk_srv := s\<rparr>) = drawing b x"
  by (simp add: drawing_def)

lemma tickets_inv_step:
  assumes "tickets_inv x" "ticket_step x y"
  shows "tickets_inv y"
  using assms(2,1)
proof (cases rule: ticket_step.cases)
  case (toss t b s')
  let ?n = "length (tk_eyes x)"
  have ne: "tk_pc x t \<noteq> HasEye c" for c using toss(2) by auto
  have s': "b = odd ?n" "s' = (tk_srv x)\<lparr>sv_is_left := int (Suc ?n mod 2)\<rparr>"
    using toss(3) assms(1)
    by (auto simp: fetch_is_left_def tickets_inv_def xor_one_parity odd_iff_mod_2_eq_one)
  have "tk_eyes x @ [b] = map odd [0..<Suc ?n]"
    using assms(1) s'(1) by (simp add: tickets_inv_def)
  then show ?thesis
    using assms(1) s' drawing_toss[OF ne] unfolding toss(1) tickets_inv_def
    by auto
next
  case (draw t b i s')
  have s': "i = index_of_eye b (tk_srv x)" "sv_is_left s' = sv_is_left (tk_srv x)"
    "index_of_eye c s' = (if c = b then i + 1 else index_of_eye c (tk_srv x))" for c
    using draw(3) by (auto simp: fetch_frame_index_def index_of_eye_def split: if_splits)
  have "card (drawing b x) = Suc (card (drawing b x - {t}))"
    using assms(1) drawing_draw(2)[OF draw(2)] by (metis card_Suc_Diff1 tickets_inv_def)
  then show ?thesis
    using assms(1) s' drawing_draw(1)[OF draw(2)] unfolding draw(1) tickets_inv_def
    by (auto simp: add.commute)
next
  case (other s')
  then show ?thesis
    using assms(1) by (auto simp: tickets_inv_def) (simp add: same_counters_def)
qed

lemma tickets_inv_start: "ticket_start x \<Longrightarrow> tickets_inv x"
  by (simp add: ticket_start_def tickets_inv_def eye_tickets_def drawing_def index_of_eye_def)

interpretation tickets: step_invariant ticket_start ticket_step tickets_inv
  by unfold_locales (blast intro: tickets_inv_start tickets_inv_step)+

lemma count_odd: "count_list (map odd [0..<n]) b = (if b then n div 2 else n - n div 2)"
proof (induction n)
  case (Suc n)
  then show ?case by (cases "odd n") (auto simp: Suc_diff_le)
qed simp

lemma distinct_of_nat: "n \<le> 2 ^ 64 \<Longrightarrow> distinct (map (of_nat :: nat \<Rightarrow> u64) [0..<n])"
  by (auto simp: distinct_map inj_on_def word_of_nat_eq_iff take_bit_nat_eq_self)

section \<open>Properties\<close>

text \<open>
  C25. However the rounds of the client threads of all renderers interleave: the eyes are
  served in turn, beginning with the right one; the indices drawn for an eye are 0, 1, 2 and
  so on without gap, in the order in which they are drawn, and all different before the
  64-bit counter wraps; and no more indices are drawn for an eye than it was served, the
  difference being the threads between the two atomic operations.
\<close>

theorem ticket_indices:
  assumes "ticket_reach x"
  shows "tk_eyes x = map odd [0..<length (tk_eyes x)]
    \<and> (\<forall>b. eye_tickets b x = map of_nat [0..<length (eye_tickets b x)]
         \<and> (length (eye_tickets b x) \<le> 2 ^ 64 \<longrightarrow> distinct (eye_tickets b x))
         \<and> length (eye_tickets b x) + card (drawing b x) =
             (if b then length (tk_eyes x) div 2 else length (tk_eyes x) - length (tk_eyes x) div 2))"
proof -
  have inv: "tickets_inv x" using assms tickets.inv_reach unfolding ticket_reach_def by blast
  then have eyes: "tk_eyes x = map odd [0..<length (tk_eyes x)]" by (simp add: tickets_inv_def)
  have "count_list (tk_eyes x) b =
      (if b then length (tk_eyes x) div 2 else length (tk_eyes x) - length (tk_eyes x) div 2)" for b
    by (subst eyes) (rule count_odd)
  moreover have "eye_tickets b x = map of_nat [0..<length (eye_tickets b x)]
      \<and> count_list (tk_eyes x) b = length (eye_tickets b x) + card (drawing b x)" for b
    using inv by (simp add: tickets_inv_def)
  ultimately show ?thesis
    using eyes distinct_of_nat by (metis (no_types))
qed

text \<open>One operation by a given thread, for building interleavings.\<close>

definition do_toss :: "nat \<Rightarrow> ticket_sys \<Rightarrow> ticket_sys" where
  "do_toss t x = (let (b, s') = fetch_is_left (tk_srv x)
     in x\<lparr>tk_srv := s', tk_pc := (tk_pc x)(t := HasEye b), tk_eyes := tk_eyes x @ [b]\<rparr>)"

definition do_draw :: "nat \<Rightarrow> bool \<Rightarrow> ticket_sys \<Rightarrow> ticket_sys" where
  "do_draw t b x = (let (i, s') = fetch_frame_index b (tk_srv x)
     in x\<lparr>tk_srv := s', tk_pc := (tk_pc x)(t := HasTicket b i), tk_given := tk_given x @ [(b, i)]\<rparr>)"

lemma reach_do_toss:
  assumes "ticket_reach x" "tk_pc x t = AtTop"
  shows "ticket_reach (do_toss t x)"
proof -
  have "ticket_step x (do_toss t x)"
    using ticket_step.toss[of x t "fst (fetch_is_left (tk_srv x))" "snd (fetch_is_left (tk_srv x))"] assms(2)
    by (simp add: do_toss_def split_beta)
  then show ?thesis using assms(1) unfolding ticket_reach_def by (blast intro: reach_step)
qed

lemma reach_do_draw:
  assumes "ticket_reach x" "tk_pc x t = HasEye b"
  shows "ticket_reach (do_draw t b x)"
proof -
  have "ticket_step x (do_draw t b x)"
    using ticket_step.draw[OF assms(2), of "fst (fetch_frame_index b (tk_srv x))"
        "snd (fetch_frame_index b (tk_srv x))"]
    by (simp add: do_draw_def split_beta)
  then show ?thesis using assms(1) unfolding ticket_reach_def by (blast intro: reach_step)
qed

definition demo_tickets :: ticket_sys where
  "demo_tickets = \<lparr>tk_srv = demo_server, tk_pc = \<lambda>_. AtTop, tk_eyes = [], tk_given = []\<rparr>"

definition demo_interleaved :: ticket_sys where
  "demo_interleaved = do_draw 0 False (do_draw 1 True (do_toss 2 (do_toss 1 (do_toss 0 demo_tickets))))"

lemmas demo_ticket_defs = demo_interleaved_def demo_tickets_def do_toss_def do_draw_def fetch_is_left_def
  fetch_frame_index_def demo_server_def

lemma reach_demo_interleaved: "ticket_reach demo_interleaved"
  unfolding demo_interleaved_def
proof (intro reach_do_draw reach_do_toss)
  show "ticket_reach demo_tickets"
    unfolding ticket_reach_def by (rule reach_start) (simp add: ticket_start_def demo_tickets_def demo_server_def)
qed (simp_all add: demo_tickets_def do_toss_def do_draw_def fetch_is_left_def fetch_frame_index_def demo_server_def)

theorem ticket_indices_witness:
  "tk_eyes demo_interleaved = [False, True, False] \<and> eye_tickets False demo_interleaved = [0]
   \<and> length (eye_tickets False demo_interleaved) + card (drawing False demo_interleaved) = 2"
proof -
  have e: "tk_eyes demo_interleaved = [False, True, False]" "eye_tickets False demo_interleaved = [0]"
    by (simp_all add: demo_ticket_defs eye_tickets_def)
  have "length (eye_tickets False demo_interleaved) + card (drawing False demo_interleaved)
      = length (tk_eyes demo_interleaved) - length (tk_eyes demo_interleaved) div 2"
    using ticket_indices[OF reach_demo_interleaved, THEN conjunct2, THEN spec[of _ False]] by simp
  then show ?thesis using e by simp
qed

end
