(* ===== verification/Frame_Map.thy ===== *)
theory Frame_Map
  imports Monitor "HOL-Library.Multiset"
begin

text \<open>
  \<open>FrameMap\<close> (\<open>frame_map.h\<close>, \<open>frame_map.cc\<close>): the bounded map from frame index to processed
  frame between the frame processing thread and the encoder feeding thread. As for the
  queue, the calls are given as atomic operations and as the predicates, bodies and
  notifications that the monitor interleaves.
\<close>

section \<open>State and operations\<close>

definition kFrameMapMaxSize :: nat where
  "kFrameMapMaxSize = 100"

definition kFrameMapDropFramesInterval :: u64 where
  "kFrameMapDropFramesInterval = 1000"

record 'a FrameMap =
  m_map :: "(u64 \<times> 'a) list"

definition FrameMap_new :: "'a FrameMap" where
  "FrameMap_new = \<lparr>m_map = []\<rparr>"

definition FrameMap_insert :: "u64 \<Rightarrow> 'a \<Rightarrow> 'a FrameMap \<Rightarrow> 'a FrameMap res" where
  "FrameMap_insert index item s =
     (if length (m_map s) < kFrameMapMaxSize
      then Inr (s\<lparr>m_map := map_insert index item (m_map s)\<rparr>)
      else Inl LockTimeout)"

text \<open>What \<open>get_delete\<close> leaves in the map once the requested frame is there.\<close>

definition drop_frames :: "u64 \<Rightarrow> (u64 \<times> 'a) list \<Rightarrow> (u64 \<times> 'a) list" where
  "drop_frames index xs =
     (let xs' = map_erase index xs
      in if index mod kFrameMapDropFramesInterval = 0
         then map_erase_if (\<lambda>key. key < index) xs'
         else xs')"

definition FrameMap_get_delete :: "u64 \<Rightarrow> 'a FrameMap \<Rightarrow> ('a \<times> 'a FrameMap) res" where
  "FrameMap_get_delete index s =
     (case map_of (m_map s) index of
        Some elem \<Rightarrow> Inr (elem, s\<lparr>m_map := drop_frames index (m_map s)\<rparr>)
      | None \<Rightarrow> Inl LockTimeout)"

datatype 'a map_op = Insert u64 'a | GetDelete u64

fun map_guard :: "'a map_op \<Rightarrow> 'a FrameMap \<Rightarrow> bool" where
  "map_guard (Insert index item) s = (length (m_map s) < kFrameMapMaxSize)"
| "map_guard (GetDelete index) s = map_contains (m_map s) index"

fun map_body :: "'a map_op \<Rightarrow> 'a FrameMap \<Rightarrow> 'a FrameMap \<times> 'a option" where
  "map_body (Insert index item) s = (s\<lparr>m_map := map_insert index item (m_map s)\<rparr>, None)"
| "map_body (GetDelete index) s =
     (s\<lparr>m_map := drop_frames index (m_map s)\<rparr>, map_of (m_map s) index)"

fun is_insert :: "'a map_op \<Rightarrow> bool" where
  "is_insert (Insert index item) = True"
| "is_insert (GetDelete index) = False"

text \<open>\<open>insert\<close> notifies every getter, \<open>get_delete\<close> one inserter.\<close>

fun map_wakes :: "'a map_op \<Rightarrow> wake" where
  "map_wakes (Insert index item) = WakeAll"
| "map_wakes (GetDelete index) = WakeOne"

fun map_wakeset :: "'a map_op \<Rightarrow> 'a map_op \<Rightarrow> bool" where
  "map_wakeset (Insert index item) = (\<lambda>op. \<not> is_insert op)"
| "map_wakeset (GetDelete index) = is_insert"

definition map_step ::
  "('a FrameMap, 'a map_op, 'a option) monitor \<Rightarrow>
   ('a FrameMap, 'a map_op, 'a option) monitor \<Rightarrow> bool" where
  "map_step = mon_step map_guard map_body map_wakes map_wakeset"

definition map_reach :: "('a FrameMap, 'a map_op, 'a option) monitor \<Rightarrow> bool" where
  "map_reach = reach (\<lambda>m. m = monitor_init FrameMap_new) map_step"

lemmas frame_map_defs [op_defs] =
  FrameMap_insert_def FrameMap_get_delete_def drop_frames_def kFrameMapMaxSize_def
  kFrameMapDropFramesInterval_def FrameMap_new_def

section \<open>The representation invariant and the abstract map\<close>

definition FrameMap_inv :: "'a FrameMap \<Rightarrow> bool" where
  "FrameMap_inv s = (sorted_wrt (<) (keys (m_map s)) \<and> length (m_map s) \<le> kFrameMapMaxSize)"

definition view :: "'a FrameMap \<Rightarrow> u64 \<rightharpoonup> 'a" where
  "view s = map_of (m_map s)"

lemma FrameMap_inv_new [inv_pres]: "FrameMap_inv FrameMap_new"
  by (simp add: FrameMap_inv_def FrameMap_new_def)

lemma drop_frames_sorted:
  "sorted_wrt (<) (keys xs) \<Longrightarrow> sorted_wrt (<) (keys (drop_frames k xs))"
  by (simp add: drop_frames_def map_erase_def map_erase_if_def Let_def sorted_keys_filter
      del: filter_filter)

lemma length_drop_frames: "length (drop_frames k xs) \<le> length xs"
  unfolding drop_frames_def map_erase_def map_erase_if_def Let_def
  by (auto intro: order_trans[OF length_filter_le])

lemma length_drop_frames_less: "map_contains xs k \<Longrightarrow> length (drop_frames k xs) < length xs"
  using length_map_erase_less[of xs k]
  by (auto simp: drop_frames_def map_erase_if_def Let_def
      intro: le_less_trans[OF length_filter_le])

lemma map_of_drop_frames:
  "map_of (drop_frames k xs) k' =
     (if k' = k \<or> (k mod kFrameMapDropFramesInterval = 0 \<and> k' < k) then None
      else map_of xs k')"
  by (simp add: drop_frames_def Let_def map_of_map_erase map_of_map_erase_if)

lemma mset_drop_frames: "mset (drop_frames k xs) \<subseteq># mset (map_erase k xs)"
  by (simp add: drop_frames_def Let_def map_erase_if_def)

lemma FrameMap_insert_inv [inv_pres]:
  "FrameMap_insert k v s = Inr s' \<Longrightarrow> FrameMap_inv s \<Longrightarrow> FrameMap_inv s'"
  using length_map_insert_le[of k v "m_map s"]
  by (auto simp: FrameMap_insert_def FrameMap_inv_def strict_map_insert split: if_splits)

lemma FrameMap_get_delete_inv [inv_pres]:
  "FrameMap_get_delete k s = Inr (v, s') \<Longrightarrow> FrameMap_inv s \<Longrightarrow> FrameMap_inv s'"
  using length_drop_frames[of k "m_map s"]
  by (auto simp: FrameMap_get_delete_def FrameMap_inv_def drop_frames_sorted split: option.splits)

section \<open>The interface: a bounded keyed store\<close>

text \<open>
  What the processing and the encoder feeding threads rely on. \<open>stored\<close> is the number of
  entries, \<open>lookup\<close> the abstract map.
\<close>

locale keyed_store =
  fixes ins :: "u64 \<Rightarrow> 'a \<Rightarrow> 's \<Rightarrow> 's res"
    and get :: "u64 \<Rightarrow> 's \<Rightarrow> ('a \<times> 's) res"
    and lookup :: "'s \<Rightarrow> u64 \<rightharpoonup> 'a"
    and stored :: "'s \<Rightarrow> nat"
    and cap :: nat
    and sinv :: "'s \<Rightarrow> bool"
  assumes ins_ok: "sinv s \<Longrightarrow> stored s < cap \<Longrightarrow>
      \<exists>s'. ins k v s = Inr s' \<and> sinv s' \<and>
        lookup s' = (if lookup s k = None then (lookup s)(k \<mapsto> v) else lookup s)"
    and ins_full: "\<not> stored s < cap \<Longrightarrow> ins k v s = Inl LockTimeout"
    and get_ok: "sinv s \<Longrightarrow> lookup s k = Some v \<Longrightarrow>
      \<exists>s'. get k s = Inr (v, s') \<and> sinv s' \<and> lookup s' \<subseteq>\<^sub>m lookup s \<and> lookup s' k = None"
    and get_absent: "lookup s k = None \<Longrightarrow> get k s = Inl LockTimeout"
begin

lemma ins_cases:
  assumes "sinv s"
  obtains (full) "ins k v s = Inl LockTimeout" and "\<not> stored s < cap"
  | (room) s' where "ins k v s = Inr s'" and "sinv s'" and "stored s < cap"
      and "lookup s' = (if lookup s k = None then (lookup s)(k \<mapsto> v) else lookup s)"
  using ins_ok[OF assms] ins_full by metis

lemma get_cases:
  assumes "sinv s"
  obtains (absent) "get k s = Inl LockTimeout" and "lookup s k = None"
  | (found) v s' where "get k s = Inr (v, s')" and "lookup s k = Some v" and "sinv s'"
      and "lookup s' \<subseteq>\<^sub>m lookup s" and "lookup s' k = None"
  using get_ok[OF assms, of k] get_absent[of s k] by (cases "lookup s k") auto

text \<open>A frame stored under a fresh index comes back exactly once.\<close>

lemma get_after_ins:
  assumes "sinv s" and "stored s < cap" and "lookup s k = None"
  shows "\<exists>s' s''. ins k v s = Inr s' \<and> get k s' = Inr (v, s'') \<and> get k s'' = Inl LockTimeout"
proof -
  obtain s' where s': "ins k v s = Inr s'" "sinv s'" "lookup s' = (lookup s)(k \<mapsto> v)"
    using ins_ok[OF assms(1,2), of k v] assms(3) by auto
  then obtain s'' where "get k s' = Inr (v, s'')" "lookup s'' k = None"
    using get_ok[of s' k v] by auto
  with s' show ?thesis using get_absent by blast
qed

text \<open>
  A full store whose keys all lie below an index serves no request from that index on,
  and takes no insertion: neither call can succeed, and none changes it.
\<close>

lemma stuck:
  assumes "\<not> stored s < cap" and "\<forall>k. lookup s k \<noteq> None \<longrightarrow> k < i" and "i \<le> j"
  shows "ins k v s = Inl LockTimeout \<and> get j s = Inl LockTimeout"
proof -
  have "lookup s j = None" using assms(2,3) by (meson leD)
  then show ?thesis using ins_full[OF assms(1)] get_absent by simp
qed

end

interpretation fmap: keyed_store FrameMap_insert FrameMap_get_delete view
  "\<lambda>s. length (m_map s)" kFrameMapMaxSize FrameMap_inv
proof
  fix s :: "'a FrameMap" and k v
  assume inv: "FrameMap_inv s" and room: "length (m_map s) < kFrameMapMaxSize"
  let ?s' = "s\<lparr>m_map := map_insert k v (m_map s)\<rparr>"
  have ins: "FrameMap_insert k v s = Inr ?s'" using room by (simp add: FrameMap_insert_def)
  have "view ?s' = (if view s k = None then (view s)(k \<mapsto> v) else view s)"
    using inv map_of_map_insert[of "m_map s" k v]
    by (auto simp: FrameMap_inv_def view_def split: option.splits)
  then show "\<exists>s'. FrameMap_insert k v s = Inr s' \<and> FrameMap_inv s' \<and>
      view s' = (if view s k = None then (view s)(k \<mapsto> v) else view s)"
    using ins FrameMap_insert_inv[OF ins inv] by blast
next
  fix s :: "'a FrameMap" and k v
  show "\<not> length (m_map s) < kFrameMapMaxSize \<Longrightarrow> FrameMap_insert k v s = Inl LockTimeout"
    by (simp add: FrameMap_insert_def)
next
  fix s :: "'a FrameMap" and k v
  assume inv: "FrameMap_inv s" and some: "view s k = Some v"
  let ?s' = "s\<lparr>m_map := drop_frames k (m_map s)\<rparr>"
  have get: "FrameMap_get_delete k s = Inr (v, ?s')"
    using some by (simp add: FrameMap_get_delete_def view_def)
  have "view ?s' \<subseteq>\<^sub>m view s" and "view ?s' k = None"
    by (auto simp: map_le_def view_def map_of_drop_frames dom_def split: if_splits)
  then show "\<exists>s'. FrameMap_get_delete k s = Inr (v, s') \<and> FrameMap_inv s' \<and>
      view s' \<subseteq>\<^sub>m view s \<and> view s' k = None"
    using get FrameMap_get_delete_inv[OF get inv] by blast
next
  fix s :: "'a FrameMap" and k
  show "view s k = None \<Longrightarrow> FrameMap_get_delete k s = Inl LockTimeout"
    by (simp add: FrameMap_get_delete_def view_def)
qed

section \<open>The map as a monitor\<close>

text \<open>The atomic operations are what the pieces do when nothing interleaves.\<close>

fun map_apply :: "'a map_op \<Rightarrow> 'a FrameMap \<Rightarrow> 'a FrameMap \<times> 'a option res" where
  "map_apply (Insert index item) s =
     (case FrameMap_insert index item s of Inl e \<Rightarrow> (s, Inl e) | Inr s' \<Rightarrow> (s', Inr None))"
| "map_apply (GetDelete index) s =
     (case FrameMap_get_delete index s of Inl e \<Rightarrow> (s, Inl e)
      | Inr (x, s') \<Rightarrow> (s', Inr (Some x)))"

fun map_apply_all :: "'a map_op list \<Rightarrow> 'a FrameMap \<Rightarrow> 'a FrameMap \<times> 'a option res list" where
  "map_apply_all [] s = (s, [])"
| "map_apply_all (op # ops) s =
     (let (s', r) = map_apply op s; (s'', rs) = map_apply_all ops s' in (s'', r # rs))"

lemma exec_atomic_map: "exec_atomic map_guard map_body op s = map_apply op s"
  by (cases op)
     (auto simp: exec_atomic_def FrameMap_insert_def FrameMap_get_delete_def map_contains_map_of)

lemma run_atomic_map: "run_atomic map_guard map_body ops s = map_apply_all ops s"
  by (induction ops arbitrary: s) (simp_all add: exec_atomic_map)

lemma map_apply_inv [inv_pres]: "FrameMap_inv s \<Longrightarrow> FrameMap_inv (fst (map_apply op s))"
  by (cases op) (auto split: sum.splits intro: FrameMap_insert_inv FrameMap_get_delete_inv)

lemma map_body_inv [inv_pres]:
  assumes "FrameMap_inv s" and "map_guard op s"
  shows "FrameMap_inv (fst (map_body op s))"
  using map_apply_inv[OF assms(1), of op] assms(2)
  by (simp flip: exec_atomic_map add: exec_atomic_def)

interpretation mm: wake_notified map_guard map_body map_wakes map_wakeset
  FrameMap_new FrameMap_inv "\<lambda>op. \<not> is_insert op"
proof
  fix op op' :: "'a map_op" and d :: "'a FrameMap"
  show "\<not> is_insert op' \<Longrightarrow> \<not> map_guard op' d \<Longrightarrow> map_guard op d \<Longrightarrow>
      map_guard op' (fst (map_body op d)) \<Longrightarrow> map_wakes op = WakeAll \<and> map_wakeset op op'"
    by (cases op; cases op') (auto simp: map_contains_map_of map_of_drop_frames split: if_splits)
qed (rule inv_pres; assumption)+

section \<open>Delivery\<close>

text \<open>The entries accepted by completed insertions, and those handed out by completed gets.\<close>

fun inserted :: "('a map_op \<times> 'a option res) list \<Rightarrow> (u64 \<times> 'a) multiset" where
  "inserted [] = {#}"
| "inserted ((Insert k v, Inr r) # h) = add_mset (k, v) (inserted h)"
| "inserted (_ # h) = inserted h"

fun fetched :: "('a map_op \<times> 'a option res) list \<Rightarrow> (u64 \<times> 'a) multiset" where
  "fetched [] = {#}"
| "fetched ((GetDelete k, Inr (Some v)) # h) = add_mset (k, v) (fetched h)"
| "fetched (_ # h) = fetched h"

lemma inserted_Cons: "inserted (c # h) = inserted [c] + inserted h"
  by (cases "(c # h)" rule: inserted.cases) simp_all

lemma fetched_Cons: "fetched (c # h) = fetched [c] + fetched h"
  by (cases "(c # h)" rule: fetched.cases) simp_all

lemma mset_map_insert: "mset (map_insert k v xs) \<subseteq># add_mset (k, v) (mset xs)"
proof (induction k v xs rule: map_insert.induct)
  case (2 k v k' v' xs)
  have "add_mset (k', v') (mset xs) \<subseteq># add_mset (k, v) (add_mset (k', v') (mset xs))"
    by (rule mset_subset_eq_add_mset_cancel[THEN iffD1, of "(k, v)"]) simp
  then show ?case
    using 2 by (auto simp: add_mset_commute[of "(k, v)" "(k', v')"])
qed simp

lemma mset_map_erase:
  "map_of xs k = Some v \<Longrightarrow> add_mset (k, v) (mset (map_erase k xs)) \<subseteq># mset xs"
proof (induction xs)
  case (Cons p xs)
  have "mset (map_erase k xs) \<subseteq># mset xs" by (simp add: map_erase_def)
  with Cons show ?case
    by (cases p) (auto simp: map_erase_def add_mset_commute[of "(k, v)"] split: if_splits)
qed simp

lemma exec_atomic_delivery:
  assumes "exec_atomic map_guard map_body op s = (s', r)"
  shows "fetched [(op, r)] + mset (m_map s') \<subseteq># inserted [(op, r)] + mset (m_map s)"
proof (cases op)
  case (Insert k v)
  then show ?thesis
    using assms mset_map_insert[of k v "m_map s"] by (auto simp: exec_atomic_def split: if_splits)
next
  case (GetDelete k)
  show ?thesis
  proof (cases "map_of (m_map s) k")
    case None
    then show ?thesis
      using assms GetDelete by (auto simp: exec_atomic_def map_contains_map_of)
  next
    case (Some v)
    have "add_mset (k, v) (mset (drop_frames k (m_map s))) \<subseteq>#
        add_mset (k, v) (mset (map_erase k (m_map s)))"
      using mset_drop_frames by simp
    also have "\<dots> \<subseteq># mset (m_map s)" using Some by (rule mset_map_erase)
    finally show ?thesis
      using assms GetDelete Some by (auto simp: exec_atomic_def map_contains_map_of)
  qed
qed

lemma run_atomic_delivery:
  "run_atomic map_guard map_body ops s = (s', rs) \<Longrightarrow>
     fetched (zip ops rs) + mset (m_map s') \<subseteq># inserted (zip ops rs) + mset (m_map s)"
proof (induction ops arbitrary: s rs)
  case Nil
  then show ?case by simp
next
  case (Cons op ops)
  obtain s1 r where step: "exec_atomic map_guard map_body op s = (s1, r)"
    by fastforce
  obtain rs' where run: "run_atomic map_guard map_body ops s1 = (s', rs')" and rs: "rs = r # rs'"
    using Cons.prems step by (auto split: prod.splits)
  have "fetched (zip (op # ops) rs) + mset (m_map s') =
      fetched [(op, r)] + (fetched (zip ops rs') + mset (m_map s'))"
    using fetched_Cons[of "(op, r)" "zip ops rs'"] by (simp add: rs)
  also have "\<dots> \<subseteq># fetched [(op, r)] + (inserted (zip ops rs') + mset (m_map s1))"
    using Cons.IH[OF run] by simp
  also have "\<dots> = inserted (zip ops rs') + (fetched [(op, r)] + mset (m_map s1))"
    by (simp add: ac_simps)
  also have "\<dots> \<subseteq># inserted (zip ops rs') + (inserted [(op, r)] + mset (m_map s))"
    using exec_atomic_delivery[OF step] by simp
  also have "\<dots> = inserted (zip (op # ops) rs) + mset (m_map s)"
    using inserted_Cons[of "(op, r)" "zip ops rs'"] by (simp add: rs ac_simps)
  finally show ?case .
qed

section \<open>The abstract specification\<close>

text \<open>
  A partial map with at most \<open>kFrameMapMaxSize\<close> entries: insertion into a full map times
  out and never replaces an entry; taking an index removes it, and every index below a
  multiple of the interval with it.
\<close>

definition spec_insert :: "u64 \<Rightarrow> 'a \<Rightarrow> (u64 \<rightharpoonup> 'a) \<Rightarrow> (u64 \<rightharpoonup> 'a) res" where
  "spec_insert k v M =
     (if card (dom M) < kFrameMapMaxSize
      then Inr (if k \<in> dom M then M else M(k \<mapsto> v))
      else Inl LockTimeout)"

definition spec_get_delete :: "u64 \<Rightarrow> (u64 \<rightharpoonup> 'a) \<Rightarrow> ('a \<times> (u64 \<rightharpoonup> 'a)) res" where
  "spec_get_delete k M =
     (case M k of
        None \<Rightarrow> Inl LockTimeout
      | Some v \<Rightarrow> Inr (v, M |` {k'. k' \<noteq> k \<and> \<not> (1000 dvd unat k \<and> k' < k)}))"

lemma card_dom_view: "FrameMap_inv s \<Longrightarrow> card (dom (view s)) = length (m_map s)"
proof -
  assume "FrameMap_inv s"
  then have "distinct (keys (m_map s))"
    by (auto simp: FrameMap_inv_def strict_sorted_iff)
  from distinct_card[OF this] show ?thesis
    by (simp add: view_def dom_map_of_conv_image_fst)
qed

lemma mod_interval_iff: "k mod kFrameMapDropFramesInterval = 0 \<longleftrightarrow> 1000 dvd unat k"
proof -
  have "unat (k mod 1000) = unat k mod 1000" by (simp add: unat_mod)
  then show ?thesis
    unfolding kFrameMapDropFramesInterval_def by (metis mod_eq_0_iff_dvd unat_eq_zero)
qed

text \<open>
  Both operations implement the specification, on the success and on the time-out branches.
\<close>

lemma FrameMap_ops_refine:
  assumes "FrameMap_inv s"
  shows "map_sum id view (FrameMap_insert k v s) = spec_insert k v (view s)
    \<and> map_sum id (map_prod id view) (FrameMap_get_delete k s) = spec_get_delete k (view s)"
proof
  have ins: "view (s\<lparr>m_map := map_insert k v (m_map s)\<rparr>) =
      (if k \<in> dom (view s) then view s else (view s)(k \<mapsto> v))"
    using assms map_of_map_insert[of "m_map s" k v]
    by (auto simp: FrameMap_inv_def view_def split: option.splits)
  show "map_sum id view (FrameMap_insert k v s) = spec_insert k v (view s)"
    by (simp add: FrameMap_insert_def spec_insert_def card_dom_view[OF assms] ins)
  have "view (s\<lparr>m_map := drop_frames k (m_map s)\<rparr>) =
      view s |` {k'. k' \<noteq> k \<and> \<not> (1000 dvd unat k \<and> k' < k)}"
    by (auto simp: view_def map_of_drop_frames mod_interval_iff restrict_map_def)
  then show "map_sum id (map_prod id view) (FrameMap_get_delete k s) =
      spec_get_delete k (view s)"
    by (auto simp: FrameMap_get_delete_def spec_get_delete_def view_def split: option.splits)
qed

text \<open>The calls on the abstract map, one at a time.\<close>

inductive spec_call :: "(u64 \<rightharpoonup> 'a) \<Rightarrow> 'a map_op \<Rightarrow> 'a option res \<Rightarrow> (u64 \<rightharpoonup> 'a) \<Rightarrow> bool" where
  ins: "spec_insert k v M = Inr M' \<Longrightarrow> spec_call M (Insert k v) (Inr None) M'"
| ins_full: "spec_insert k v M = Inl e \<Longrightarrow> spec_call M (Insert k v) (Inl e) M"
| get: "spec_get_delete k M = Inr (v, M') \<Longrightarrow> spec_call M (GetDelete k) (Inr (Some v)) M'"
| get_none: "spec_get_delete k M = Inl e \<Longrightarrow> spec_call M (GetDelete k) (Inl e) M"

lemma exec_atomic_spec_call:
  assumes "FrameMap_inv s" and "exec_atomic map_guard map_body op s = (s', r)"
  shows "spec_call (view s) op r (view s')"
proof (cases op)
  case (Insert k v)
  have "spec_insert k v (view s) = map_sum id view (FrameMap_insert k v s)"
    using FrameMap_ops_refine[OF assms(1)] by metis
  with Insert assms(2) show ?thesis
    by (cases "FrameMap_insert k v s") (auto simp: exec_atomic_map intro: spec_call.intros)
next
  case (GetDelete k)
  have "spec_get_delete k (view s) = map_sum id (map_prod id view) (FrameMap_get_delete k s)"
    using FrameMap_ops_refine[OF assms(1)] by metis
  with GetDelete assms(2) show ?thesis
    by (cases "FrameMap_get_delete k s") (auto simp: exec_atomic_map intro: spec_call.intros)
qed

lemma view_new: "view FrameMap_new = Map.empty"
  by (simp add: view_def FrameMap_new_def)

section \<open>Properties\<close>

text \<open>
  C7. The two operations implement the abstract specification: on every well-formed
  map, on the success and on the time-out branches, the concrete call followed by
  abstraction is the abstract call on the abstracted map.
\<close>

theorem FrameMap_refines_spec:
  assumes "FrameMap_inv s"
  shows "map_sum id view (FrameMap_insert k v s) = spec_insert k v (view s)
    \<and> map_sum id (map_prod id view) (FrameMap_get_delete k s) = spec_get_delete k (view s)"
  by (rule FrameMap_ops_refine[OF assms])

theorem FrameMap_refines_spec_witness:
  "FrameMap_inv \<lparr>m_map = [(998, CHR ''a''), (1000, CHR ''b''), (1001, CHR ''c'')]\<rparr> \<and>
   map_sum id (map_prod id view)
     (FrameMap_get_delete 1000 \<lparr>m_map = [(998, CHR ''a''), (1000, CHR ''b''), (1001, CHR ''c'')]\<rparr>)
   = spec_get_delete 1000
       (view \<lparr>m_map = [(998, CHR ''a''), (1000, CHR ''b''), (1001, CHR ''c'')]\<rparr>)"
proof -
  have inv: "FrameMap_inv \<lparr>m_map = [(998, CHR ''a''), (1000, CHR ''b''), (1001, CHR ''c'')]\<rparr>"
    by (simp add: FrameMap_inv_def kFrameMapMaxSize_def)
  show ?thesis using inv FrameMap_refines_spec[OF inv, of 1000] by blast
qed

text \<open>
  C8. Whatever the interleaving, every frame handed out by a completed \<open>get_delete(k)\<close> was
  stored by a completed \<open>insert(k, _)\<close>, and no stored frame is handed out twice: the
  frames handed out and those still in the map are together at most those inserted.
\<close>

theorem map_concurrent_delivery:
  assumes "map_reach m"
  shows "fetched (history m) + mset (m_map (shared m)) \<subseteq># inserted (history m)"
proof -
  have "run_atomic map_guard map_body (map fst (history m)) FrameMap_new =
      (shared m, map snd (history m))"
    using mm.atomic_reach[of m] assms
    by (simp add: map_reach_def map_step_def atomic_from_def)
  from run_atomic_delivery[OF this] show ?thesis
    by (simp add: zip_history FrameMap_new_def)
qed

text \<open>Two insertions, one retrieval, and a getter asleep on an index nobody stored.\<close>

lemma map_reach_example:
  "\<exists>m. map_reach m \<and> m_map (shared m) = [(7, CHR ''b'')] \<and> phases m 3 = Sleeping (GetDelete 9) \<and>
     history m = [(Insert 7 (CHR ''b''), Inr None), (Insert 5 (CHR ''a''), Inr None),
       (GetDelete 5, Inr (Some (CHR ''a'')))]"
proof -
  let ?S = "\<lambda>m. m = monitor_init FrameMap_new"
  let ?step = "mon_step map_guard map_body map_wakes map_wakeset"
  let ?m0 = "monitor_init FrameMap_new :: (char FrameMap, char map_op, char option) monitor"
  have r0: "reach ?S ?step ?m0" by (rule reach.reach_start) simp
  note ex = monitor_init_def FrameMap_new_def kFrameMapMaxSize_def map_contains_def
    drop_frames_def map_erase_def kFrameMapDropFramesInterval_def
  have r1: "reach ?S ?step (?m0\<lparr>shared := \<lparr>m_map = [(7, CHR ''b'')]\<rparr>, owner := None,
      phases := (phases ?m0)(0 := Returned (Insert 7 (CHR ''b'')) (Inr None)),
      history := history ?m0 @ [(Insert 7 (CHR ''b''), Inr None)]\<rparr>)" (is "reach ?S ?step ?m1")
    by (rule solo_pass[OF r0]) (simp_all add: ex)
  have r2: "reach ?S ?step (?m1\<lparr>shared := \<lparr>m_map = [(5, CHR ''a''), (7, CHR ''b'')]\<rparr>,
      owner := None, phases := (phases ?m1)(1 := Returned (Insert 5 (CHR ''a'')) (Inr None)),
      history := history ?m1 @ [(Insert 5 (CHR ''a''), Inr None)]\<rparr>)" (is "reach ?S ?step ?m2")
    by (rule solo_pass[OF r1]) (simp_all add: ex)
  have r3: "reach ?S ?step (?m2\<lparr>shared := \<lparr>m_map = [(7, CHR ''b'')]\<rparr>, owner := None,
      phases := (phases ?m2)(2 := Returned (GetDelete 5) (Inr (Some (CHR ''a'')))),
      history := history ?m2 @ [(GetDelete 5, Inr (Some (CHR ''a'')))]\<rparr>)"
    (is "reach ?S ?step ?m3")
    by (rule solo_pass[OF r2]) (simp_all add: ex)
  have "reach ?S ?step (?m3\<lparr>owner := None, phases := (phases ?m3)(3 := Sleeping (GetDelete 9))\<rparr>)"
    (is "reach ?S ?step ?m4")
    by (rule call_sleep[OF r3]) (simp_all add: ex)
  then show ?thesis
    by (intro exI[of _ ?m4]) (simp add: map_reach_def map_step_def ex)
qed

theorem map_concurrent_delivery_witness:
  "\<exists>m. map_reach m \<and> fetched (history m) = {#(5, CHR ''a'')#} \<and>
     fetched (history m) + mset (m_map (shared m)) \<subseteq># inserted (history m)"
proof -
  obtain m where m: "map_reach m" "fetched (history m) = {#(5, CHR ''a'')#}"
    using map_reach_example by fastforce
  show ?thesis using m map_concurrent_delivery[OF m(1)] by blast
qed

text \<open>
  C9. The calls of all threads on the map are linearizable because of the mutex, and against the
  abstract map. A call reads the map in one step and writes what the body makes of the copy in a
  later one, and other threads may take steps in between; still, whoever is between the two
  steps has a copy that is the map as it is now, the completed calls with their results are a
  serial run of the abstract bounded partial map from the empty map to the contents of the map,
  in the order in which they completed, each call answers what the operations answer there, and
  what a thread has returned is one of these results.
\<close>

theorem map_linearizable:
  assumes "map_reach m"
  shows "serial spec_call Map.empty (history m) (view (shared m))
    \<and> map_apply_all (map fst (history m)) FrameMap_new = (shared m, map snd (history m))
    \<and> (\<forall>t op b s. phases m t = Loaded op b s \<longrightarrow> s = shared m)
    \<and> (\<forall>t op r. phases m t = Returned op r \<longrightarrow> (op, r) \<in> set (history m))"
proof -
  have r: "mm.mreach m" using assms by (simp add: map_reach_def map_step_def)
  have "serial spec_call (view (FrameMap_new :: 'a FrameMap)) (history m) (view (shared m))"
    by (rule mm.serial_reach[OF r, where \<alpha> = view]) (rule exec_atomic_spec_call)
  then show ?thesis
    using mm.atomic_reach[OF r] mm.loaded_reach[OF r] mm.returned_reach[OF r]
    by (simp add: view_new atomic_from_def run_atomic_map loaded_ok_def returned_ok_def)
qed

theorem map_linearizable_witness:
  "\<exists>m. map_reach m \<and> m_map (shared m) = [(7, CHR ''b'')] \<and>
     serial spec_call Map.empty (history m) [7 \<mapsto> CHR ''b''] \<and>
     map_apply_all (map fst (history m)) FrameMap_new = (shared m, map snd (history m))"
proof -
  obtain m where m: "map_reach m" "m_map (shared m) = [(7, CHR ''b'')]"
    using map_reach_example by fastforce
  have "view (shared m) = [7 \<mapsto> CHR ''b'']" using m(2) by (auto simp: view_def)
  then show ?thesis using m map_linearizable[OF m(1)] by (intro exI[of _ m]) auto
qed

text \<open>
  C10. In every reachable state the map is well formed (keys strictly increasing, at most
  \<open>kFrameMapMaxSize\<close> entries), at most one thread is in the critical section, and no thread
  sleeps in \<open>get_delete(k)\<close> while the map holds an entry for \<open>k\<close>.
\<close>

theorem map_safe_and_responsive:
  assumes "map_reach m"
  shows "FrameMap_inv (shared m)
    \<and> (testing (phases m t) \<and> testing (phases m u) \<longrightarrow> t = u)
    \<and> (phases m t = Sleeping (GetDelete k) \<longrightarrow> k \<notin> dom (view (shared m)))"
  using mm.dinv_reach[of m] mm.one_owner[of m t u] mm.sleeper_blocked[of m t "GetDelete k"] assms
  by (auto simp: map_reach_def map_step_def map_contains_map_of view_def)

theorem map_safe_and_responsive_witness:
  "\<exists>m :: (char FrameMap, char map_op, char option) monitor. map_reach m \<and>
     phases m 3 = Sleeping (GetDelete 9) \<and> 9 \<notin> dom (view (shared m))"
proof -
  obtain m :: "(char FrameMap, char map_op, char option) monitor"
    where m: "map_reach m" "phases m 3 = Sleeping (GetDelete 9)"
    using map_reach_example by fastforce
  show ?thesis using m map_safe_and_responsive[OF m(1), of 3 3 9] by blast
qed

end
