(* ===== verification/Servers.thy ===== *)
theory Servers
  imports Camera_Manager
begin

text \<open>
  The WebSocket servers: \<open>WebSocketServer\<close> (\<open>websocket_server.h\<close>, \<open>websocket_server.cc\<close>) with
  its connection set and life cycle, \<open>PacketStreamServer\<close> (\<open>packet_stream.h\<close>,
  \<open>packet_stream.cc\<close>), which marks and broadcasts encoded packets, and
  \<open>CameraControlServer\<close> (\<open>camera_control.h\<close>, \<open>camera_control.cc\<close>), which feeds received cameras
  to the camera manager.

  websocketpp is a parameter: whether \<open>listen\<close>, \<open>start_accept\<close>, \<open>send\<close> and \<open>close\<close> succeed;
  a call that does not succeed throws, and so does \<open>stop_listening\<close> without an open acceptor. The
  thread of a server whose acceptor and connections are closed runs out of work, so that
  joining it returns. \<open>outbox\<close> records what was handed to \<open>m_server.send\<close>
  for which connection, and \<open>closing\<close> the connections that were asked to close.
\<close>

section \<open>WebSocketServer\<close>

type_synonym connection_hdl = nat

record WebSocketServer =
  m_connections :: "connection_hdl list"
  m_thread :: bool
  m_server_name :: string
  m_bind_port :: u16
  m_running :: bool
  listening :: bool
  outbox :: "(connection_hdl \<times> u8 list) list"
  closing :: "connection_hdl list"

definition WebSocketServer_new :: "string \<Rightarrow> u16 \<Rightarrow> WebSocketServer" where
  "WebSocketServer_new server_name bind_port =
     \<lparr>m_connections = [], m_thread = False, m_server_name = server_name, m_bind_port = bind_port,
      m_running = False, listening = False, outbox = [], closing = []\<rparr>"

text \<open>The set of connections, ordered by \<open>std::owner_less\<close>.\<close>

definition open_handler :: "connection_hdl \<Rightarrow> WebSocketServer \<Rightarrow> WebSocketServer" where
  "open_handler hdl s =
     s\<lparr>m_connections := (if hdl \<in> set (m_connections s) then m_connections s
                         else insort hdl (m_connections s))\<rparr>"

definition close_handler :: "connection_hdl \<Rightarrow> WebSocketServer \<Rightarrow> WebSocketServer" where
  "close_handler hdl s = s\<lparr>m_connections := filter (\<lambda>c. c \<noteq> hdl) (m_connections s)\<rparr>"

text \<open>
  \<open>m_thread\<close> says that the server has a thread that has not been joined, \<open>listening\<close> that its
  acceptor is open.
\<close>

definition launched :: "WebSocketServer \<Rightarrow> WebSocketServer" where
  "launched s = s\<lparr>listening := True, m_thread := True, m_running := True\<rparr>"

definition WebSocketServer_start ::
  "bool \<Rightarrow> bool \<Rightarrow> WebSocketServer \<Rightarrow> unit res \<times> WebSocketServer" where
  "WebSocketServer_start listen_ok accept_ok s =
     (if m_running s
      then (Inl (RuntimeError (m_server_name s @ '' websocket server is already running.'')), s)
      else if \<not> listen_ok then (Inl (WebsocketException ''listen''), s)
      else if \<not> accept_ok then (Inl (WebsocketException ''start_accept''), s\<lparr>listening := True\<rparr>)
      else (Inr (), launched s))"

text \<open>The loops over the connections stop at the first call that throws.\<close>

fun close_each ::
  "(connection_hdl \<Rightarrow> bool) \<Rightarrow> connection_hdl list \<Rightarrow> WebSocketServer \<Rightarrow>
   unit res \<times> WebSocketServer" where
  "close_each close_ok [] s = (Inr (), s)"
| "close_each close_ok (it # its) s =
     (if close_ok it then close_each close_ok its (s\<lparr>closing := closing s @ [it]\<rparr>)
      else (Inl (WebsocketException ''close''), s))"

definition WebSocketServer_stop ::
  "(connection_hdl \<Rightarrow> bool) \<Rightarrow> WebSocketServer \<Rightarrow> unit res \<times> WebSocketServer" where
  "WebSocketServer_stop close_ok s =
     (if \<not> m_running s
      then (Inl (RuntimeError (m_server_name s @ '' websocket server is not running.'')), s)
      else if \<not> listening s then (Inl (WebsocketException ''stop_listening''), s)
      else (case close_each close_ok (m_connections s) (s\<lparr>listening := False\<rparr>) of
              (Inl e, s') \<Rightarrow> (Inl e, s')
            | (Inr _, s') \<Rightarrow> (Inr (), s'\<lparr>m_thread := False, m_running := False\<rparr>)))"

fun send_each ::
  "(connection_hdl \<Rightarrow> bool) \<Rightarrow> u8 list \<Rightarrow> connection_hdl list \<Rightarrow> WebSocketServer \<Rightarrow>
   unit res \<times> WebSocketServer" where
  "send_each send_ok data [] s = (Inr (), s)"
| "send_each send_ok data (it # its) s =
     (if send_ok it then send_each send_ok data its (s\<lparr>outbox := outbox s @ [(it, data)]\<rparr>)
      else (Inl (WebsocketException ''send''), s))"

definition send_to_all ::
  "(connection_hdl \<Rightarrow> bool) \<Rightarrow> u8 list \<Rightarrow> WebSocketServer \<Rightarrow> unit res \<times> WebSocketServer" where
  "send_to_all send_ok data s =
     (if \<not> m_running s
      then (Inl (RuntimeError (m_server_name s @ '' websocket server is not running.'')), s)
      else send_each send_ok data (m_connections s) s)"

section \<open>PacketStreamServer\<close>

definition AV_PKT_FLAG_KEY :: int where
  "AV_PKT_FLAG_KEY = 1"

record AVPacket =
  pkt_data :: "u8 list"
  pkt_flags :: int

definition PacketStreamServer_new :: "u16 \<Rightarrow> string \<Rightarrow> WebSocketServer" where
  "PacketStreamServer_new bind_port server_name = WebSocketServer_new server_name bind_port"

text \<open>The first byte of the packet is overwritten in place, then the packet is broadcast.\<close>

definition consume_packet ::
  "(connection_hdl \<Rightarrow> bool) \<Rightarrow> AVPacket \<Rightarrow> WebSocketServer \<Rightarrow> unit res \<times> WebSocketServer" where
  "consume_packet send_ok pkt s =
     (case pkt_data pkt of
        [] \<Rightarrow> (Inl (OutOfBounds 0), s)
      | _ # rest \<Rightarrow>
          send_to_all send_ok ((if pkt_flags pkt = AV_PKT_FLAG_KEY then 0 else 1) # rest) s)"

section \<open>CameraControlServer\<close>

definition kReceivedLoggingInterval :: u64 where
  "kReceivedLoggingInterval = 1000"

record CameraControlServer =
  cc_server :: WebSocketServer
  m_camera_manager :: CameraManager
  m_message_count :: u64

definition CameraControlServer_new :: "CameraManager \<Rightarrow> u16 \<Rightarrow> CameraControlServer" where
  "CameraControlServer_new cameramgr bind_port =
     \<lparr>cc_server = WebSocketServer_new ''CameraControlServer'' bind_port,
      m_camera_manager = cameramgr, m_message_count = 0\<rparr>"

text \<open>
  \<open>parse\<close> is the generated \<open>ParseFromString\<close>. The result is the exception or normal return,
  the line logged, and the server.
\<close>

definition message_handler ::
  "(u8 list \<Rightarrow> Camera option) \<Rightarrow> codec_env \<Rightarrow> codec_env \<Rightarrow> u8 list \<Rightarrow> CameraControlServer \<Rightarrow>
   unit res \<times> string option \<times> CameraControlServer" where
  "message_handler parse es ed payload srv =
     (case parse payload of
        Some cam \<Rightarrow>
          (let (r, cm) = (if cam_is_left cam then set_camera_left es ed cam (m_camera_manager srv)
                          else set_camera_right es ed cam (m_camera_manager srv));
               srv1 = srv\<lparr>m_camera_manager := cm\<rparr>
           in case r of
                Inl e \<Rightarrow> (Inl e, None, srv1)
              | Inr _ \<Rightarrow>
                  (Inr (),
                   (if m_message_count srv mod kReceivedLoggingInterval = 0
                    then Some ''CameraControlServer: Receiving camera matrix...'' else None),
                   srv1\<lparr>m_message_count := m_message_count srv + 1\<rparr>))
      | None \<Rightarrow>
          (Inr (), Some ''CameraControlServer: Failed to set camera matrix.'',
           srv\<lparr>m_message_count := m_message_count srv + 1\<rparr>))"

lemmas server_defs [op_defs] =
  WebSocketServer_start_def WebSocketServer_stop_def send_to_all_def consume_packet_def
  message_handler_def open_handler_def close_handler_def

section \<open>Lemmas\<close>

definition connections_ok :: "WebSocketServer \<Rightarrow> bool" where
  "connections_ok s = (sorted (m_connections s) \<and> distinct (m_connections s))"

lemma connections_ok_new [inv_pres]: "connections_ok (WebSocketServer_new n p)"
  by (simp add: connections_ok_def WebSocketServer_new_def)

lemma connections_ok_open [inv_pres]: "connections_ok s \<Longrightarrow> connections_ok (open_handler h s)"
  by (simp add: connections_ok_def open_handler_def sorted_insort distinct_insort)

lemma connections_ok_close [inv_pres]: "connections_ok s \<Longrightarrow> connections_ok (close_handler h s)"
  by (simp add: connections_ok_def close_handler_def sorted_wrt_filter)

lemma set_open_handler: "set (m_connections (open_handler h s)) = insert h (set (m_connections s))"
  by (auto simp: open_handler_def set_insort_key)

lemma set_close_handler: "set (m_connections (close_handler h s)) = set (m_connections s) - {h}"
  by (auto simp: close_handler_def)

lemma takeWhile_list_all: "list_all P xs \<Longrightarrow> takeWhile P xs = xs"
  by (induction xs) auto

lemma send_each_result:
  "send_each send_ok data its s =
     ((if list_all send_ok its then Inr () else Inl (WebsocketException ''send'')),
      s\<lparr>outbox := outbox s @ map (\<lambda>c. (c, data)) (takeWhile send_ok its)\<rparr>)"
  by (induction its arbitrary: s) auto

lemma close_each_result:
  "close_each close_ok its s =
     ((if list_all close_ok its then Inr () else Inl (WebsocketException ''close'')),
      s\<lparr>closing := closing s @ takeWhile close_ok its\<rparr>)"
  by (induction its arbitrary: s) auto

text \<open>The connections after a sequence of client openings and closings.\<close>

datatype ws_event = Opened connection_hdl | Closed connection_hdl

fun ws_run :: "ws_event list \<Rightarrow> WebSocketServer \<Rightarrow> WebSocketServer" where
  "ws_run [] s = s"
| "ws_run (Opened h # es) s = ws_run es (open_handler h s)"
| "ws_run (Closed h # es) s = ws_run es (close_handler h s)"

text \<open>A client is connected when its last event, if any, opened it.\<close>

fun connected :: "bool \<Rightarrow> ws_event list \<Rightarrow> connection_hdl \<Rightarrow> bool" where
  "connected b [] c = b"
| "connected b (Opened h # es) c = connected (c = h \<or> b) es c"
| "connected b (Closed h # es) c = connected (b \<and> c \<noteq> h) es c"

lemma ws_run_connections:
  "c \<in> set (m_connections (ws_run es s)) \<longleftrightarrow> connected (c \<in> set (m_connections s)) es c"
  by (induction es s rule: ws_run.induct) (simp_all add: set_open_handler set_close_handler)

lemma ws_run_ok [inv_pres]: "connections_ok s \<Longrightarrow> connections_ok (ws_run es s)"
  by (induction es s rule: ws_run.induct) (simp_all add: connections_ok_open connections_ok_close)

lemma ws_run_frame [simp]:
  "m_running (ws_run es s) = m_running s" "outbox (ws_run es s) = outbox s"
  "m_server_name (ws_run es s) = m_server_name s"
  by (induction es s rule: ws_run.induct) (simp_all add: open_handler_def close_handler_def)

section \<open>Properties\<close>

text \<open>
  Broadcast. After any sequence of clients connecting and disconnecting, a
  \<open>send_to_all\<close> on a running server whose sends all succeed hands the data exactly once to
  each connected client and to nobody else; if a send throws, the clients before it in
  the set's order got the data, the exception leaves the call and the others get nothing.
\<close>

lemma broadcast_exact:
  assumes "m_running s" and "connections_ok s" and "outbox s = []"
  shows "let s' = ws_run es s; (r, s'') = send_to_all send_ok data s'
    in distinct (map fst (outbox s'')) \<and> snd ` set (outbox s'') \<subseteq> {data}
      \<and> (if \<forall>c. connected (c \<in> set (m_connections s)) es c \<longrightarrow> send_ok c
         then r = Inr () \<and>
           fst ` set (outbox s'') = {c. connected (c \<in> set (m_connections s)) es c}
         else r = Inl (WebsocketException ''send'') \<and>
           map fst (outbox s'') = takeWhile send_ok (m_connections s'))"
proof -
  let ?s = "ws_run es s"
  have ok: "distinct (m_connections ?s)"
    using ws_run_ok[OF assms(2)] by (simp add: connections_ok_def)
  have send: "send_to_all send_ok data ?s =
      ((if list_all send_ok (m_connections ?s) then Inr () else Inl (WebsocketException ''send'')),
       ?s\<lparr>outbox := map (\<lambda>c. (c, data)) (takeWhile send_ok (m_connections ?s))\<rparr>)"
    using assms by (simp add: send_to_all_def send_each_result)
  have all: "list_all send_ok (m_connections ?s) \<longleftrightarrow>
      (\<forall>c. connected (c \<in> set (m_connections s)) es c \<longrightarrow> send_ok c)"
    by (auto simp: list_all_iff ws_run_connections)
  have conn: "set (m_connections ?s) = {c. connected (c \<in> set (m_connections s)) es c}"
    by (auto simp: ws_run_connections)
  show ?thesis
  proof (cases "list_all send_ok (m_connections ?s)")
    case True
    then show ?thesis
      using all ok conn by (auto simp: send Let_def comp_def image_image takeWhile_list_all)
  next
    case False
    then show ?thesis
      using all ok by (auto simp: send Let_def comp_def distinct_takeWhile)
  qed
qed

text \<open>
  A consumed packet reaches the clients with its length and every byte but the first
  unchanged, and its first byte is 0 exactly when the packet's flags are
  \<open>AV_PKT_FLAG_KEY\<close> and no other flag; an empty packet makes the call write outside the buffer.
\<close>

lemma consume_packet_marks:
  assumes "m_running s" and "list_all send_ok (m_connections s)"
  shows "case pkt_data pkt of
      [] \<Rightarrow> consume_packet send_ok pkt s = (Inl (OutOfBounds 0), s)
    | _ # rest \<Rightarrow> \<exists>marker. (marker = 0 \<longleftrightarrow> pkt_flags pkt = AV_PKT_FLAG_KEY) \<and> (marker \<noteq> 0 \<longrightarrow> marker = 1)
        \<and> consume_packet send_ok pkt s =
            (Inr (), s\<lparr>outbox := outbox s @ map (\<lambda>c. (c, marker # rest)) (m_connections s)\<rparr>)"
proof (cases "pkt_data pkt")
  case Nil
  then show ?thesis by (simp add: consume_packet_def)
next
  case (Cons b rest)
  let ?marker = "if pkt_flags pkt = AV_PKT_FLAG_KEY then 0 else 1 :: u8"
  have "consume_packet send_ok pkt s =
      (Inr (), s\<lparr>outbox := outbox s @ map (\<lambda>c. (c, ?marker # rest)) (m_connections s)\<rparr>)"
    using assms Cons
    by (simp add: consume_packet_def send_to_all_def send_each_result takeWhile_list_all)
  then show ?thesis unfolding Cons list.case by (intro exI[of _ ?marker]) simp
qed

text \<open>
  Life cycle. \<open>start\<close> returns normally only on a stopped server and leaves it running;
  on a running one it throws and changes nothing. \<open>stop\<close> on a running server whose connections can all be closed asks
  every connection to close and leaves it stopped. On a stopped server, \<open>stop\<close> and
  \<open>send_to_all\<close> throw and change nothing.
\<close>

lemma server_lifecycle:
  "(case WebSocketServer_start l a s of
      (Inr _, s') \<Rightarrow> \<not> m_running s \<and> l \<and> a \<and> s' = launched s
    | (Inl e, s') \<Rightarrow> s'\<lparr>listening := listening s\<rparr> = s \<and> (m_running s \<or> \<not> l \<or> \<not> a))
   \<and> (case WebSocketServer_stop ok s of
      (Inr _, s') \<Rightarrow> m_running s \<and> \<not> m_running s' \<and> \<not> m_thread s' \<and> \<not> listening s'
        \<and> closing s' = closing s @ m_connections s
    | (Inl e, s') \<Rightarrow> (if m_running s \<and> listening s then \<not> list_all ok (m_connections s) \<and> m_thread s' = m_thread s
        else s' = s))
   \<and> (\<not> m_running s \<longrightarrow> send_to_all ok data s =
        (Inl (RuntimeError (m_server_name s @ '' websocket server is not running.'')), s))"
  by (auto simp: WebSocketServer_start_def WebSocketServer_stop_def send_to_all_def
      close_each_result takeWhile_list_all)

text \<open>
  A camera message. One that does not parse changes no camera and is counted; one that parses goes
  to the setter of the eye it names, is counted when the setter returns, and when the
  setter throws the exception leaves the handler and the message is not counted.
\<close>

lemma message_handler_routes:
  "case message_handler parse es ed payload srv of (r, logged, srv') \<Rightarrow>
     cc_server srv' = cc_server srv \<and>
     (case parse payload of
        None \<Rightarrow> r = Inr () \<and> m_camera_manager srv' = m_camera_manager srv
          \<and> m_message_count srv' = m_message_count srv + 1
      | Some cam \<Rightarrow>
          (r, m_camera_manager srv') =
            (if cam_is_left cam then set_camera_left else set_camera_right)
              es ed cam (m_camera_manager srv)
          \<and> m_message_count srv' =
              (if r = Inr () then m_message_count srv + 1 else m_message_count srv)
          \<and> (logged \<noteq> None \<longleftrightarrow> r = Inr () \<and> 1000 dvd unat (m_message_count srv)))"
proof -
  have "m_message_count srv mod kReceivedLoggingInterval = 0 \<longleftrightarrow>
      1000 dvd unat (m_message_count srv)"
  proof -
    have "unat (m_message_count srv mod 1000) = unat (m_message_count srv) mod 1000"
      by (simp add: unat_mod)
    then show ?thesis
      unfolding kReceivedLoggingInterval_def by (metis mod_eq_0_iff_dvd unat_eq_zero)
  qed
  then show ?thesis
    by (auto simp: message_handler_def Let_def split: option.splits prod.splits sum.splits if_splits)
qed

end
