(* ===== verification/Encode_Threads.thy ===== *)
theory Encode_Threads
  imports Server_Threads Frame_Map Servers
begin

text \<open>
  The threads of \<open>encode.cpp\<close>: \<open>process_frame_thread\<close> (overlay texts, convert, file under the
  frame's index), \<open>send_frame_thread\<close> (fetch the next index, hand the images to the two
  encoders), \<open>receive_packet_handler\<close> and \<open>receive_packet_thread\<close> (poll an encoder, broadcast its
  packets) and \<open>encode_stats_thread\<close>. As for the renderer threads, a round of each loop is a
  function; the first call of a round, which takes a frame out of a shared container, is
  split from the rest so that rounds of different threads can be interleaved between them.

  libavcodec's \<open>avcodec_send_frame\<close> and \<open>avcodec_receive_packet\<close> are parameters: functions of the
  encoder's context.
\<close>

section \<open>process_frame_thread\<close>

record encode_state =
  enc_map :: "RenderedFrame FrameMap"
  enc_text :: RenderTextContext
  enc_heap :: heap

record process_vars =
  p_index :: u32
  p_elapsed :: u64
  p_logged :: "u64 list"

definition kLogStatsInterval :: u32 where
  "kLogStatsInterval = 100"

text \<open>The four texts drawn on the scene image, in order.\<close>

definition overlay ::
  "(char \<Rightarrow> glyph \<Rightarrow> int \<times> glyph) \<Rightarrow> clock_time \<Rightarrow> RenderedFrame \<Rightarrow> RenderTextContext \<times> heap \<Rightarrow>
   (RenderTextContext \<times> heap) res" where
  "overlay load now f st =
     (let src = m_source_avframe_scene f in
      bindE (draw_text load src RENDER_POSITION_CENTER (cam_matrix_text (cam_matrix (get_cam f))) st) (\<lambda>st1.
      bindE (draw_text load src RENDER_POSITION_LEFT_BOTTOM (index_text (frame_index f)) st1) (\<lambda>st2.
      bindE (draw_text load src RENDER_POSITION_LEFT_TOP (timestamp now) st2)
        (draw_text load src RENDER_POSITION_RIGHT_TOP (direction_text (frame_is_left f))))))"

definition process_stats :: "u64 \<Rightarrow> process_vars \<Rightarrow> process_vars" where
  "process_stats ms v =
     (let index = p_index v + 1; elapsed = p_elapsed v + ms
      in if index = kLogStatsInterval
         then v\<lparr>p_index := 0, p_elapsed := 0, p_logged := p_logged v @ [elapsed div ucast kLogStatsInterval]\<rparr>
         else v\<lparr>p_index := index, p_elapsed := elapsed\<rparr>)"

text \<open>
  The rest of a round, with the frame popped. \<open>insert\<close> takes the frame by rvalue reference: when
  it times out the \<open>unique_ptr\<close> of the round still owns the frame and destroys it; when the index
  is taken, \<open>std::map::insert\<close> destroys it. Only \<open>LockTimeout\<close> is caught.
\<close>

definition process_finish ::
  "(char \<Rightarrow> glyph \<Rightarrow> int \<times> glyph) \<Rightarrow> av_env \<Rightarrow> clock_time \<Rightarrow> u64 \<Rightarrow> RenderedFrame \<Rightarrow>
   process_vars \<times> encode_state \<Rightarrow> (process_vars \<times> encode_state) round" where
  "process_finish load env now ms f = (\<lambda>(v, s).
     (case overlay load now f (enc_text s, enc_heap s) of
        Inl e \<Rightarrow> Throws e (v, s)
      | Inr (ctx, h) \<Rightarrow>
          (case convert_frame env f h of
             (Inl e, f', h') \<Rightarrow> Throws e (v, s\<lparr>enc_text := ctx, enc_heap := h'\<rparr>)
           | (Inr _, f', h') \<Rightarrow>
               (let s1 = s\<lparr>enc_text := ctx, enc_heap := h'\<rparr>;
                    destroyed = (\<lambda>v'. case RenderedFrame_delete f' h' of
                        Inl e \<Rightarrow> Throws e (v', s1)
                      | Inr h'' \<Rightarrow> Next (v', s1\<lparr>enc_heap := h''\<rparr>))
                in case FrameMap_insert (frame_index f) f' (enc_map s) of
                     Inl e \<Rightarrow> destroyed v
                   | Inr m \<Rightarrow>
                       (if map_contains (m_map (enc_map s)) (frame_index f)
                        then destroyed (process_stats ms v)
                        else Next (process_stats ms v, s1\<lparr>enc_map := m\<rparr>))))))"

definition process_frame_round ::
  "(char \<Rightarrow> glyph \<Rightarrow> int \<times> glyph) \<Rightarrow> av_env \<Rightarrow> clock_time \<Rightarrow> u64 \<Rightarrow> RenderedFrame FrameQueue \<Rightarrow>
   process_vars \<times> encode_state \<Rightarrow> RenderedFrame FrameQueue \<times> (process_vars \<times> encode_state) round" where
  "process_frame_round load env now ms q vs =
     (case FrameQueue_pop q of
        Inl e \<Rightarrow> (q, Next vs)
      | Inr (f, q') \<Rightarrow> (q', process_finish load env now ms f vs))"

section \<open>send_frame_thread\<close>

definition AVERROR :: "nat \<Rightarrow> int" where
  "AVERROR e = - int e"

definition AVERROR_EAGAIN :: int where
  "AVERROR_EAGAIN = AVERROR 11"

definition AVERROR_EINVAL :: int where
  "AVERROR_EINVAL = AVERROR 22"

definition AVERROR_ENOMEM :: int where
  "AVERROR_ENOMEM = AVERROR 12"

definition AVERROR_EOF :: int where
  "AVERROR_EOF = - 541478725"

text \<open>
  The \<open>switch\<close> over the return value of \<open>send_frame\<close>: for three codes the source builds a
  \<open>std::runtime_error\<close> with this text and drops it without throwing.
\<close>

definition send_switch :: "int \<Rightarrow> string option" where
  "send_switch ret =
     (if ret = AVERROR_EINVAL then Some ''Codec not opened, it is a decoder, or requires flush.''
      else if ret = AVERROR_ENOMEM then Some ''Failed to add packet to internal queue, or other.''
      else if ret = AVERROR_EOF
      then Some ''The encoder has been flushed, and no new frames can be sent to it.''
      else None)"

record send_vars =
  s_frame_index :: u64
  s_index :: u32
  s_elapsed :: u64
  s_logged :: "u64 list"
  s_discarded :: "string list"

record send_state =
  snd_scene :: AVCodecContextManager
  snd_depth :: AVCodecContextManager
  snd_map :: "RenderedFrame FrameMap"
  snd_heap :: heap

type_synonym av_send_fun = "AVCodecContext \<Rightarrow> AVFrameWrapper \<times> u8 list option \<Rightarrow> int \<times> AVCodecContext"

text \<open>
  \<open>codec->send_frame(frame.to_avframe().get())\<close>: the temporary wrapper is destroyed after the
  call. The encoder sees the wrapper's fields and the bytes its plane pointer leads to.
\<close>

definition export_and_send ::
  "av_env \<Rightarrow> av_send_fun \<Rightarrow> FrameManager \<Rightarrow> AVCodecContextManager \<Rightarrow> heap \<Rightarrow>
   int res \<times> AVCodecContextManager \<times> heap" where
  "export_and_send env av_send fm codec h =
     (case AVFrameWrapper_new env fm h of
        (Inl e, h1) \<Rightarrow> (Inl e, codec, h1)
      | (Inr w, h1) \<Rightarrow>
          (let (r, codec') = send_frame av_send (w, cells h1 (av_data0 w)) codec
           in case AVFrameWrapper_delete w h1 of
                Inl e \<Rightarrow> (Inl e, codec', h1)
              | Inr h2 \<Rightarrow> (r, codec', h2)))"

fun delete_frames :: "RenderedFrame list \<Rightarrow> heap \<Rightarrow> heap res" where
  "delete_frames [] h = Inr h"
| "delete_frames (f # fs) h = bindE (RenderedFrame_delete f h) (delete_frames fs)"

text \<open>The frames \<open>get_delete\<close> drops (the argument of its \<open>erase_if\<close>) are destroyed inside the call.\<close>

definition dropped_frames :: "u64 \<Rightarrow> (u64 \<times> 'a) list \<Rightarrow> (u64 \<times> 'a) list" where
  "dropped_frames index xs =
     (if index mod kFrameMapDropFramesInterval = 0
      then filter (\<lambda>p. fst p < index) (map_erase index xs) else [])"

definition send_get ::
  "u64 \<Rightarrow> send_state \<Rightarrow> (RenderedFrame \<times> send_state) res" where
  "send_get index s =
     bindE (FrameMap_get_delete index (snd_map s)) (\<lambda>(f, m).
     bindE (delete_frames (map snd (dropped_frames index (m_map (snd_map s)))) (snd_heap s)) (\<lambda>h.
     Inr (f, s\<lparr>snd_map := m, snd_heap := h\<rparr>)))"

definition send_stats :: "u64 \<Rightarrow> send_vars \<Rightarrow> send_vars" where
  "send_stats ms v =
     (let index = s_index v + 1; elapsed = s_elapsed v + ms
      in if index = kLogStatsInterval
         then v\<lparr>s_index := 0, s_elapsed := 0, s_logged := s_logged v @ [elapsed div ucast kLogStatsInterval]\<rparr>
         else v\<lparr>s_index := index, s_elapsed := elapsed\<rparr>)"

definition discard :: "int \<Rightarrow> send_vars \<Rightarrow> send_vars" where
  "discard ret v = (case send_switch ret of None \<Rightarrow> v | Some msg \<Rightarrow> v\<lparr>s_discarded := s_discarded v @ [msg]\<rparr>)"

text \<open>The rest of a round with the frame fetched, up to the destruction of the frame.\<close>

definition send_finish ::
  "av_env \<Rightarrow> av_send_fun \<Rightarrow> u64 \<Rightarrow> RenderedFrame \<Rightarrow> send_vars \<times> send_state \<Rightarrow>
   (send_vars \<times> send_state) round" where
  "send_finish env av_send ms f = (\<lambda>(v, s).
     (case export_and_send env av_send (m_converted_avframe_scene f) (snd_scene s) (snd_heap s) of
        (Inl e, scene, h) \<Rightarrow> Throws e (v, s\<lparr>snd_scene := scene, snd_heap := h\<rparr>)
      | (Inr ret, scene, h) \<Rightarrow>
          (case export_and_send env av_send (m_converted_avframe_depth f) (snd_depth s) h of
             (Inl e, depth, h') \<Rightarrow>
               Throws e (discard ret v, s\<lparr>snd_scene := scene, snd_depth := depth, snd_heap := h'\<rparr>)
           | (Inr ret', depth, h') \<Rightarrow>
               (let v1 = send_stats ms (discard ret' (discard ret v));
                    s1 = s\<lparr>snd_scene := scene, snd_depth := depth, snd_heap := h'\<rparr>
                in case RenderedFrame_delete f h' of
                     Inl e \<Rightarrow> Throws e (v1, s1)
                   | Inr h'' \<Rightarrow> Next (v1\<lparr>s_frame_index := s_frame_index v1 + 1\<rparr>, s1\<lparr>snd_heap := h''\<rparr>)))))"

definition send_frame_round ::
  "av_env \<Rightarrow> av_send_fun \<Rightarrow> u64 \<Rightarrow> send_vars \<times> send_state \<Rightarrow> (send_vars \<times> send_state) round" where
  "send_frame_round env av_send ms = (\<lambda>(v, s).
     (case send_get (s_frame_index v) s of
        Inl LockTimeout \<Rightarrow> Next (v\<lparr>s_frame_index := s_frame_index v + 1\<rparr>, s)
      | Inl e \<Rightarrow> Throws e (v, s)
      | Inr (f, s') \<Rightarrow> send_finish env av_send ms f (v, s')))"

section \<open>receive_packet_thread\<close>

text \<open>
  The handler polls the encoder until a packet or an error comes. The script gives, for each
  loop test, what the shutdown flag reads and what the encoder then does.
\<close>

fun receive_packet_handler ::
  "(connection_hdl \<Rightarrow> bool) \<Rightarrow> (bool \<times> (AVCodecContext \<Rightarrow> int \<times> AVPacket \<times> AVCodecContext)) list \<Rightarrow>
   AVCodecContextManager \<times> WebSocketServer \<Rightarrow> (int res \<times> AVCodecContextManager \<times> WebSocketServer) option" where
  "receive_packet_handler send_ok [] (codec, srv) = None"
| "receive_packet_handler send_ok ((shutdown_requested, av_recv) # script) (codec, srv) =
     (if shutdown_requested then Some (Inr (-1), codec, srv)
      else (case receive_packet av_recv codec of
              (Inl e, codec') \<Rightarrow> Some (Inl e, codec', srv)
            | (Inr (ret, pkt), codec') \<Rightarrow>
                (if ret = AVERROR_EAGAIN then receive_packet_handler send_ok script (codec', srv)
                 else if ret = 0
                 then (case consume_packet send_ok pkt srv of
                         (Inl e, srv') \<Rightarrow> Some (Inl e, codec', srv')
                       | (Inr _, srv') \<Rightarrow> Some (Inr 0, codec', srv'))
                 else Some (Inr (-1), codec', srv))))"

text \<open>
  A round of the thread: allocate a packet, run the handler. The result says whether the
  round has set the shutdown flag. \<open>LockTimeout\<close>, the only exception caught, ends the thread.
\<close>

definition receive_packet_round ::
  "bool \<Rightarrow> (connection_hdl \<Rightarrow> bool) \<Rightarrow> (bool \<times> (AVCodecContext \<Rightarrow> int \<times> AVPacket \<times> AVCodecContext)) list \<Rightarrow>
   AVCodecContextManager \<times> WebSocketServer \<Rightarrow> (bool \<times> AVCodecContextManager \<times> WebSocketServer) round" where
  "receive_packet_round packet_alloc send_ok script cs =
     (if \<not> packet_alloc then Throws (RuntimeError ''Failed to allocate AVPacket.'') (False, cs)
      else (case receive_packet_handler send_ok script cs of
              None \<Rightarrow> Blocked
            | Some (Inl LockTimeout, cs') \<Rightarrow> Exit (False, cs')
            | Some (Inl e, cs') \<Rightarrow> Throws e (False, cs')
            | Some (Inr ret, cs') \<Rightarrow> Next (ret < 0, cs')))"

section \<open>encode_stats_thread\<close>

definition kEncodeStatsLogIntervalSeconds :: u64 where
  "kEncodeStatsLogIntervalSeconds = 10"

record stats_vars =
  previous_index :: u64
  seconds :: u64
  rates :: "u64 list"

definition stats_start :: stats_vars where
  "stats_start = \<lparr>previous_index = 0, seconds = 0, rates = []\<rparr>"

definition encode_stats_round :: "u64 \<Rightarrow> u64 \<Rightarrow> stats_vars \<Rightarrow> stats_vars" where
  "encode_stats_round index_left index_right v =
     (let secs = seconds v + 1; current_index = index_left + index_right
      in if secs = kEncodeStatsLogIntervalSeconds
         then v\<lparr>previous_index := current_index, seconds := 0,
                rates := rates v @ [(current_index - previous_index v) div secs]\<rparr>
         else v\<lparr>seconds := secs\<rparr>)"

lemmas encode_defs [op_defs] =
  process_finish_def process_frame_round_def send_finish_def send_frame_round_def send_get_def
  export_and_send_def receive_packet_round_def encode_stats_round_def

section \<open>A population of frames\<close>

text \<open>
  \<open>frames_ok h fs\<close>: the frames \<open>fs\<close> own disjoint, live blocks of the heap. The operations of the
  threads keep this for all frames in flight, wherever they are held.
\<close>

definition frames_ok :: "heap \<Rightarrow> RenderedFrame list \<Rightarrow> bool" where
  "frames_ok h fs = (heap_ok h \<and> (\<forall>f \<in> set fs. frame_wf h f) \<and> distinct (concat (map owned fs)))"

lemma frames_ok_perm:
  assumes "mset fs = mset gs"
  shows "frames_ok h fs = frames_ok h gs"
proof -
  have "mset (concat (map owned xs)) = (\<Sum>f \<in># mset xs. mset (owned f))" for xs
    by (induction xs) simp_all
  then have "mset (concat (map owned fs)) = mset (concat (map owned gs))" using assms by simp
  then have "distinct (concat (map owned fs)) = distinct (concat (map owned gs))"
    by (rule mset_eq_imp_distinct_iff)
  then show ?thesis using mset_eq_setD[OF assms] by (simp add: frames_ok_def)
qed

lemma frame_wf_mono:
  "frame_wf h f \<Longrightarrow> dom (cells h) \<subseteq> dom (cells h') \<Longrightarrow> frame_wf h' f"
  unfolding frame_wf_def by (meson domIff subset_iff)

lemma frames_ok_mono:
  "frames_ok h fs \<Longrightarrow> heap_ok h' \<Longrightarrow> dom (cells h) \<subseteq> dom (cells h') \<Longrightarrow> frames_ok h' fs"
  unfolding frames_ok_def using frame_wf_mono by blast

lemma frames_ok_new:
  assumes ok: "frames_ok h fs" and n: "RenderedFrame_new env r fmt fmt' ni nd h = (f, h')"
  shows "frames_ok h' (f # fs)"
proof -
  have hok: "heap_ok h" using ok by (simp add: frames_ok_def)
  note wf = RenderedFrame_new_wf[OF hok n]
  have sub: "dom (cells h) \<subseteq> dom (cells h')"
  proof
    fix p assume p: "p \<in> dom (cells h)"
    then have "p < fresh h" using heap_dom[OF hok] by auto
    then show "p \<in> dom (cells h')" using wf p by (auto simp: dom_def)
  qed
  have "set (owned g) \<subseteq> {..<fresh h}" if "g \<in> set fs" for g
    using ok that heap_dom[OF hok] by (fastforce simp: frames_ok_def frame_wf_def)
  then have "set (owned f) \<inter> set (concat (map owned fs)) = {}" using wf by fastforce
  then show ?thesis
    using wf ok sub frame_wf_mono by (auto simp: frames_ok_def frame_wf_def)
qed

lemma frames_ok_delete:
  assumes ok: "frames_ok h (f # fs)"
  shows "\<exists>h'. RenderedFrame_delete f h = Inr h' \<and> frames_ok h' fs
    \<and> cells h' = cells h |` (- set (owned f))"
proof -
  obtain h' where d: "RenderedFrame_delete f h = Inr h'" "heap_ok h'" "cells h' = cells h |` (- set (owned f))"
    using RenderedFrame_delete_owned[of h f] ok by (auto simp: frames_ok_def)
  have "frame_wf h' g" if "g \<in> set fs" for g
  proof -
    have "set (owned f) \<inter> set (owned g) = {}" using ok that by (auto simp: frames_ok_def)
    moreover have "frame_wf h g" using ok that by (simp add: frames_ok_def)
    ultimately show ?thesis unfolding frame_wf_def d(3) by (auto simp: restrict_map_def)
  qed
  then show ?thesis using d ok by (auto simp: frames_ok_def)
qed

lemma frames_ok_convert:
  assumes ok: "frames_ok h (f # fs)" and c: "convert_frame env f h = (r, f', h')"
  shows "frames_ok h' (f' # fs)"
proof -
  have "heap_ok h" "frame_wf h f" using ok by (simp_all add: frames_ok_def)
  note k = convert_frame_keeps[OF this c]
  then have "frame_wf h' g" if "g \<in> set fs" for g
    using ok that frame_wf_mono[of h g h'] by (auto simp: frames_ok_def)
  then show ?thesis using k ok by (auto simp: frames_ok_def)
qed

lemma draw_text_keeps:
  assumes "draw_text load fm opt content (ctx, h) = Inr (ctx', h')" "heap_ok h"
  shows "heap_ok h' \<and> dom (cells h') = dom (cells h) \<and> fresh h' = fresh h
    \<and> (\<forall>p. p \<noteq> data0 (m_data fm) \<longrightarrow> cells h' p = cells h p)"
proof -
  obtain sf t where sf: "cells h (data0 (m_data fm)) = Some sf"
    and h': "h' = h\<lparr>cells := (cells h)(data0 (m_data fm) \<mapsto> t)\<rparr>"
    using assms(1) by (auto simp: draw_text_def bindE_Inr_iff split: option.splits)
  have live: "cells h (data0 (m_data fm)) \<noteq> None" using sf by simp
  show ?thesis
    using heap_ok_overwrite[OF assms(2) live] dom_overwrite[of "cells h", OF live] by (simp add: h')
qed

lemma overlay_keeps:
  assumes "overlay load now f (ctx, h) = Inr (ctx', h')" "heap_ok h"
  shows "heap_ok h' \<and> dom (cells h') = dom (cells h) \<and> fresh h' = fresh h
    \<and> (\<forall>p. p \<noteq> data0 (m_data (m_source_avframe_scene f)) \<longrightarrow> cells h' p = cells h p)"
proof -
  let ?src = "m_source_avframe_scene f"
  obtain c1 h1 c2 h2 c3 h3 where
    "draw_text load ?src RENDER_POSITION_CENTER (cam_matrix_text (cam_matrix (get_cam f))) (ctx, h) = Inr (c1, h1)"
    "draw_text load ?src RENDER_POSITION_LEFT_BOTTOM (index_text (frame_index f)) (c1, h1) = Inr (c2, h2)"
    "draw_text load ?src RENDER_POSITION_LEFT_TOP (timestamp now) (c2, h2) = Inr (c3, h3)"
    "draw_text load ?src RENDER_POSITION_RIGHT_TOP (direction_text (frame_is_left f)) (c3, h3) = Inr (ctx', h')"
    using assms(1) by (auto simp: overlay_def bindE_Inr_iff Let_def)
  then show ?thesis using draw_text_keeps assms(2) by metis
qed

lemma filter_key:
  assumes "distinct (keys xs)" "map_of xs k = Some f"
  shows "filter (\<lambda>p. fst p = k) xs = [(k, f)]"
  using assms
proof (induction xs)
  case (Cons p xs)
  have "filter (\<lambda>p. fst p = k) xs = []" if "fst p = k"
    using Cons.prems(1) that by (auto simp: filter_empty_conv image_iff)
  then show ?case using Cons by (cases p) auto
qed simp

lemma mset_get_delete:
  assumes "distinct (keys xs)" "map_of xs k = Some f"
  shows "mset xs = add_mset (k, f) (mset (dropped_frames k xs) + mset (drop_frames k xs))"
proof -
  have "mset xs = mset (filter (\<lambda>p. fst p = k) xs) + mset (map_erase k xs)"
    by (simp add: map_erase_def)
  also have "mset (map_erase k xs) = mset (dropped_frames k xs) + mset (drop_frames k xs)"
    by (simp add: dropped_frames_def drop_frames_def map_erase_if_def Let_def)
  finally show ?thesis using filter_key[OF assms] by simp
qed

lemma delete_frames_ok:
  assumes "frames_ok h (gs @ fs)"
  shows "\<exists>h'. delete_frames gs h = Inr h' \<and> frames_ok h' fs \<and> (\<forall>f \<in> set fs. \<forall>p \<in> set (owned f). cells h' p = cells h p)"
  using assms
proof (induction gs arbitrary: h)
  case (Cons g gs)
  obtain h1 where h1: "RenderedFrame_delete g h = Inr h1" "frames_ok h1 (gs @ fs)" "cells h1 = cells h |` (- set (owned g))"
    using frames_ok_delete[of h g "gs @ fs"] Cons.prems by auto
  obtain h2 where h2: "delete_frames gs h1 = Inr h2" "frames_ok h2 fs" "\<forall>f \<in> set fs. \<forall>p \<in> set (owned f). cells h2 p = cells h1 p"
    using Cons.IH[OF h1(2)] by blast
  have "cells h1 p = cells h p" if "f \<in> set fs" "p \<in> set (owned f)" for f p
  proof -
    have "p \<notin> set (owned g)" using Cons.prems that by (auto simp: frames_ok_def)
    then show ?thesis by (simp add: h1(3))
  qed
  then show ?case using h1(1) h2 by simp
qed simp

lemma FrameMap_inv_distinct: "FrameMap_inv m \<Longrightarrow> distinct (keys (m_map m))"
  by (simp add: FrameMap_inv_def strict_sorted_iff)

text \<open>Fetching a frame: it and the frames left in the map stay well formed, the dropped ones go.\<close>

lemma send_get_ok:
  assumes ok: "frames_ok (snd_heap s) (map snd (m_map (snd_map s)) @ fs)" and inv: "FrameMap_inv (snd_map s)"
  shows "case send_get k s of
      Inr (f, s') \<Rightarrow> frames_ok (snd_heap s') (f # map snd (m_map (snd_map s')) @ fs)
        \<and> FrameMap_get_delete k (snd_map s) = Inr (f, snd_map s')
        \<and> snd_scene s' = snd_scene s \<and> snd_depth s' = snd_depth s
        \<and> (\<forall>p \<in> set (owned f). cells (snd_heap s') p = cells (snd_heap s) p)
    | Inl e \<Rightarrow> e = LockTimeout \<and> map_of (m_map (snd_map s)) k = None"
proof (cases "map_of (m_map (snd_map s)) k")
  case None
  then show ?thesis by (simp add: send_get_def FrameMap_get_delete_def)
next
  case (Some f)
  let ?xs = "m_map (snd_map s)"
  have "mset ?xs = add_mset (k, f) (mset (dropped_frames k ?xs) + mset (drop_frames k ?xs))"
    by (rule mset_get_delete[OF FrameMap_inv_distinct[OF inv] Some])
  then have "mset (map snd ?xs) = add_mset f (mset (map snd (dropped_frames k ?xs)) + mset (map snd (drop_frames k ?xs)))"
    by simp
  then have "mset (map snd ?xs @ fs) = mset (map snd (dropped_frames k ?xs) @ (f # map snd (drop_frames k ?xs) @ fs))"
    by simp
  from frames_ok_perm[OF this] ok
  have "frames_ok (snd_heap s) (map snd (dropped_frames k ?xs) @ (f # map snd (drop_frames k ?xs) @ fs))" by simp
  from delete_frames_ok[OF this] Some show ?thesis
    by (auto simp: send_get_def FrameMap_get_delete_def)
qed

text \<open>Exporting and sending: live blocks keep their bytes, one image block leaks.\<close>

lemma export_and_send_ok:
  assumes "heap_ok h" "export_and_send env av_send fm codec h = (r, codec', h')"
  shows "heap_ok h' \<and> cells h \<subseteq>\<^sub>m cells h'
    \<and> (case r of Inl e \<Rightarrow> e = NullPointer \<or> (\<exists>msg. e = RuntimeError msg)
       | Inr ret \<Rightarrow> \<exists>p bytes. p \<noteq> 0 \<and> cells h p = None \<and> cells h' = (cells h)(p \<mapsto> bytes))"
proof (cases "AVFrameWrapper_new env fm h")
  case (Pair w h1)
  show ?thesis
  proof (cases w)
    case (Inl e)
    then have "heap_ok h1 \<and> cells h \<subseteq>\<^sub>m cells h1 \<and> (\<exists>msg. e = RuntimeError msg)"
      using Pair assms(1)
      by (auto simp: AVFrameWrapper_new_def Let_def heap_new_def heap_ok_def map_le_def
          split: if_splits prod.splits)
    then show ?thesis using assms(2) Pair Inl by (auto simp: export_and_send_def)
  next
    case (Inr w')
    from wrapper_life[OF assms(1) Pair[unfolded Inr]] obtain h2 p bytes where
      h2: "AVFrameWrapper_delete w' h1 = Inr h2" "heap_ok h2" "cells h p = None"
        "cells h2 = (cells h)(p \<mapsto> bytes)" "p \<noteq> 0" by blast
    have le: "cells h \<subseteq>\<^sub>m cells h2" using h2(3,4) by (auto simp: map_le_def)
    have h': "h' = h2" and r: "case r of Inl e \<Rightarrow> e = NullPointer | Inr ret \<Rightarrow> True"
      using assms(2) Pair Inr h2(1)
      by (auto simp: export_and_send_def send_frame_def Let_def split: prod.splits option.splits)
    have "\<exists>p bytes. p \<noteq> 0 \<and> cells h p = None \<and> cells h' = (cells h)(p \<mapsto> bytes)"
      using h2(3,4,5) h' by blast
    then show ?thesis using h2(2) le r unfolding h' by (cases r) simp_all
  qed
qed

section \<open>What the overlay does\<close>

text \<open>The image of a frame holds three bytes per pixel of the size its camera claims.\<close>

definition image_fits :: "heap \<Rightarrow> FrameManager \<Rightarrow> bool" where
  "image_fits h fm =
     (case cells h (data0 (m_data fm)) of
        None \<Rightarrow> False
      | Some bytes \<Rightarrow> 3 * (unat (fc_width (m_context fm)) * unat (fc_height (m_context fm))) \<le> length bytes)
     "

definition drawable :: "FrameManager \<Rightarrow> bool" where
  "drawable fm = (frame_small (fc_width (m_context fm)) (fc_height (m_context fm))
     \<and> uint (fc_width (m_context fm)) \<le> 65535 \<and> uint (fc_height (m_context fm)) \<le> 65535)"

text \<open>
  The bytes a series of texts covers: each is drawn from its own pen position, and finds the glyph slot
  as the texts before it have left it.
\<close>

definition slot_after :: "(char \<Rightarrow> glyph \<Rightarrow> int \<times> glyph) \<Rightarrow> glyph \<Rightarrow> string \<Rightarrow> glyph" where
  "slot_after load = foldl (\<lambda>slot ch. if ch = CHR 0x0A then slot else snd (load ch slot))"

fun texts_area :: "(char \<Rightarrow> glyph \<Rightarrow> int \<times> glyph) \<Rightarrow> u32 \<Rightarrow> u32 \<Rightarrow> glyph \<Rightarrow> (RenderPosition \<times> string) list \<Rightarrow> nat set" where
  "texts_area load width height slot [] = {}"
| "texts_area load width height slot ((opt, content) # texts) =
     (let (x, y) = pen_start opt width height in
      text_area load width height x x y slot content \<union> texts_area load width height (slot_after load slot content) texts)"

lemma render_chars_slot:
  "render_chars load width height line_x x y slot content surface = Inr (slot', t) \<Longrightarrow> slot' = slot_after load slot content"
  by (induction content arbitrary: x y slot surface) (auto simp: slot_after_def bindE_Inr_iff Let_def split: if_splits)

lemma draw_text_paints:
  assumes "face ctx = Some slot" "cells h (data0 (m_data fm)) = Some bytes" "image_fits h fm" "drawable fm"
    and "length content \<le> 16384" and load: "\<forall>ch slot. glyph_small (snd (load ch slot))"
  shows "\<exists>ctx' t. draw_text load fm opt content (ctx, h) = Inr (ctx', h\<lparr>cells := (cells h)(data0 (m_data fm) \<mapsto> t)\<rparr>)
    \<and> face ctx' = Some (slot_after load slot content)
    \<and> painted bytes t (texts_area load (fc_width (m_context fm)) (fc_height (m_context fm)) slot [(opt, content)])"
proof -
  let ?w = "fc_width (m_context fm)" and ?h = "fc_height (m_context fm)"
  define area where "area = text_area load ?w ?h (fst (pen_start opt ?w ?h))
      (fst (pen_start opt ?w ?h)) (snd (pen_start opt ?w ?h)) slot content"
  have "area \<subseteq> {..<length bytes} \<and> outcome bytes (surface_of (render_string_to_frame load ctx ?w ?h opt content bytes)) area"
    using render_string_outcome[OF assms(1) _ _ _ assms(5) load area_def] assms(2-4)
    unfolding drawable_def image_fits_def by fastforce
  then obtain t where t: "surface_of (render_string_to_frame load ctx ?w ?h opt content bytes) = Inr t" "painted bytes t area"
    by (auto simp: outcome_def)
  then obtain ctx' where r: "render_string_to_frame load ctx ?w ?h opt content bytes = Inr (ctx', t)"
    by (auto simp: surface_of_def bindE_Inr_iff)
  moreover have "face ctx' = Some (slot_after load slot content)"
    using r by (auto simp: bindE_Inr_iff render_string_to_frame_def assms(1) split_beta dest!: render_chars_slot)
  moreover have "texts_area load ?w ?h slot [(opt, content)] = area" by (simp add: area_def split_beta)
  ultimately show ?thesis using t(2) assms(2) by (auto simp: draw_text_def)
qed

lemma draw_text_ok:
  assumes "face ctx \<noteq> None" "image_fits h fm" "drawable fm" "length content \<le> 16384"
    and load: "\<forall>ch slot. glyph_small (snd (load ch slot))"
  shows "\<exists>ctx' h'. draw_text load fm opt content (ctx, h) = Inr (ctx', h')
    \<and> face ctx' \<noteq> None \<and> image_fits h' fm"
proof -
  obtain slot bytes where "face ctx = Some slot" "cells h (data0 (m_data fm)) = Some bytes"
    using assms(1,2) by (auto simp: image_fits_def split: option.splits)
  from draw_text_paints[OF this assms(2-5)] show ?thesis
    using assms(2) \<open>cells h _ = _\<close> by (fastforce simp: image_fits_def dest: painted_length)
qed

lemma overlay_texts_short:
  assumes "length (cam_matrix (get_cam f)) \<le> 300" and "tm_hour now < 24" "tm_min now < 60" "tm_sec now \<le> 60"
  shows "length (cam_matrix_text (cam_matrix (get_cam f))) \<le> 16384"
    "length (index_text (frame_index f)) \<le> 16384" "length (timestamp now) \<le> 16384"
    "length (direction_text (frame_is_left f)) \<le> 16384"
  using cam_matrix_text_length[of "cam_matrix (get_cam f)"] index_text_length[of "frame_index f"]
    timestamp_length[OF assms(2-4)] assms(1) by (simp_all add: direction_text_def)

text \<open>The overlay paints the area of its four texts on the source image and nothing else.\<close>

definition overlay_texts :: "clock_time \<Rightarrow> RenderedFrame \<Rightarrow> (RenderPosition \<times> string) list" where
  "overlay_texts now f =
     [(RENDER_POSITION_CENTER, cam_matrix_text (cam_matrix (get_cam f))),
      (RENDER_POSITION_LEFT_BOTTOM, index_text (frame_index f)),
      (RENDER_POSITION_LEFT_TOP, timestamp now),
      (RENDER_POSITION_RIGHT_TOP, direction_text (frame_is_left f))]"

definition overlay_area :: "(char \<Rightarrow> glyph \<Rightarrow> int \<times> glyph) \<Rightarrow> clock_time \<Rightarrow> RenderedFrame \<Rightarrow> glyph \<Rightarrow> nat set" where
  "overlay_area load now f slot = (let c = m_context (m_source_avframe_scene f) in
     texts_area load (fc_width c) (fc_height c) slot (overlay_texts now f))"

fun draw_series :: "(char \<Rightarrow> glyph \<Rightarrow> int \<times> glyph) \<Rightarrow> FrameManager \<Rightarrow> (RenderPosition \<times> string) list \<Rightarrow>
    RenderTextContext \<times> heap \<Rightarrow> (RenderTextContext \<times> heap) res" where
  "draw_series load fm [] st = Inr st"
| "draw_series load fm ((opt, content) # texts) st = bindE (draw_text load fm opt content st) (draw_series load fm texts)"

lemma overlay_series: "overlay load now f st = draw_series load (m_source_avframe_scene f) (overlay_texts now f) st"
proof -
  have unit: "bindE r Inr = r" for r :: "'b res" by (cases r) simp_all
  have step: "draw_series load fm (a # texts) = (\<lambda>st. bindE (draw_text load fm (fst a) (snd a) st) (draw_series load fm texts))"
    and none: "draw_series load fm [] = Inr" for fm a texts by (cases a) (simp_all add: fun_eq_iff)
  show ?thesis by (simp add: overlay_def overlay_texts_def Let_def unit step none del: draw_series.simps)
qed

lemma draw_series_paints:
  assumes "face ctx = Some slot" "cells h (data0 (m_data fm)) = Some bytes" "image_fits h fm" "drawable fm"
    and "\<forall>(opt, content) \<in> set texts. length content \<le> 16384" and load: "\<forall>ch slot. glyph_small (snd (load ch slot))"
  shows "\<exists>ctx' t. draw_series load fm texts (ctx, h) = Inr (ctx', h\<lparr>cells := (cells h)(data0 (m_data fm) \<mapsto> t)\<rparr>)
    \<and> face ctx' \<noteq> None \<and> painted bytes t (texts_area load (fc_width (m_context fm)) (fc_height (m_context fm)) slot texts)"
  using assms(1-3,5)
proof (induction texts arbitrary: ctx slot h bytes)
  case Nil
  then have "h\<lparr>cells := (cells h)(data0 (m_data fm) \<mapsto> bytes)\<rparr> = h" by (simp add: fun_upd_idem)
  then show ?case using Nil by (intro exI[of _ ctx] exI[of _ bytes]) (simp del: fun_upd_apply)
next
  case (Cons a texts)
  obtain opt content where a: "a = (opt, content)" by (cases a)
  obtain ctx1 t1 where 1: "draw_text load fm opt content (ctx, h) = Inr (ctx1, h\<lparr>cells := (cells h)(data0 (m_data fm) \<mapsto> t1)\<rparr>)"
      "face ctx1 = Some (slot_after load slot content)"
      "painted bytes t1 (texts_area load (fc_width (m_context fm)) (fc_height (m_context fm)) slot [(opt, content)])"
    using draw_text_paints[OF Cons.prems(1-3) assms(4) _ load] Cons.prems(4) a by fastforce
  let ?h = "h\<lparr>cells := (cells h)(data0 (m_data fm) \<mapsto> t1)\<rparr>"
  have "image_fits ?h fm" using Cons.prems(2,3) painted_length[OF 1(3)] by (simp add: image_fits_def)
  then obtain ctx2 t2 where 2: "draw_series load fm texts (ctx1, ?h) = Inr (ctx2, ?h\<lparr>cells := (cells ?h)(data0 (m_data fm) \<mapsto> t2)\<rparr>)"
      "face ctx2 \<noteq> None"
      "painted t1 t2 (texts_area load (fc_width (m_context fm)) (fc_height (m_context fm)) (slot_after load slot content) texts)"
    using Cons.IH[OF 1(2), of ?h t1] Cons.prems(4) by fastforce
  show ?case
    using painted_trans[OF 1(3) 2(3)] 1(1) 2(1,2) by (intro exI[of _ ctx2] exI[of _ t2]) (simp add: a split_beta del: fun_upd_apply)
qed

lemma overlay_paints:
  assumes "face ctx = Some slot" "image_fits h (m_source_avframe_scene f)" "drawable (m_source_avframe_scene f)"
    and "length (cam_matrix (get_cam f)) \<le> 300" and "tm_hour now < 24" "tm_min now < 60" "tm_sec now \<le> 60"
    and load: "\<forall>ch slot. glyph_small (snd (load ch slot))"
    and bytes: "cells h (data0 (m_data (m_source_avframe_scene f))) = Some bytes"
  shows "\<exists>ctx' t. overlay load now f (ctx, h) = Inr (ctx', h\<lparr>cells := (cells h)(data0 (m_data (m_source_avframe_scene f)) \<mapsto> t)\<rparr>)
    \<and> face ctx' \<noteq> None \<and> painted bytes t (overlay_area load now f slot)"
  unfolding overlay_series overlay_area_def Let_def
  by (rule draw_series_paints[OF assms(1) bytes assms(2,3) _ load])
    (use overlay_texts_short[OF assms(4-7)] in \<open>simp add: overlay_texts_def\<close>)

lemma overlay_ok:
  assumes "face ctx \<noteq> None" "image_fits h (m_source_avframe_scene f)" "drawable (m_source_avframe_scene f)"
    and "length (cam_matrix (get_cam f)) \<le> 300" and "tm_hour now < 24" "tm_min now < 60" "tm_sec now \<le> 60"
    and load: "\<forall>ch slot. glyph_small (snd (load ch slot))"
  shows "\<exists>ctx' h'. overlay load now f (ctx, h) = Inr (ctx', h') \<and> face ctx' \<noteq> None"
proof -
  obtain slot bytes where "face ctx = Some slot" "cells h (data0 (m_data (m_source_avframe_scene f))) = Some bytes"
    using assms(1,2) by (auto simp: image_fits_def split: option.splits)
  from overlay_paints[OF this(1) assms(2-8) this(2)] show ?thesis by blast
qed

section \<open>Outcomes of the rounds\<close>

lemma mset_map_insert_new:
  "\<not> map_contains xs k \<Longrightarrow> mset (map_insert k v xs) = add_mset (k, v) (mset xs)"
  by (induction k v xs rule: map_insert.induct) (auto simp: map_contains_def)

text \<open>What a processing round leaves: the frame filed under its index, or destroyed.\<close>

definition filed :: "RenderedFrame \<Rightarrow> encode_state \<Rightarrow> encode_state \<Rightarrow> RenderedFrame list \<Rightarrow> bool" where
  "filed f s s' fs =
     (\<exists>f'. m_frame_response f' = m_frame_response f \<and> m_converted f' \<and> frames_ok (enc_heap s') (f' # fs)
        \<and> \<not> map_contains (m_map (enc_map s)) (frame_index f)
        \<and> FrameMap_insert (frame_index f) f' (enc_map s) = Inr (enc_map s'))"

lemma process_finish_outcome:
  assumes ok: "frames_ok (enc_heap s) (f # fs)"
  shows "case process_finish load env now ms f (v, s) of
      Next (v', s') \<Rightarrow> filed f s s' fs
        \<or> (frames_ok (enc_heap s') fs \<and> enc_map s' = enc_map s
           \<and> (map_contains (m_map (enc_map s)) (frame_index f) \<or> \<not> length (m_map (enc_map s)) < kFrameMapMaxSize))
    | Throws e vs \<Rightarrow> overlay load now f (enc_text s, enc_heap s) = Inl e \<or> (\<exists>msg. e = RuntimeError msg)
    | _ \<Rightarrow> False"
proof (cases "overlay load now f (enc_text s, enc_heap s)")
  case (Inl e)
  then show ?thesis by (simp add: process_finish_def)
next
  case (Inr st)
  obtain ctx h where st: "overlay load now f (enc_text s, enc_heap s) = Inr (ctx, h)" using Inr by (cases st) simp
  have hok: "heap_ok (enc_heap s)" using ok by (simp add: frames_ok_def)
  have okh: "frames_ok h (f # fs)"
    using overlay_keeps[OF st hok] frames_ok_mono[OF ok, of h] by simp
  obtain r f' h' where c: "convert_frame env f h = (r, f', h')" by (cases "convert_frame env f h") auto
  have wf: "heap_ok h" "frame_wf h f" using okh by (simp_all add: frames_ok_def)
  note keep = convert_frame_keeps[OF wf c]
  have ok': "frames_ok h' (f' # fs)" by (rule frames_ok_convert[OF okh c])
  obtain h'' where d: "RenderedFrame_delete f' h' = Inr h''" "frames_ok h'' fs"
    using frames_ok_delete[OF ok'] by blast
  show ?thesis
  proof (cases r)
    case (Inl e)
    then show ?thesis using keep st c by (auto simp: process_finish_def)
  next
    case (Inr u)
    have "m_converted f'" "m_frame_response f' = m_frame_response f" using keep Inr by simp_all
    then show ?thesis
      using st c Inr d ok'
      by (auto simp: process_finish_def Let_def filed_def FrameMap_insert_def)
  qed
qed

lemma draw_text_error:
  assumes "draw_text load fm opt content st = Inl e"
  shows "e = NullPointer \<or> (\<exists>k. e = OutOfBounds k)"
proof -
  have px: "blit_pixel g w h j q i p sf = Inl e \<Longrightarrow> \<exists>k. e = OutOfBounds k" for g w h j q i p sf
    unfolding blit_pixel_def Let_def by (simp only: sum.inject sum.distinct split: if_splits) blast+
  have row: "blit_row g w h j q i p n sf = Inl e \<Longrightarrow> \<exists>k. e = OutOfBounds k" for g w h j q i p n sf
    by (induction n arbitrary: i p sf) (auto simp: bindE_Inl_iff dest: px)
  have rows: "blit_rows g w h j q i cols n sf = Inl e \<Longrightarrow> \<exists>k. e = OutOfBounds k" for g w h j q i cols n sf
    by (induction n arbitrary: j q sf) (auto simp: bindE_Inl_iff dest: row)
  have chars: "render_chars load w h ox x y slot cs sf = Inl e \<Longrightarrow> \<exists>k. e = OutOfBounds k" for w h ox x y slot cs sf
    by (induction cs arbitrary: x y slot sf)
      (auto simp: bindE_Inl_iff blit_glyph_def Let_def split: if_splits dest: rows)
  show ?thesis
    using assms
    by (auto simp: draw_text_def bindE_Inl_iff render_string_to_frame_def split_beta
        split: option.splits dest: chars)
qed

lemma overlay_error:
  "overlay load now f st = Inl e \<Longrightarrow> e = NullPointer \<or> (\<exists>k. e = OutOfBounds k)"
  by (auto simp: overlay_def bindE_Inl_iff Let_def dest: draw_text_error)

text \<open>
  From \<open>h\<close> to \<open>h'\<close> the blocks \<open>A\<close> were released and \<open>n\<close> new blocks were left allocated.
\<close>

definition released_leaking :: "nat \<Rightarrow> ptr set \<Rightarrow> heap \<Rightarrow> heap \<Rightarrow> bool" where
  "released_leaking n A h h' = (\<exists>P. finite P \<and> card P = n \<and> P \<inter> dom (cells h) = {}
     \<and> dom (cells h') = (dom (cells h) - A) \<union> P)"

text \<open>A sending round: the frame is destroyed and two image blocks have leaked.\<close>

lemma send_finish_outcome:
  assumes ok: "frames_ok (snd_heap s) (f # fs)"
  shows "case send_finish env av_send ms f (v, s) of
      Next (v', s') \<Rightarrow> frames_ok (snd_heap s') fs \<and> snd_map s' = snd_map s
        \<and> s_frame_index v' = s_frame_index v + 1
        \<and> released_leaking 2 (set (owned f)) (snd_heap s) (snd_heap s')
    | Throws e vs \<Rightarrow> e = NullPointer \<or> (\<exists>msg. e = RuntimeError msg)
    | _ \<Rightarrow> False"
proof -
  have hok: "heap_ok (snd_heap s)" using ok by (simp add: frames_ok_def)
  obtain r scene h where e1: "export_and_send env av_send (m_converted_avframe_scene f) (snd_scene s) (snd_heap s) = (r, scene, h)"
    by (metis prod_cases3)
  note k1 = export_and_send_ok[OF hok e1]
  show ?thesis
  proof (cases r)
    case (Inl e)
    then show ?thesis using k1 e1 by (auto simp: send_finish_def)
  next
    case r: (Inr ret)
    then obtain p bs where p: "cells (snd_heap s) p = None" "cells h = (cells (snd_heap s))(p \<mapsto> bs)"
      and hok1: "heap_ok h" using k1 by auto
    obtain r' depth h' where e2: "export_and_send env av_send (m_converted_avframe_depth f) (snd_depth s) h = (r', depth, h')"
      by (metis prod_cases3)
    note k2 = export_and_send_ok[OF hok1 e2]
    show ?thesis
    proof (cases r')
      case (Inl e)
      then show ?thesis using k2 e1 e2 r by (auto simp: send_finish_def)
    next
      case r': (Inr ret')
      then obtain q bs' where q: "cells h q = None" "cells h' = (cells h)(q \<mapsto> bs')" and hok2: "heap_ok h'"
        using k2 by auto
      have "frames_ok h' (f # fs)"
        by (rule frames_ok_mono[OF ok hok2]) (auto simp: p(2) q(2))
      then obtain h'' where d: "RenderedFrame_delete f h' = Inr h''" "frames_ok h'' fs"
        "cells h'' = cells h' |` (- set (owned f))" using frames_ok_delete by blast
      have live: "set (owned f) \<subseteq> dom (cells (snd_heap s))" using ok by (auto simp: frames_ok_def frame_wf_def)
      have pq: "p \<noteq> q" "cells (snd_heap s) q = None" using p q by (auto split: if_splits)
      have dom: "dom (cells h'') = (dom (cells (snd_heap s)) - set (owned f)) \<union> {p, q}"
      proof -
        have "p \<notin> set (owned f)" "q \<notin> set (owned f)" using live pq(2) p(1) by auto
        then show ?thesis unfolding d(3) q(2) p(2) dom_restrict dom_fun_upd by auto
      qed
      have fi: "s_frame_index (send_stats ms (discard ret' (discard ret v))) = s_frame_index v"
        by (simp add: send_stats_def discard_def Let_def split: option.split)
      have "released_leaking 2 (set (owned f)) (snd_heap s) h''"
        unfolding released_leaking_def using dom pq p(1) by (intro exI[of _ "{p, q}"]) auto
      then show ?thesis
        using e1 e2 r r' d fi by (auto simp: send_finish_def Let_def)
    qed
  qed
qed

text \<open>
  What processing makes of a frame's images, from the heap \<open>h\<close> to \<open>h'\<close>: the texts are painted on the
  source image, and the encoder images hold what libswscale makes of the painted source and of the depth
  image.
\<close>

definition images_made :: "(char \<Rightarrow> glyph \<Rightarrow> int \<times> glyph) \<Rightarrow> av_env \<Rightarrow> clock_time \<Rightarrow> glyph \<Rightarrow> RenderedFrame \<Rightarrow> heap \<Rightarrow> heap \<Rightarrow> bool" where
  "images_made load env now slot f h h' =
     ((\<exists>scene drawn. cells h (frame_ptr f) = Some scene \<and> cells h' (frame_ptr f) = Some drawn
         \<and> painted scene drawn (overlay_area load now f slot)
         \<and> (\<forall>buf. cells h (data0 (m_data (m_converted_avframe_scene f))) = Some buf \<longrightarrow>
              cells h' (data0 (m_data (m_converted_avframe_scene f)))
                = Some (scaled env (m_source_avframe_scene f) (m_converted_avframe_scene f) drawn buf)))
      \<and> (\<exists>depth. cells h (depth_ptr f) = Some depth \<and> cells h' (depth_ptr f) = Some depth
         \<and> (\<forall>buf. cells h (data0 (m_data (m_converted_avframe_depth f))) = Some buf \<longrightarrow>
              cells h' (data0 (m_data (m_converted_avframe_depth f)))
                = Some (scaled env (m_source_avframe_depth f) (m_converted_avframe_depth f) depth buf))))"

lemma overlay_convert_images:
  assumes ok: "heap_ok h" "frame_wf h f" and nc: "\<not> m_converted f"
    and o: "face ctx = Some slot" "image_fits h (m_source_avframe_scene f)"
      "drawable (m_source_avframe_scene f)" "length (cam_matrix (get_cam f)) \<le> 300"
      "tm_hour now < 24" "tm_min now < 60" "tm_sec now \<le> 60"
    and load: "\<forall>ch slot. glyph_small (snd (load ch slot))"
    and sws: "\<forall>a b. sws_getContext env a b"
  shows "\<exists>ctx' h1 h2. overlay load now f (ctx, h) = Inr (ctx', h1) \<and> face ctx' \<noteq> None
    \<and> convert_frame env f h1 = (Inr (), f\<lparr>m_converted := True\<rparr>, h2) \<and> images_made load env now slot f h h2"
proof -
  let ?src = "m_source_avframe_scene f"
  have ptr: "data0 (m_data ?src) = frame_ptr f" using ok(2) by (simp add: frame_wf_def)
  obtain scene depth where b: "cells h (frame_ptr f) = Some scene" "cells h (depth_ptr f) = Some depth"
    using ok(2) by (auto simp: frame_wf_def owned_def)
  obtain ctx' drawn where ov: "overlay load now f (ctx, h) = Inr (ctx', h\<lparr>cells := (cells h)(frame_ptr f \<mapsto> drawn)\<rparr>)"
      "face ctx' \<noteq> None" "painted scene drawn (overlay_area load now f slot)"
    using overlay_paints[OF o load] b(1) unfolding ptr by blast
  let ?h1 = "h\<lparr>cells := (cells h)(frame_ptr f \<mapsto> drawn)\<rparr>"
  have wf: "heap_ok ?h1" "frame_wf ?h1 f"
    using overlay_keeps[OF ov(1) ok(1)] frame_wf_dom[OF ok(2), of ?h1] by simp_all
  obtain h2 where c: "convert_frame env f ?h1 = (Inr (), f\<lparr>m_converted := True\<rparr>, h2)"
    using sws by (simp add: convert_frame_result[OF wf nc])
  have zero: "cells h 0 = None" using live_bounds[OF ok(1), of 0] by blast
  have "frame_ptr f \<noteq> 0" using zero b(1) by (metis option.distinct(1))
  moreover have apart: "depth_ptr f \<noteq> frame_ptr f" using ok(2) by (auto simp: frame_wf_def owned_def)
  ultimately have conv: "data0 (m_data (m_converted_avframe_scene f)) \<noteq> frame_ptr f" "data0 (m_data (m_converted_avframe_depth f)) \<noteq> frame_ptr f"
    using ok(2) by (auto simp: frame_wf_def owned_def manager_owned_def split: if_splits)
  have "images_made load env now slot f h h2"
    using convert_frame_images[OF wf c] b ov(3) apart conv by (auto simp: images_made_def)
  then show ?thesis using ov c by blast
qed

text \<open>On a sound frame a processing round runs to its end and files the frame.\<close>

lemma process_finish_files:
  assumes ok: "frames_ok (enc_heap s) (f # fs)" and nc: "\<not> m_converted f"
    and o: "face (enc_text s) = Some slot" "image_fits (enc_heap s) (m_source_avframe_scene f)"
      "drawable (m_source_avframe_scene f)" "length (cam_matrix (get_cam f)) \<le> 300"
      "tm_hour now < 24" "tm_min now < 60" "tm_sec now \<le> 60"
    and load: "\<forall>ch slot. glyph_small (snd (load ch slot))"
    and sws: "\<forall>a b. sws_getContext env a b"
    and room: "length (m_map (enc_map s)) < kFrameMapMaxSize" "view (enc_map s) (frame_index f) = None"
  shows "\<exists>v' s'. process_finish load env now ms f (v, s) = Next (v', s') \<and> filed f s s' fs
    \<and> face (enc_text s') \<noteq> None \<and> images_made load env now slot f (enc_heap s) (enc_heap s')
    \<and> FrameMap_insert (frame_index f) (f\<lparr>m_converted := True\<rparr>) (enc_map s) = Inr (enc_map s')"
proof -
  let ?p = "process_finish load env now ms f (v, s)"
  have wf: "heap_ok (enc_heap s)" "frame_wf (enc_heap s) f" using ok by (simp_all add: frames_ok_def)
  obtain ctx h1 h2 where ov: "overlay load now f (enc_text s, enc_heap s) = Inr (ctx, h1)" "face ctx \<noteq> None"
      "convert_frame env f h1 = (Inr (), f\<lparr>m_converted := True\<rparr>, h2)" "images_made load env now slot f (enc_heap s) h2"
    using overlay_convert_images[OF wf nc o load sws] by blast
  have fresh: "\<not> map_contains (m_map (enc_map s)) (frame_index f)"
    using room(2) by (simp add: map_contains_map_of view_def)
  have "\<exists>v' s'. ?p = Next (v', s') \<and> face (enc_text s') \<noteq> None \<and> enc_heap s' = h2
      \<and> FrameMap_insert (frame_index f) (f\<lparr>m_converted := True\<rparr>) (enc_map s) = Inr (enc_map s')"
    using ov fresh room(1) by (simp add: process_finish_def Let_def FrameMap_insert_def)
  then obtain v' s' where n: "?p = Next (v', s')" "face (enc_text s') \<noteq> None" "enc_heap s' = h2"
      "FrameMap_insert (frame_index f) (f\<lparr>m_converted := True\<rparr>) (enc_map s) = Inr (enc_map s')" by blast
  then have "filed f s s' fs"
    using process_finish_outcome[OF ok, where load = load and env = env and now = now and ms = ms and v = v]
      fresh room(1) by auto
  with n ov(4) show ?thesis by blast
qed

text \<open>
  When the export of an image succeeds, the encoder gets a wrapper of the image's geometry and sees its
  bytes; the return code comes back whatever it is.
\<close>

definition exportable :: "av_env \<Rightarrow> FrameManager \<Rightarrow> bool" where
  "exportable env fm = (let c = m_context fm in frame_alloc env
     \<and> 0 \<le> fst (image_alloc env (fc_width c) (fc_height c) (fc_pix_fmt c) kBufferSizeAlignValueBytes)
     \<and> 0 \<le> image_fill_pointers env (fc_pix_fmt c) (fc_height c) (linesize (m_data fm)))"

definition wraps :: "FrameManager \<Rightarrow> AVFrameWrapper \<Rightarrow> bool" where
  "wraps fm w = (av_data0 w = data0 (m_data fm) \<and> av_format w = fc_pix_fmt (m_context fm)
     \<and> av_width w = sint (fc_width (m_context fm)) \<and> av_height w = sint (fc_height (m_context fm)))"

text \<open>\<open>handed_over av_send fm h codec ret codec'\<close>: the encoder was given the image \<open>fm\<close> and answered \<open>ret\<close>.\<close>

definition handed_over :: "av_send_fun \<Rightarrow> FrameManager \<Rightarrow> heap \<Rightarrow> AVCodecContextManager \<Rightarrow> int \<Rightarrow> AVCodecContextManager \<Rightarrow> bool" where
  "handed_over av_send fm h codec ret codec' = (\<exists>w ctx ctx'. wraps fm w \<and> m_ctx codec = Some ctx
     \<and> av_send ctx (w, cells h (data0 (m_data fm))) = (ret, ctx') \<and> codec' = codec\<lparr>m_ctx := Some ctx'\<rparr>)"

lemma wrapper_exact:
  "(\<exists>w h1. AVFrameWrapper_new env fm h = (Inr w, h1) \<and> wraps fm w \<and> (\<forall>p < fresh h. cells h1 p = cells h p)) \<and> exportable env fm
   \<or> (\<exists>msg h1. AVFrameWrapper_new env fm h = (Inl (RuntimeError msg), h1)) \<and> \<not> exportable env fm"
proof -
  let ?c = "m_context fm"
  obtain ret ls bytes where i: "image_alloc env (fc_width ?c) (fc_height ?c) (fc_pix_fmt ?c)
      kBufferSizeAlignValueBytes = (ret, ls, bytes)" by (metis prod_cases3)
  show ?thesis
    by (auto simp: AVFrameWrapper_new_def exportable_def i Let_def heap_new_def wraps_def not_le)
qed

lemma export_exact:
  assumes ok: "heap_ok h" and bound: "data0 (m_data fm) < fresh h"
  shows "if exportable env fm \<and> m_ctx codec \<noteq> None
    then \<exists>ret codec' h'. export_and_send env av_send fm codec h = (Inr ret, codec', h') \<and> handed_over av_send fm h codec ret codec'
    else \<exists>e codec' h'. export_and_send env av_send fm codec h = (Inl e, codec', h')
      \<and> (if exportable env fm then e = NullPointer else \<exists>msg. e = RuntimeError msg)"
proof (cases "exportable env fm")
  case True
  then obtain w h1 where w: "AVFrameWrapper_new env fm h = (Inr w, h1)" "wraps fm w" "\<forall>p < fresh h. cells h1 p = cells h p"
    using wrapper_exact[of env fm h] by auto
  obtain h2 where d: "AVFrameWrapper_delete w h1 = Inr h2" using wrapper_life[OF ok w(1)] by blast
  have "cells h1 (av_data0 w) = cells h (data0 (m_data fm))" using w(2,3) bound by (simp add: wraps_def)
  then show ?thesis
    using True w(1,2) d by (cases "m_ctx codec") (auto simp: export_and_send_def send_frame_def handed_over_def split: prod.splits)
next
  case False
  then show ?thesis using wrapper_exact[of env fm h] by (auto simp: export_and_send_def)
qed

definition messages :: "int \<Rightarrow> string list" where
  "messages ret = (case send_switch ret of None \<Rightarrow> [] | Some msg \<Rightarrow> [msg])"

text \<open>The rest of a sending round, exactly: it throws for a failed export or a missing context, never for a return code.\<close>

lemma send_finish_exact:
  assumes ok: "frames_ok (snd_heap s) (f # fs)"
  defines "cs \<equiv> m_converted_avframe_scene f" and "cd \<equiv> m_converted_avframe_depth f"
  shows "if exportable env cs \<and> exportable env cd \<and> m_ctx (snd_scene s) \<noteq> None \<and> m_ctx (snd_depth s) \<noteq> None
    then \<exists>v' s' ret ret'. send_finish env av_send ms f (v, s) = Next (v', s')
      \<and> handed_over av_send cs (snd_heap s) (snd_scene s) ret (snd_scene s')
      \<and> handed_over av_send cd (snd_heap s) (snd_depth s) ret' (snd_depth s')
      \<and> s_discarded v' = s_discarded v @ messages ret @ messages ret'
    else \<exists>e vs. send_finish env av_send ms f (v, s) = Throws e vs
      \<and> (if exportable env cs \<and> (m_ctx (snd_scene s) = None \<or> exportable env cd) then e = NullPointer else \<exists>msg. e = RuntimeError msg)"
proof -
  have wf: "heap_ok (snd_heap s)" "frame_wf (snd_heap s) f" using ok by (simp_all add: frames_ok_def)
  note bound = frame_wf_bounds[OF wf, folded cs_def cd_def]
  show ?thesis
  proof (cases "exportable env cs \<and> m_ctx (snd_scene s) \<noteq> None")
    case False
    then show ?thesis using export_exact[OF wf(1) bound(3), of env "snd_scene s" av_send]
      by (cases "exportable env cs") (auto simp: send_finish_def simp flip: cs_def)
  next
    case True
    then obtain ret scene h where 1: "export_and_send env av_send cs (snd_scene s) (snd_heap s) = (Inr ret, scene, h)"
        "handed_over av_send cs (snd_heap s) (snd_scene s) ret scene"
      using export_exact[OF wf(1) bound(3), of env "snd_scene s" av_send] by auto
    obtain p bytes where k: "heap_ok h" "p \<noteq> 0" "cells (snd_heap s) p = None" "cells h = (cells (snd_heap s))(p \<mapsto> bytes)"
      using export_and_send_ok[OF wf(1) 1(1)] by auto
    have live: "data0 (m_data cd) = 0 \<or> cells (snd_heap s) (data0 (m_data cd)) \<noteq> None"
      using wf(2) by (auto simp: frame_wf_def owned_def manager_owned_def cd_def)
    then have same: "cells h (data0 (m_data cd)) = cells (snd_heap s) (data0 (m_data cd))" and b2: "data0 (m_data cd) < fresh h"
      using k live_bounds[OF k(1), of "data0 (m_data cd)"] by (auto simp: heap_ok_def)
    show ?thesis
    proof (cases "exportable env cd \<and> m_ctx (snd_depth s) \<noteq> None")
      case False
      then show ?thesis using True 1 export_exact[OF k(1) b2, of env "snd_depth s" av_send]
        by (cases "exportable env cd") (auto simp: send_finish_def simp flip: cs_def cd_def)
    next
      case True': True
      have "handed_over av_send cd h = handed_over av_send cd (snd_heap s)" by (simp add: handed_over_def same fun_eq_iff)
      then obtain ret' depth h' where 2: "export_and_send env av_send cd (snd_depth s) h = (Inr ret', depth, h')"
          "handed_over av_send cd (snd_heap s) (snd_depth s) ret' depth"
        using export_exact[OF k(1) b2, of env "snd_depth s" av_send] True' by auto
      then have k2: "heap_ok h'" "cells h \<subseteq>\<^sub>m cells h'" using export_and_send_ok[OF k(1) 2(1)] by auto
      have "frames_ok h' (f # fs)"
        using map_le_implies_dom_le[OF k2(2)] by (intro frames_ok_mono[OF ok k2(1)]) (auto simp: k(4))
      then obtain h'' where "RenderedFrame_delete f h' = Inr h''" using frames_ok_delete by blast
      moreover have "s_discarded (send_stats ms (discard ret' (discard ret v))) = s_discarded v @ messages ret @ messages ret'"
        by (simp add: send_stats_def discard_def messages_def Let_def split: option.split)
      ultimately show ?thesis
        using True True' 1 2 by (auto simp: send_finish_def Let_def simp flip: cs_def cd_def)
    qed
  qed
qed

text \<open>With memory to be had and both encoder contexts in place a sending round runs to its end.\<close>

definition av_healthy :: "av_env \<Rightarrow> bool" where
  "av_healthy env = (frame_alloc env \<and> (\<forall>w h fmt al. 0 \<le> fst (image_alloc env w h fmt al))
     \<and> (\<forall>fmt h ls. 0 \<le> image_fill_pointers env fmt h ls))"

lemma send_finish_runs:
  assumes ok: "frames_ok (snd_heap s) (f # fs)" and ctx: "m_ctx (snd_scene s) \<noteq> None" "m_ctx (snd_depth s) \<noteq> None"
    and env: "av_healthy env"
  shows "\<exists>v' s'. send_finish env av_send ms f (v, s) = Next (v', s')"
proof -
  have "exportable env fm" for fm using env by (simp add: exportable_def av_healthy_def Let_def)
  then show ?thesis using send_finish_exact[OF ok, of env av_send ms v] ctx by auto
qed

section \<open>Properties\<close>

text \<open>
  C31. A processing round on a sound frame succeeds. With a font loaded, an image buffer of
  the size the frame's camera claims, a camera matrix of at most 300 entries, conversion
  contexts to be had, and room in the map under a fresh index: the round takes the frame at the
  head of the queue; paints on its source image exactly the area of the four texts (the camera matrix
  at the centre, the index, the time and the eye in three corners), each byte of it 255 and no other
  byte changed; stores in the encoder images what libswscale makes of the painted image and of the depth
  image; and files the converted frame under its index, where \<open>get_delete\<close> finds it. All frames keep
  their memory.
\<close>

theorem process_round_files:
  assumes "m_queue q = f # rest" and ok: "frames_ok (enc_heap s) (f # fs)" and "\<not> m_converted f"
    and o: "face (enc_text s) = Some slot" "image_fits (enc_heap s) (m_source_avframe_scene f)"
      "drawable (m_source_avframe_scene f)" "length (cam_matrix (get_cam f)) \<le> 300"
      "tm_hour now < 24" "tm_min now < 60" "tm_sec now \<le> 60"
    and load: "\<forall>ch slot. glyph_small (snd (load ch slot))"
    and sws: "\<forall>a b. sws_getContext env a b"
    and inv: "FrameMap_inv (enc_map s)" "length (m_map (enc_map s)) < kFrameMapMaxSize"
      "view (enc_map s) (frame_index f) = None"
  shows "\<exists>v' s' m. process_frame_round load env now ms q (v, s) = (q\<lparr>m_queue := rest\<rparr>, Next (v', s'))
    \<and> images_made load env now slot f (enc_heap s) (enc_heap s')
    \<and> frames_ok (enc_heap s') (f\<lparr>m_converted := True\<rparr> # fs)
    \<and> view (enc_map s') = (view (enc_map s))(frame_index f \<mapsto> f\<lparr>m_converted := True\<rparr>)
    \<and> FrameMap_get_delete (frame_index f) (enc_map s') = Inr (f\<lparr>m_converted := True\<rparr>, m)"
proof -
  let ?f' = "f\<lparr>m_converted := True\<rparr>"
  obtain v' s' where n: "process_finish load env now ms f (v, s) = Next (v', s')" "filed f s s' fs"
      "images_made load env now slot f (enc_heap s) (enc_heap s')"
      "FrameMap_insert (frame_index f) ?f' (enc_map s) = Inr (enc_map s')"
    using process_finish_files[OF ok assms(3) o load sws inv(2,3), where ms = ms and v = v] by blast
  have v': "view (enc_map s') = (view (enc_map s))(frame_index f \<mapsto> ?f')"
    using fmap.ins_ok[OF inv(1,2), of "frame_index f" ?f'] n(4) inv(3) by auto
  moreover obtain f' where f': "frames_ok (enc_heap s') (f' # fs)" "FrameMap_insert (frame_index f) f' (enc_map s) = Inr (enc_map s')"
    using n(2) unfolding filed_def by blast
  moreover have "view (enc_map s') = (view (enc_map s))(frame_index f \<mapsto> f')"
    using fmap.ins_ok[OF inv(1,2), of "frame_index f" f'] f'(2) inv(3) by auto
  ultimately have "f' = ?f'" by (metis fun_upd_same option.inject)
  moreover have "\<exists>m. FrameMap_get_delete (frame_index f) (enc_map s') = Inr (?f', m)"
    using v' by (simp add: FrameMap_get_delete_def view_def)
  ultimately show ?thesis
    using n f' v' assms(1) by (auto simp: process_frame_round_def FrameQueue_pop_def)
qed

definition demo_text_response :: FrameResponse where
  "demo_text_response = demo_response\<lparr>resp_frame := replicate 12 0\<rparr>"

definition demo_text_frame :: "RenderedFrame \<times> heap" where
  "demo_text_frame = RenderedFrame_new demo_av demo_text_response AV_PIX_FMT_RGB24 AV_PIX_FMT_GRAY8
     demo_info demo_info heap_empty"

definition demo_encode :: encode_state where
  "demo_encode = \<lparr>enc_map = FrameMap_new, enc_text = demo_text, enc_heap = snd demo_text_frame\<rparr>"

definition demo_clock :: clock_time where
  "demo_clock = \<lparr>tm_hour = 12, tm_min = 30, tm_sec = 5, ms_since_epoch = 1660000000123\<rparr>"

lemma demo_source_size: "m_context (m_source_avframe_scene (fst demo_text_frame)) =
    \<lparr>fc_width = 2, fc_height = 2, fc_pix_fmt = AV_PIX_FMT_RGB24\<rparr>"
  by (simp add: demo_text_frame_def RenderedFrame_new_def FrameManager_new_def heap_new_def heap_empty_def
      demo_av_def Let_def demo_text_response_def demo_response_def)

lemma demo_text_frame_facts:
  "frames_ok (snd demo_text_frame) [fst demo_text_frame]" "\<not> m_converted (fst demo_text_frame)"
  "image_fits (snd demo_text_frame) (m_source_avframe_scene (fst demo_text_frame))"
  "drawable (m_source_avframe_scene (fst demo_text_frame))"
  "cam_matrix (get_cam (fst demo_text_frame)) = []" "frame_index (fst demo_text_frame) = 7"
proof -
  have n: "RenderedFrame_new demo_av demo_text_response AV_PIX_FMT_RGB24 AV_PIX_FMT_GRAY8
      demo_info demo_info heap_empty = (fst demo_text_frame, snd demo_text_frame)"
    by (simp add: demo_text_frame_def)
  have "frames_ok heap_empty []" by (simp add: frames_ok_def)
  from frames_ok_new[OF this n] show "frames_ok (snd demo_text_frame) [fst demo_text_frame]" .
  note wf = RenderedFrame_new_wf[OF heap_empty_simps(1) n]
  have r: "m_frame_response (fst demo_text_frame) = demo_text_response" using wf by simp
  then show "cam_matrix (get_cam (fst demo_text_frame)) = []" "frame_index (fst demo_text_frame) = 7"
    by (simp_all add: get_cam_def frame_index_def demo_text_response_def demo_response_def Camera_default_def)
  show "\<not> m_converted (fst demo_text_frame)" using wf by simp
  note ctx = demo_source_size
  then show "drawable (m_source_avframe_scene (fst demo_text_frame))"
    by (simp add: drawable_def frame_small_def)
  have "data0 (m_data (m_source_avframe_scene (fst demo_text_frame))) = frame_ptr (fst demo_text_frame)"
    using wf by (simp add: frame_wf_def)
  then show "image_fits (snd demo_text_frame) (m_source_avframe_scene (fst demo_text_frame))"
    using wf ctx by (simp add: image_fits_def demo_text_response_def)
qed

text \<open>A glyph whose one pixel lies fifty pixels up and to the left of the pen: the time starts in the corner of the image.\<close>

definition demo_ink :: glyph where
  "demo_ink = demo_glyph\<lparr>bitmap_left := - 50, bitmap_top := 50\<rparr>"

lemma demo_timestamp: "\<exists>rest. timestamp demo_clock = ''1'' @ rest"
proof -
  have "pad_left 2 CHR ''0'' (show_nat 12) = ''12''" by code_simp
  then show ?thesis by (simp add: timestamp_def demo_clock_def)
qed

lemma demo_corner: "0 \<in> overlay_area (\<lambda>ch g. (0, demo_ink)) demo_clock (fst demo_text_frame) demo_glyph"
proof -
  obtain rest where t: "timestamp demo_clock = ''1'' @ rest" using demo_timestamp by blast
  have "0 \<in> glyph_area demo_ink 2 2 50 50"
    by (auto simp: glyph_area_def block_def cell_def demo_ink_def demo_glyph_def)
  then have "0 \<in> text_area (\<lambda>ch g. (0, demo_ink)) 2 2 50 50 50 slot (timestamp demo_clock)" for slot
    by (simp add: t)
  then show ?thesis
    by (simp add: overlay_area_def overlay_texts_def demo_source_size Let_def split_beta)
qed

theorem process_round_files_witness:
  "\<exists>v' s' m drawn. process_frame_round (\<lambda>ch g. (0, demo_ink)) demo_av demo_clock 4
      \<lparr>m_queue = [fst demo_text_frame]\<rparr> (\<lparr>p_index = 0, p_elapsed = 0, p_logged = []\<rparr>, demo_encode)
      = (\<lparr>m_queue = []\<rparr>, Next (v', s'))
    \<and> cells (enc_heap s') (frame_ptr (fst demo_text_frame)) = Some drawn \<and> drawn ! 0 = 255
    \<and> FrameMap_get_delete 7 (enc_map s') = Inr ((fst demo_text_frame)\<lparr>m_converted := True\<rparr>, m)"
proof -
  let ?f = "fst demo_text_frame"
  have g: "glyph_small demo_ink" by (simp add: demo_ink_def demo_glyph_def glyph_small_def glyph_ok_def)
  obtain v' s' m where r: "process_frame_round (\<lambda>ch g. (0, demo_ink)) demo_av demo_clock 4
      \<lparr>m_queue = [?f]\<rparr> (\<lparr>p_index = 0, p_elapsed = 0, p_logged = []\<rparr>, demo_encode) = (\<lparr>m_queue = []\<rparr>, Next (v', s'))"
    and made: "images_made (\<lambda>ch g. (0, demo_ink)) demo_av demo_clock demo_glyph ?f (enc_heap demo_encode) (enc_heap s')"
    and get: "FrameMap_get_delete (frame_index ?f) (enc_map s') = Inr (?f\<lparr>m_converted := True\<rparr>, m)"
    using process_round_files[where f = ?f and fs = "[]" and q = "\<lparr>m_queue = [?f]\<rparr>" and rest = "[]" and s = demo_encode
        and slot = demo_glyph and now = demo_clock and load = "\<lambda>ch g. (0, demo_ink)" and env = demo_av and ms = 4
        and v = "\<lparr>p_index = 0, p_elapsed = 0, p_logged = []\<rparr>"] demo_text_frame_facts g
    by (auto simp: demo_encode_def demo_clock_def demo_text_def demo_av_def
        FrameMap_inv_new view_def FrameMap_new_def kFrameMapMaxSize_def FrameMap_inv_def)
  obtain scene drawn where d: "cells (enc_heap demo_encode) (frame_ptr ?f) = Some scene"
      "cells (enc_heap s') (frame_ptr ?f) = Some drawn"
      "painted scene drawn (overlay_area (\<lambda>ch g. (0, demo_ink)) demo_clock ?f demo_glyph)"
    using made unfolding images_made_def by blast
  have "data0 (m_data (m_source_avframe_scene ?f)) = frame_ptr ?f"
    using demo_text_frame_facts(1) by (simp add: frames_ok_def frame_wf_def)
  then have "0 < length scene"
    using demo_text_frame_facts(3) d(1) by (auto simp: image_fits_def demo_encode_def demo_source_size)
  then have "drawn ! 0 = 255" using d(3) demo_corner by (simp add: painted_def)
  then show ?thesis using r d(2) get demo_text_frame_facts(6) by auto
qed

text \<open>
  C32. A sending round, exactly. When no frame is filed under the current index, the round moves on to
  the next index and changes nothing else. Otherwise the frame leaves the map. If both its images
  can be exported and both encoder contexts are there, the round moves on whatever the encoders
  return: the scene encoder has been given the scene image and the depth encoder the depth image,
  each with its bytes; for every code of the switch the message was built and dropped, in order; the
  frame is destroyed, the frames left keep their memory, and two image blocks that nobody owns stay
  allocated. In the other cases, and only there, the round throws: \<open>std::runtime_error\<close> for a failed
  export, a null access for a missing context, whichever comes first.
\<close>

theorem send_round_outcome:
  assumes ok: "frames_ok (snd_heap s) (map snd (m_map (snd_map s)) @ fs)" and inv: "FrameMap_inv (snd_map s)"
  shows "case view (snd_map s) (s_frame_index v) of
      None \<Rightarrow> send_frame_round env av_send ms (v, s) = Next (v\<lparr>s_frame_index := s_frame_index v + 1\<rparr>, s)
    | Some f \<Rightarrow>
        (let cs = m_converted_avframe_scene f; cd = m_converted_avframe_depth f in
         if exportable env cs \<and> exportable env cd \<and> m_ctx (snd_scene s) \<noteq> None \<and> m_ctx (snd_depth s) \<noteq> None
         then \<exists>v' s' ret ret'. send_frame_round env av_send ms (v, s) = Next (v', s')
           \<and> s_frame_index v' = s_frame_index v + 1
           \<and> handed_over av_send cs (snd_heap s) (snd_scene s) ret (snd_scene s')
           \<and> handed_over av_send cd (snd_heap s) (snd_depth s) ret' (snd_depth s')
           \<and> s_discarded v' = s_discarded v @ messages ret @ messages ret'
           \<and> FrameMap_get_delete (s_frame_index v) (snd_map s) = Inr (f, snd_map s')
           \<and> frames_ok (snd_heap s') (map snd (m_map (snd_map s')) @ fs)
           \<and> (dropped_frames (s_frame_index v) (m_map (snd_map s)) = [] \<longrightarrow>
               released_leaking 2 (set (owned f)) (snd_heap s) (snd_heap s'))
         else \<exists>e vs. send_frame_round env av_send ms (v, s) = Throws e vs
           \<and> (if exportable env cs \<and> (m_ctx (snd_scene s) = None \<or> exportable env cd) then e = NullPointer
              else \<exists>msg. e = RuntimeError msg))"
proof (cases "view (snd_map s) (s_frame_index v)")
  case None
  then show ?thesis
    by (simp add: send_frame_round_def send_get_def FrameMap_get_delete_def view_def)
next
  case (Some f)
  let ?k = "s_frame_index v" and ?cs = "m_converted_avframe_scene f" and ?cd = "m_converted_avframe_depth f"
  obtain s1 where g: "send_get ?k s = Inr (f, s1)"
    and k: "frames_ok (snd_heap s1) (f # map snd (m_map (snd_map s1)) @ fs)"
      "FrameMap_get_delete ?k (snd_map s) = Inr (f, snd_map s1)"
      "snd_scene s1 = snd_scene s" "snd_depth s1 = snd_depth s" "\<forall>p \<in> set (owned f). cells (snd_heap s1) p = cells (snd_heap s) p"
    using send_get_ok[OF ok inv, of ?k] Some
    by (cases "send_get ?k s") (auto simp: view_def FrameMap_get_delete_def)
  have nd: "snd_heap s1 = snd_heap s" if "dropped_frames ?k (m_map (snd_map s)) = []"
    using g that by (auto simp: send_get_def bindE_Inr_iff)
  have r: "send_frame_round env av_send ms (v, s) = send_finish env av_send ms f (v, s1)"
    by (simp add: send_frame_round_def g)
  have wf: "frame_wf (snd_heap s1) f" and heaps: "cells (snd_heap s1) 0 = None" "cells (snd_heap s) 0 = None"
    using k(1) ok by (simp_all add: frames_ok_def heap_ok_def)
  have same: "cells (snd_heap s1) (data0 (m_data fm)) = cells (snd_heap s) (data0 (m_data fm))" if "fm = ?cs \<or> fm = ?cd" for fm
    using that wf heaps k(5) by (cases "data0 (m_data fm) = 0") (auto simp: frame_wf_def owned_def manager_owned_def)
  have seen: "handed_over av_send ?cs (snd_heap s1) = handed_over av_send ?cs (snd_heap s)" "handed_over av_send ?cd (snd_heap s1) = handed_over av_send ?cd (snd_heap s)"
    using same[of ?cs] same[of ?cd] by (simp_all add: handed_over_def fun_eq_iff)
  note exact = send_finish_exact[OF k(1), of env av_send ms v, unfolded k(3,4) seen]
  show ?thesis
  proof (cases "exportable env ?cs \<and> exportable env ?cd \<and> m_ctx (snd_scene s) \<noteq> None \<and> m_ctx (snd_depth s) \<noteq> None")
    case True
    then obtain v' s' ret ret' where n: "send_finish env av_send ms f (v, s1) = Next (v', s')"
      and sent: "handed_over av_send ?cs (snd_heap s) (snd_scene s) ret (snd_scene s')" "handed_over av_send ?cd (snd_heap s) (snd_depth s) ret' (snd_depth s')"
      and dis: "s_discarded v' = s_discarded v @ messages ret @ messages ret'"
      using exact by auto
    have "s_frame_index v' = s_frame_index v + 1" "FrameMap_get_delete ?k (snd_map s) = Inr (f, snd_map s')"
      "frames_ok (snd_heap s') (map snd (m_map (snd_map s')) @ fs)"
      "dropped_frames ?k (m_map (snd_map s)) = [] \<longrightarrow> released_leaking 2 (set (owned f)) (snd_heap s) (snd_heap s')"
      using send_finish_outcome[OF k(1), where env = env and av_send = av_send and ms = ms and v = v] k(2) nd
      by (auto simp: n)
    then show ?thesis unfolding Some option.case Let_def r if_P[OF True] using n sent dis by blast
  next
    case False
    then show ?thesis using exact Some by (simp add: r Let_def if_not_P)
  qed
qed

definition demo_send :: "send_vars \<times> send_state" where
  "demo_send = (\<lparr>s_frame_index = 7, s_index = 0, s_elapsed = 0, s_logged = [], s_discarded = []\<rparr>,
     \<lparr>snd_scene = demo_codec, snd_depth = demo_codec, snd_map = \<lparr>m_map = [(7, fst demo_text_frame)]\<rparr>,
      snd_heap = snd demo_text_frame\<rparr>)"

theorem send_round_outcome_witness:
  "\<exists>v' s'. send_frame_round demo_av (\<lambda>ctx fr. (AVERROR_EOF, ctx)) 2 demo_send = Next (v', s')
     \<and> s_frame_index v' = 8 \<and> m_map (snd_map s') = [] \<and> length (s_discarded v') = 2
     \<and> released_leaking 2 (set (owned (fst demo_text_frame))) (snd demo_text_frame) (snd_heap s')"
proof -
  have ok: "frames_ok (snd_heap (snd demo_send)) (map snd (m_map (snd_map (snd demo_send))) @ [])"
    and inv: "FrameMap_inv (snd_map (snd demo_send))"
    using demo_text_frame_facts(1) by (simp_all add: demo_send_def FrameMap_inv_def kFrameMapMaxSize_def)
  have nodrop: "dropped_frames 7 [(7, fst demo_text_frame)] = []"
    by (simp add: dropped_frames_def map_erase_def)
  have get: "FrameMap_get_delete 7 \<lparr>m_map = [(7, fst demo_text_frame)]\<rparr> = Inr (fst demo_text_frame, \<lparr>m_map = []\<rparr>)"
    by (simp add: FrameMap_get_delete_def drop_frames_def map_erase_def map_erase_if_def)
  have can: "exportable demo_av fm" for fm by (simp add: exportable_def demo_av_def Let_def)
  have msg: "length (messages AVERROR_EOF) = 1"
    by (simp add: messages_def send_switch_def AVERROR_EOF_def AVERROR_EINVAL_def AVERROR_ENOMEM_def AVERROR_def)
  show ?thesis
    using send_round_outcome[OF ok inv, where env = demo_av and av_send = "\<lambda>ctx fr. (AVERROR_EOF, ctx)" and ms = 2 and v = "fst demo_send"]
      nodrop get can msg by (auto simp: demo_send_def view_def handed_over_def demo_codec_def Let_def dest: sym)
qed

text \<open>Polls that find nothing yet, and the context they leave behind.\<close>

definition idle_polls :: "(bool \<times> (AVCodecContext \<Rightarrow> int \<times> AVPacket \<times> AVCodecContext)) list \<Rightarrow> bool" where
  "idle_polls script = (\<forall>(sd, av_recv) \<in> set script. \<not> sd \<and> (\<forall>ctx. fst (av_recv ctx) = AVERROR_EAGAIN))"

fun polled :: "(bool \<times> (AVCodecContext \<Rightarrow> int \<times> AVPacket \<times> AVCodecContext)) list \<Rightarrow> AVCodecContext \<Rightarrow> AVCodecContext" where
  "polled [] ctx = ctx"
| "polled ((sd, av_recv) # script) ctx = polled script (snd (snd (av_recv ctx)))"

lemma handler_idle:
  assumes "idle_polls script"
  shows "receive_packet_handler send_ok (script @ script') (codec\<lparr>m_ctx := Some ctx\<rparr>, srv) =
    receive_packet_handler send_ok script' (codec\<lparr>m_ctx := Some (polled script ctx)\<rparr>, srv)"
  using assms
proof (induction script arbitrary: ctx)
  case (Cons e script)
  obtain sd av_recv where e: "e = (sd, av_recv)" by fastforce
  have "idle_polls script" "\<not> sd" "fst (av_recv ctx) = AVERROR_EAGAIN"
    using Cons.prems e by (auto simp: idle_polls_def)
  then show ?case
    using Cons.IH[of "snd (snd (av_recv ctx))"] e
    by (auto simp: receive_packet_def Let_def split: prod.splits)
qed simp

text \<open>
  The packet loop. After any number of polls that ask for more input, a packet is broadcast
  to every client, marked in its first byte, and the thread goes on; any other return value
  broadcasts nothing and sets the shutdown flag of the whole program.
\<close>

lemma receive_packet_outcome:
  assumes "idle_polls script" and "m_ctx codec = Some ctx"
    and "m_running srv" and "list_all send_ok (m_connections srv)"
    and "av_recv (polled script ctx) = (ret, pkt, ctx')" and "ret \<noteq> AVERROR_EAGAIN"
    and "pkt_data pkt = b # rest"
  shows "receive_packet_round True send_ok (script @ (False, av_recv) # later) (codec, srv) =
    (if ret = 0
     then Next (False, codec\<lparr>m_ctx := Some ctx'\<rparr>, srv\<lparr>outbox := outbox srv @
       map (\<lambda>c. (c, (if pkt_flags pkt = AV_PKT_FLAG_KEY then 0 else 1) # rest)) (m_connections srv)\<rparr>)
     else Next (True, codec\<lparr>m_ctx := Some ctx'\<rparr>, srv))"
proof -
  have "codec = codec\<lparr>m_ctx := Some ctx\<rparr>" using assms(2) by simp
  then have h: "receive_packet_handler send_ok (script @ (False, av_recv) # later) (codec, srv) =
      receive_packet_handler send_ok ((False, av_recv) # later) (codec\<lparr>m_ctx := Some (polled script ctx)\<rparr>, srv)"
    using handler_idle[OF assms(1)] by metis
  have c: "consume_packet send_ok pkt srv = (Inr (), srv\<lparr>outbox := outbox srv @
      map (\<lambda>c. (c, (if pkt_flags pkt = AV_PKT_FLAG_KEY then 0 else 1) # rest)) (m_connections srv)\<rparr>)"
    using assms(3,4,7)
    by (simp add: consume_packet_def send_to_all_def send_each_result takeWhile_list_all)
  show ?thesis
    using assms(5,6) c by (auto simp: receive_packet_round_def h receive_packet_def)
qed

text \<open>
  The frame rate report. Over ten rounds from a reset, exactly one rate is logged: the number
  of tickets drawn for both eyes since the last report, divided by ten, in 64-bit arithmetic.
\<close>

lemma encode_stats_report:
  assumes "length samples = 10" and "seconds v = 0"
  shows "fold (\<lambda>(l, r). encode_stats_round l r) samples v =
    v\<lparr>previous_index := fst (last samples) + snd (last samples), seconds := 0,
      rates := rates v @ [(fst (last samples) + snd (last samples) - previous_index v) div 10]\<rparr>"
proof -
  have tick: "seconds (fold (\<lambda>(l, r). encode_stats_round l r) xs v) = of_nat (length xs)
      \<and> fold (\<lambda>(l, r). encode_stats_round l r) xs v = v\<lparr>seconds := of_nat (length xs)\<rparr>" if "length xs < 10" for xs
    using that
  proof (induction xs rule: rev_induct)
    case Nil
    then show ?case using assms(2) by simp
  next
    case (snoc x xs)
    have "(of_nat (length xs) + 1 :: u64) \<noteq> 10"
    proof
      assume eq: "(of_nat (length xs) + 1 :: u64) = 10"
      have "unat (of_nat (length xs) + 1 :: u64) = length xs + 1"
        using snoc.prems by (simp add: unat_word_ariths unat_of_nat)
      moreover have "unat (of_nat (length xs) + 1 :: u64) = 10" unfolding eq by simp
      ultimately show False using snoc.prems by simp
    qed
    then show ?case
      using snoc by (cases x) (simp add: encode_stats_round_def kEncodeStatsLogIntervalSeconds_def Let_def add.commute)
  qed
  obtain xs x where x: "samples = xs @ [x]" using assms(1) by (cases samples rule: rev_cases) auto
  then have "length xs = 9" using assms(1) by simp
  then show ?thesis
    using tick[of xs] x by (cases x) (simp add: encode_stats_round_def kEncodeStatsLogIntervalSeconds_def Let_def)
qed

end
