(* ===== verification/Camera_Steps.thy ===== *)
theory Camera_Steps
  imports Camera_Manager
begin

text \<open>
  \<open>set_camera_left\<close> and \<open>set_camera_right\<close> (\<open>camera_manager.cc\<close>) as seen by the other threads: one after
  the other the scene and the depth encoder of the eye get a new width, a new height and a new context
  (\<open>change_resolution\<close>, \<open>type_managers.cc\<close>), and then the camera is stored. The theory names the
  four encoders, lists the writes of a call, and shows that making them one by one is the call.
\<close>

section \<open>The four encoders\<close>

datatype stream = SceneLeft | DepthLeft | SceneRight | DepthRight

fun codec_of :: "stream \<Rightarrow> codecs \<Rightarrow> AVCodecContextManager" where
  "codec_of SceneLeft cs = scene_left cs"
| "codec_of DepthLeft cs = depth_left cs"
| "codec_of SceneRight cs = scene_right cs"
| "codec_of DepthRight cs = depth_right cs"

fun set_codec :: "stream \<Rightarrow> AVCodecContextManager \<Rightarrow> codecs \<Rightarrow> codecs" where
  "set_codec SceneLeft m cs = cs\<lparr>scene_left := m\<rparr>"
| "set_codec DepthLeft m cs = cs\<lparr>depth_left := m\<rparr>"
| "set_codec SceneRight m cs = cs\<lparr>scene_right := m\<rparr>"
| "set_codec DepthRight m cs = cs\<lparr>depth_right := m\<rparr>"

lemma codec_of_set_codec [simp]: "codec_of t (set_codec s m cs) = (if t = s then m else codec_of t cs)"
  by (cases s; cases t) simp_all

definition scene_of :: "bool \<Rightarrow> stream" where
  "scene_of b = (if b then SceneLeft else SceneRight)"

definition depth_of :: "bool \<Rightarrow> stream" where
  "depth_of b = (if b then DepthLeft else DepthRight)"

text \<open>The configurations of all encoders at one moment.\<close>

definition configuration :: "CameraManager \<Rightarrow> stream \<Rightarrow> CodecInitInfo" where
  "configuration cm s = m_info (codec_of s (m_codecs cm))"

section \<open>The writes of a call\<close>

datatype camera_op =
    SetWidth stream u32
  | SetHeight stream u32
  | Reinit stream
  | StoreCamera bool Camera

definition resize_ops :: "stream \<Rightarrow> Camera \<Rightarrow> camera_op list" where
  "resize_ops s camera = [SetWidth s (cam_width camera), SetHeight s (cam_height camera), Reinit s]"

definition camera_ops :: "bool \<Rightarrow> Camera \<Rightarrow> CameraManager \<Rightarrow> camera_op list" where
  "camera_ops b camera cm =
     (let old = (if b then m_camera_left cm else m_camera_right cm)
      in if cam_width old \<noteq> cam_width camera \<or> cam_height old \<noteq> cam_height camera
         then resize_ops (scene_of b) (make_even camera) @ resize_ops (depth_of b) (make_even camera)
           @ [StoreCamera b (make_even camera)]
         else [StoreCamera b camera])"

definition set_info :: "stream \<Rightarrow> (CodecInitInfo \<Rightarrow> CodecInitInfo) \<Rightarrow> CameraManager \<Rightarrow> CameraManager" where
  "set_info s g cm = (let m = codec_of s (m_codecs cm)
     in cm\<lparr>m_codecs := set_codec s (m\<lparr>m_info := g (m_info m)\<rparr>) (m_codecs cm)\<rparr>)"

fun run_camera_op :: "codec_env \<Rightarrow> camera_op \<Rightarrow> CameraManager \<Rightarrow> unit res \<times> CameraManager" where
  "run_camera_op env (SetWidth s w) cm = (Inr (), set_info s (info_width_update (\<lambda>_. w)) cm)"
| "run_camera_op env (SetHeight s h) cm = (Inr (), set_info s (info_height_update (\<lambda>_. h)) cm)"
| "run_camera_op env (Reinit s) cm =
     (let (r, m) = codec_ctx_init env (codec_of s (m_codecs cm)) in (r, cm\<lparr>m_codecs := set_codec s m (m_codecs cm)\<rparr>))"
| "run_camera_op env (StoreCamera b camera) cm =
     (Inr (), if b then cm\<lparr>m_camera_left := camera\<rparr> else cm\<lparr>m_camera_right := camera\<rparr>)"

text \<open>
  The encoder a call is changing: from the first write to its configuration to the end of its
  reinitialisation the call holds both locks of the encoder.
\<close>

fun changing :: "camera_op list \<Rightarrow> stream option" where
  "changing (SetHeight s h # ops) = Some s"
| "changing (Reinit s # ops) = Some s"
| "changing ops = None"

fun run_camera_ops :: "(stream \<Rightarrow> codec_env) \<Rightarrow> camera_op list \<Rightarrow> CameraManager \<Rightarrow> unit res \<times> CameraManager" where
  "run_camera_ops envs [] cm = (Inr (), cm)"
| "run_camera_ops envs (op # ops) cm =
     (let env = (case op of Reinit s \<Rightarrow> envs s | _ \<Rightarrow> envs SceneLeft)
      in case run_camera_op env op cm of
           (Inl e, cm') \<Rightarrow> (Inl e, cm')
         | (Inr _, cm') \<Rightarrow> run_camera_ops envs ops cm')"

section \<open>Lemmas\<close>

lemma configuration_set_info [simp]:
  "configuration (set_info s g cm) t = (if t = s then g (configuration cm t) else configuration cm t)"
  by (simp add: configuration_def set_info_def Let_def)

text \<open>A write touches the two dimensions of a configuration at most.\<close>

lemma run_camera_op_pix_fmt:
  "run_camera_op env op cm = (r, cm') \<Longrightarrow> pix_fmt (configuration cm' s) = pix_fmt (configuration cm s)"
  by (cases op) (auto simp: configuration_def set_info_def Let_def split_beta)

text \<open>Made one by one without a break, the writes are the call.\<close>

lemma run_camera_ops_set_camera:
  "run_camera_ops (\<lambda>s. if s = scene_of b then es else ed) (camera_ops b camera cm) cm
     = (if b then set_camera_left es ed camera cm else set_camera_right es ed camera cm)"
proof -
  have flip: "m\<lparr>m_info := (m_info m)\<lparr>info_height := h, info_width := w\<rparr>\<rparr> = m\<lparr>m_info := (m_info m)\<lparr>info_width := w, info_height := h\<rparr>\<rparr>"
    for m :: AVCodecContextManager and w h by simp
  show ?thesis
    by (cases b)
      (simp_all add: camera_ops_def resize_ops_def scene_of_def depth_of_def set_camera_left_def set_camera_right_def
        change_resolution_def set_info_def Let_def flip split: prod.split sum.split)
qed

end
