(* ===== verification/Pipeline.thy ===== *)
theory Pipeline
  imports Encode_Threads Camera_Steps
begin

text \<open>
  The whole frame path, both eyes: client threads build frames from the renderers' responses and queue
  them, a processing thread per eye moves frames from the queue to the map, a sending thread per eye
  moves them from the map to the encoders, and meanwhile the camera server resizes encoders and
  the packet threads read from them. The threads interleave at their calls on the shared containers,
  which are atomic (theories \<open>Frame_Queue\<close> and \<open>Frame_Map\<close>); between these calls a frame is held by one
  thread. A client thread reads the two configurations it builds a frame for number by number, because
  \<open>CodecInfoProvider\<close> copies them without a lock (theory \<open>Codec_Locks\<close>), and the camera thread makes
  its writes one by one (theory \<open>Camera_Steps\<close>). All other steps are the functions of
  \<open>Server_Threads\<close> and \<open>Encode_Threads\<close>.
\<close>

section \<open>State and steps\<close>

text \<open>
  A response on its way to its queue: what the thread has read so far of scene width, scene height,
  depth width and depth height. Auxiliary: the moments of the reception and of the reads.
\<close>

record arrival =
  ar_frame :: FrameResponse
  ar_dims :: "u32 list"
  ar_at :: "nat list"

text \<open>
  \<open>pl_held\<close> and \<open>pl_sending\<close> are the frames the processing and sending threads hold, \<open>pl_reading\<close> the
  responses the client threads hold, \<open>pl_cam\<close> the rest of the call the camera thread is in. The last
  six fields are auxiliary: the responses received, those whose frames have been built, every
  configuration of the encoders up to now, the frames handed to the encoders of an
  eye with the number of the sending round, and the number of rounds.
\<close>

record pipeline =
  pl_srv :: server_state
  pl_map :: "bool \<Rightarrow> RenderedFrame FrameMap"
  pl_text :: RenderTextContext
  pl_held :: "bool \<Rightarrow> RenderedFrame option"
  pl_sending :: "bool \<Rightarrow> RenderedFrame option"
  pl_send :: "bool \<Rightarrow> send_vars"
  pl_reading :: "arrival list"
  pl_cam :: "camera_op list"
  pl_arrived :: "FrameResponse list"
  pl_built :: "arrival list"
  pl_history :: "(stream \<Rightarrow> CodecInitInfo) list"
  pl_fed :: "bool \<Rightarrow> RenderedFrame list"
  pl_fed_at :: "bool \<Rightarrow> nat list"
  pl_turns :: "bool \<Rightarrow> nat"

definition set_queue :: "bool \<Rightarrow> RenderedFrame FrameQueue \<Rightarrow> server_state \<Rightarrow> server_state" where
  "set_queue b q s = (if b then s\<lparr>frame_queue_left := q\<rparr> else s\<lparr>frame_queue_right := q\<rparr>)"

definition set_codecs ::
  "bool \<Rightarrow> AVCodecContextManager \<Rightarrow> AVCodecContextManager \<Rightarrow> server_state \<Rightarrow> server_state" where
  "set_codecs b scene depth s = s\<lparr>cameramgr := (cameramgr s)\<lparr>m_codecs :=
     (if b then (m_codecs (cameramgr s))\<lparr>scene_left := scene, depth_left := depth\<rparr>
      else (m_codecs (cameramgr s))\<lparr>scene_right := scene, depth_right := depth\<rparr>)\<rparr>\<rparr>"

definition encode_view :: "bool \<Rightarrow> pipeline \<Rightarrow> encode_state" where
  "encode_view b x = \<lparr>enc_map = pl_map x b, enc_text = pl_text x, enc_heap = sv_heap (pl_srv x)\<rparr>"

definition send_view :: "bool \<Rightarrow> pipeline \<Rightarrow> send_state" where
  "send_view b x =
     (let cs = m_codecs (cameramgr (pl_srv x)) in
      \<lparr>snd_scene = (if b then scene_left cs else scene_right cs),
       snd_depth = (if b then depth_left cs else depth_right cs),
       snd_map = pl_map x b, snd_heap = sv_heap (pl_srv x)\<rparr>)"

definition pipe_start :: "pipeline \<Rightarrow> bool" where
  "pipe_start x =
     (frame_queue_left (pl_srv x) = FrameQueue_new \<and> frame_queue_right (pl_srv x) = FrameQueue_new
      \<and> heap_ok (sv_heap (pl_srv x)) \<and> pl_map x = (\<lambda>_. FrameMap_new) \<and> pl_held x = (\<lambda>_. None)
      \<and> pl_sending x = (\<lambda>_. None) \<and> (\<forall>b. s_frame_index (pl_send x b) = 0) \<and> pl_reading x = [] \<and> pl_cam x = []
      \<and> pl_arrived x = [] \<and> pl_built x = [] \<and> pl_history x = [configuration (cameramgr (pl_srv x))]
      \<and> pl_fed x = (\<lambda>_. []) \<and> pl_fed_at x = (\<lambda>_. []) \<and> pl_turns x = (\<lambda>_. 0))"

text \<open>The moment: the configuration in force is the last one recorded, at position \<open>moment x\<close>.\<close>

definition moment :: "pipeline \<Rightarrow> nat" where
  "moment x = length (pl_history x) - 1"

definition receive_response :: "FrameResponse \<Rightarrow> pipeline \<Rightarrow> pipeline" where
  "receive_response frame x =
     x\<lparr>pl_reading := pl_reading x @ [\<lparr>ar_frame = frame, ar_dims = [], ar_at = [moment x]\<rparr>],
       pl_arrived := pl_arrived x @ [frame]\<rparr>"

definition read_dim :: "client_env \<Rightarrow> codecs \<Rightarrow> nat \<Rightarrow> u32" where
  "read_dim env cs k =
     (let scene = m_info (ctxmgr_scene env cs); depth = m_info (ctxmgr_depth env cs)
      in [info_width scene, info_height scene, info_width depth, info_height depth] ! k)"

definition read_next :: "client_env \<Rightarrow> pipeline \<Rightarrow> arrival \<Rightarrow> arrival" where
  "read_next env x a =
     a\<lparr>ar_dims := ar_dims a @ [read_dim env (m_codecs (cameramgr (pl_srv x))) (length (ar_dims a))],
       ar_at := ar_at a @ [moment x]\<rparr>"

text \<open>The copies of the two configurations the thread ends up with.\<close>

definition sized :: "CodecInitInfo \<Rightarrow> u32 \<Rightarrow> u32 \<Rightarrow> CodecInitInfo" where
  "sized info w h = info\<lparr>info_width := w, info_height := h\<rparr>"

definition push_response :: "client_env \<Rightarrow> arrival \<Rightarrow> server_state \<Rightarrow> server_state res" where
  "push_response env a s =
     (let cs = m_codecs (cameramgr s); d = ar_dims a
      in push_frame env (sized (m_info (ctxmgr_scene env cs)) (d ! 0) (d ! 1))
           (sized (m_info (ctxmgr_depth env cs)) (d ! 2) (d ! 3)) (ar_frame a) s)"

text \<open>
  The camera thread takes up a message when it is done with the one before; a write that throws
  ends its call. It keeps the sending and the packet threads away from the encoder it is changing. The
  counters for the statistics of the processing thread do not influence its work; a step starts
  from any. Another step that throws ends the program and has no successor.
\<close>

inductive pipe_step ::
  "client_env \<Rightarrow> (char \<Rightarrow> glyph \<Rightarrow> int \<times> glyph) \<Rightarrow> av_send_fun \<Rightarrow> pipeline \<Rightarrow> pipeline \<Rightarrow> bool"
  for env load av_send where
  ticket: "pipe_step env load av_send x (x\<lparr>pl_srv := after_ticket (pl_srv x)\<rparr>)"
| message: "pl_cam x = [] \<Longrightarrow>
    pipe_step env load av_send x (x\<lparr>pl_cam := camera_ops b camera (cameramgr (pl_srv x))\<rparr>)"
| camera: "pl_cam x = op # ops \<Longrightarrow> run_camera_op cenv op (cameramgr (pl_srv x)) = (r, cm) \<Longrightarrow>
    pipe_step env load av_send x
      (x\<lparr>pl_srv := (pl_srv x)\<lparr>cameramgr := cm\<rparr>, pl_cam := (case r of Inr _ \<Rightarrow> ops | Inl e \<Rightarrow> []),
         pl_history := pl_history x @ [configuration cm]\<rparr>)"
| packet: "changing (pl_cam x) \<noteq> Some t \<Longrightarrow>
    receive_packet (av_recv :: AVCodecContext \<Rightarrow> int \<times> AVPacket \<times> AVCodecContext)
      (codec_of t (m_codecs (cameramgr (pl_srv x)))) = (Inr r, m) \<Longrightarrow>
    pipe_step env load av_send x
      (x\<lparr>pl_srv := (pl_srv x)\<lparr>cameramgr := (cameramgr (pl_srv x))
           \<lparr>m_codecs := set_codec t m (m_codecs (cameramgr (pl_srv x)))\<rparr>\<rparr>\<rparr>)"
| receive: "pipe_step env load av_send x (receive_response frame x)"
| read: "i < length (pl_reading x) \<Longrightarrow> length (ar_dims (pl_reading x ! i)) < 4 \<Longrightarrow>
    pipe_step env load av_send x (x\<lparr>pl_reading := (pl_reading x)[i := read_next env x (pl_reading x ! i)]\<rparr>)"
| arrive: "i < length (pl_reading x) \<Longrightarrow> length (ar_dims (pl_reading x ! i)) = 4 \<Longrightarrow>
    push_response env (pl_reading x ! i) (pl_srv x) = Inr s' \<Longrightarrow>
    pipe_step env load av_send x
      (x\<lparr>pl_srv := s', pl_reading := take i (pl_reading x) @ drop (Suc i) (pl_reading x),
         pl_built := pl_built x @ [pl_reading x ! i]\<rparr>)"
| pop: "pl_held x b = None \<Longrightarrow> FrameQueue_pop (eye_queue b (pl_srv x)) = Inr (f, q) \<Longrightarrow>
    pipe_step env load av_send x
      (x\<lparr>pl_srv := set_queue b q (pl_srv x), pl_held := (pl_held x)(b := Some f)\<rparr>)"
| process: "pl_held x b = Some f \<Longrightarrow>
    process_finish load (av env) now ms f (v, encode_view b x) = Next (v', e) \<Longrightarrow>
    pipe_step env load av_send x
      (x\<lparr>pl_srv := (pl_srv x)\<lparr>sv_heap := enc_heap e\<rparr>, pl_map := (pl_map x)(b := enc_map e),
         pl_text := enc_text e, pl_held := (pl_held x)(b := None)\<rparr>)"
| fetch: "pl_sending x b = None \<Longrightarrow>
    send_get (s_frame_index (pl_send x b)) (send_view b x) = Inr (f, s) \<Longrightarrow>
    pipe_step env load av_send x
      (x\<lparr>pl_srv := (pl_srv x)\<lparr>sv_heap := snd_heap s\<rparr>, pl_map := (pl_map x)(b := snd_map s),
         pl_sending := (pl_sending x)(b := Some f)\<rparr>)"
| skip: "pl_sending x b = None \<Longrightarrow>
    send_get (s_frame_index (pl_send x b)) (send_view b x) = Inl LockTimeout \<Longrightarrow>
    pipe_step env load av_send x
      (x\<lparr>pl_send := (pl_send x)(b := (pl_send x b)\<lparr>s_frame_index := s_frame_index (pl_send x b) + 1\<rparr>),
         pl_turns := (pl_turns x)(b := Suc (pl_turns x b))\<rparr>)"
| send: "pl_sending x b = Some f \<Longrightarrow> changing (pl_cam x) \<notin> {Some (scene_of b), Some (depth_of b)} \<Longrightarrow>
    send_finish (av env) av_send ms f (pl_send x b, send_view b x) = Next (v', s) \<Longrightarrow>
    pipe_step env load av_send x
      (x\<lparr>pl_srv := (set_codecs b (snd_scene s) (snd_depth s) (pl_srv x))\<lparr>sv_heap := snd_heap s\<rparr>,
         pl_sending := (pl_sending x)(b := None), pl_send := (pl_send x)(b := v'),
         pl_fed := (pl_fed x)(b := pl_fed x b @ [f]),
         pl_fed_at := (pl_fed_at x)(b := pl_fed_at x b @ [pl_turns x b]),
         pl_turns := (pl_turns x)(b := Suc (pl_turns x b))\<rparr>)"

definition pipe_reach ::
  "client_env \<Rightarrow> (char \<Rightarrow> glyph \<Rightarrow> int \<times> glyph) \<Rightarrow> av_send_fun \<Rightarrow> pipeline \<Rightarrow> bool" where
  "pipe_reach env load av_send = reach pipe_start (pipe_step env load av_send)"

section \<open>The invariant\<close>

fun held_frame :: "'a option \<Rightarrow> 'a list" where
  "held_frame None = []"
| "held_frame (Some f) = [f]"

text \<open>All frames of one eye, wherever they are.\<close>

definition eye_frames :: "bool \<Rightarrow> pipeline \<Rightarrow> RenderedFrame list" where
  "eye_frames b x = m_queue (eye_queue b (pl_srv x)) @ held_frame (pl_held x b)
     @ map snd (m_map (pl_map x b)) @ held_frame (pl_sending x b)"

definition raw :: "bool \<Rightarrow> RenderedFrame \<Rightarrow> bool" where
  "raw b f = (frame_is_left f = b)"

definition ready :: "bool \<Rightarrow> RenderedFrame \<Rightarrow> bool" where
  "ready b f = (frame_is_left f = b \<and> m_converted f)"

definition eye_inv :: "bool \<Rightarrow> pipeline \<Rightarrow> bool" where
  "eye_inv b x =
     (length (m_queue (eye_queue b (pl_srv x))) \<le> kFrameQueueMaxSize
      \<and> list_all (raw b) (m_queue (eye_queue b (pl_srv x)) @ held_frame (pl_held x b))
      \<and> FrameMap_inv (pl_map x b)
      \<and> list_all (\<lambda>(k, f). ready b f \<and> frame_index f = k) (m_map (pl_map x b))
      \<and> list_all (\<lambda>f. ready b f \<and> frame_index f = of_nat (pl_turns x b)) (held_frame (pl_sending x b))
      \<and> s_frame_index (pl_send x b) = of_nat (pl_turns x b)
      \<and> sorted_wrt (<) (pl_fed_at x b) \<and> list_all (\<lambda>n. n < pl_turns x b) (pl_fed_at x b)
      \<and> map frame_index (pl_fed x b) = map of_nat (pl_fed_at x b)
      \<and> list_all (ready b) (pl_fed x b))"

definition responses :: "RenderedFrame list \<Rightarrow> FrameResponse multiset" where
  "responses fs = image_mset m_frame_response (mset fs)"

definition memory_inv :: "pipeline \<Rightarrow> bool" where
  "memory_inv x = frames_ok (sv_heap (pl_srv x)) (eye_frames True x @ eye_frames False x)"

definition conserved :: "pipeline \<Rightarrow> bool" where
  "conserved x = (responses (pl_fed x True @ eye_frames True x @ pl_fed x False @ eye_frames False x)
     \<subseteq># mset (map ar_frame (pl_built x)))"

definition accounted :: "pipeline \<Rightarrow> bool" where
  "accounted x = (mset (pl_arrived x) = mset (map ar_frame (pl_built x @ pl_reading x)))"

lemma accounted_simps [simp]:
  "accounted (x\<lparr>pl_srv := s\<rparr>) = accounted x" "accounted (x\<lparr>pl_map := m\<rparr>) = accounted x"
  "accounted (x\<lparr>pl_text := t\<rparr>) = accounted x" "accounted (x\<lparr>pl_held := h\<rparr>) = accounted x"
  "accounted (x\<lparr>pl_sending := g\<rparr>) = accounted x" "accounted (x\<lparr>pl_send := v\<rparr>) = accounted x"
  "accounted (x\<lparr>pl_fed := fs\<rparr>) = accounted x" "accounted (x\<lparr>pl_fed_at := ns\<rparr>) = accounted x"
  "accounted (x\<lparr>pl_turns := n\<rparr>) = accounted x"
  by (simp_all add: accounted_def)

definition pipe_inv :: "pipeline \<Rightarrow> bool" where
  "pipe_inv x = (eye_inv True x \<and> eye_inv False x \<and> memory_inv x \<and> conserved x \<and> accounted x)"

lemma responses_simps [simp]:
  "responses [] = {#}" "responses (f # fs) = add_mset (m_frame_response f) (responses fs)"
  "responses (fs @ gs) = responses fs + responses gs"
  by (simp_all add: responses_def)

lemma responses_mset: "mset fs = mset gs \<Longrightarrow> responses fs = responses gs"
  by (simp add: responses_def)

text \<open>The invariant seen from one eye.\<close>

lemma pipe_inv_eye:
  "pipe_inv x \<longleftrightarrow> eye_inv b x \<and> eye_inv (\<not> b) x
     \<and> frames_ok (sv_heap (pl_srv x)) (eye_frames b x @ eye_frames (\<not> b) x)
     \<and> responses (pl_fed x b @ eye_frames b x) + responses (pl_fed x (\<not> b) @ eye_frames (\<not> b) x)
         \<subseteq># mset (map ar_frame (pl_built x)) \<and> accounted x"
proof -
  have "frames_ok h (eye_frames b x @ eye_frames (\<not> b) x) = frames_ok h (eye_frames True x @ eye_frames False x)" for h
    by (rule frames_ok_perm) (cases b; simp)
  then show ?thesis
    by (cases b) (auto simp: pipe_inv_def memory_inv_def conserved_def ac_simps)
qed

lemma queue_simps [simp]:
  "eye_queue b (set_queue b q s) = q" "eye_queue (\<not> b) (set_queue b q s) = eye_queue (\<not> b) s"
  "sv_heap (set_queue b q s) = sv_heap s"
  "eye_queue c (s\<lparr>sv_heap := h\<rparr>) = eye_queue c s" "eye_queue c (s\<lparr>cameramgr := cm\<rparr>) = eye_queue c s"
  "eye_queue c (set_codecs b sc de s) = eye_queue c s" "sv_heap (set_codecs b sc de s) = sv_heap s"
  by (simp_all add: eye_queue_def set_queue_def set_codecs_def)

lemma inv_quiet:
  assumes "pipe_inv x" "\<And>b. eye_queue b s = eye_queue b (pl_srv x)" "sv_heap s = sv_heap (pl_srv x)"
  shows "pipe_inv (x\<lparr>pl_srv := s\<rparr>)"
  using assms by (simp add: pipe_inv_def eye_inv_def memory_inv_def conserved_def accounted_def eye_frames_def)

lemma inv_aux [simp]:
  "pipe_inv (x\<lparr>pl_cam := ops\<rparr>) = pipe_inv x" "pipe_inv (x\<lparr>pl_history := hs\<rparr>) = pipe_inv x"
  by (simp_all add: pipe_inv_def eye_inv_def memory_inv_def conserved_def accounted_def eye_frames_def)

text \<open>The population as seen by the thread that holds a frame, or is about to fetch one.\<close>

abbreviation beside_held :: "bool \<Rightarrow> pipeline \<Rightarrow> RenderedFrame list" where
  "beside_held b x \<equiv> m_queue (eye_queue b (pl_srv x)) @ map snd (m_map (pl_map x b))
     @ held_frame (pl_sending x b) @ eye_frames (\<not> b) x"

abbreviation beside_map :: "bool \<Rightarrow> pipeline \<Rightarrow> RenderedFrame list" where
  "beside_map b x \<equiv> m_queue (eye_queue b (pl_srv x)) @ held_frame (pl_held x b) @ eye_frames (\<not> b) x"

abbreviation beside_sending :: "bool \<Rightarrow> pipeline \<Rightarrow> RenderedFrame list" where
  "beside_sending b x \<equiv> m_queue (eye_queue b (pl_srv x)) @ held_frame (pl_held x b)
     @ map snd (m_map (pl_map x b)) @ eye_frames (\<not> b) x"

lemma view_simps [simp]:
  "enc_map (encode_view b x) = pl_map x b" "enc_heap (encode_view b x) = sv_heap (pl_srv x)"
  "snd_map (send_view b x) = pl_map x b" "snd_heap (send_view b x) = sv_heap (pl_srv x)"
  by (simp_all add: encode_view_def send_view_def Let_def)

lemma population:
  assumes "pipe_inv x"
  shows "pl_held x b = Some f \<Longrightarrow> frames_ok (sv_heap (pl_srv x)) (f # beside_held b x)"
    and "pl_sending x b = None \<Longrightarrow> frames_ok (sv_heap (pl_srv x)) (map snd (m_map (pl_map x b)) @ beside_map b x)"
    and "pl_sending x b = Some f \<Longrightarrow> frames_ok (sv_heap (pl_srv x)) (f # beside_sending b x)"
proof -
  have "frames_ok (sv_heap (pl_srv x)) (eye_frames b x @ eye_frames (\<not> b) x)"
    using assms by (simp add: pipe_inv_eye[of x b])
  then have any: "mset fs = mset (eye_frames b x @ eye_frames (\<not> b) x) \<Longrightarrow> frames_ok (sv_heap (pl_srv x)) fs" for fs
    using frames_ok_perm by blast
  show "pl_held x b = Some f \<Longrightarrow> frames_ok (sv_heap (pl_srv x)) (f # beside_held b x)"
    by (rule any) (simp add: eye_frames_def)
  show "pl_sending x b = None \<Longrightarrow> frames_ok (sv_heap (pl_srv x)) (map snd (m_map (pl_map x b)) @ beside_map b x)"
    by (rule any) (simp add: eye_frames_def)
  show "pl_sending x b = Some f \<Longrightarrow> frames_ok (sv_heap (pl_srv x)) (f # beside_sending b x)"
    by (rule any) (simp add: eye_frames_def)
qed

lemma inv_pop:
  assumes inv: "pipe_inv x" and "pl_held x b = None" "FrameQueue_pop (eye_queue b (pl_srv x)) = Inr (f, q)"
  shows "pipe_inv (x\<lparr>pl_srv := set_queue b q (pl_srv x), pl_held := (pl_held x)(b := Some f)\<rparr>)"
proof -
  let ?y = "x\<lparr>pl_srv := set_queue b q (pl_srv x), pl_held := (pl_held x)(b := Some f)\<rparr>"
  have q: "m_queue (eye_queue b (pl_srv x)) = f # m_queue q"
    using assms(3) by (auto simp: FrameQueue_pop_def split: list.splits)
  have other: "eye_frames (\<not> b) ?y = eye_frames (\<not> b) x" "eye_inv (\<not> b) ?y = eye_inv (\<not> b) x"
    by (simp_all add: eye_frames_def eye_inv_def)
  have m: "mset (eye_frames b ?y) = mset (eye_frames b x)"
    using assms(2) q by (simp add: eye_frames_def)
  have "eye_inv b ?y" using inv assms(2) q by (simp add: pipe_inv_eye[of x b] eye_inv_def)
  moreover have "frames_ok (sv_heap (pl_srv ?y)) (eye_frames b ?y @ eye_frames (\<not> b) ?y)"
    using inv m by (subst frames_ok_perm[where gs = "eye_frames b x @ eye_frames (\<not> b) x"])
      (simp_all add: pipe_inv_eye[of x b] other)
  ultimately show ?thesis
    using inv other responses_mset[OF m] by (simp add: pipe_inv_eye[of x b] pipe_inv_eye[of ?y b])
qed

lemma FrameMap_insert_entries:
  "FrameMap_insert k v m = Inr m' \<Longrightarrow> m_map m' = map_insert k v (m_map m)"
  by (auto simp: FrameMap_insert_def split: if_splits)

lemma inv_process:
  assumes inv: "pipe_inv x" and held: "pl_held x b = Some f"
    and p: "process_finish load env now ms f (v, encode_view b x) = Next (v', e)"
  shows "pipe_inv (x\<lparr>pl_srv := (pl_srv x)\<lparr>sv_heap := enc_heap e\<rparr>, pl_map := (pl_map x)(b := enc_map e),
         pl_text := enc_text e, pl_held := (pl_held x)(b := None)\<rparr>)" (is "pipe_inv ?y")
proof -
  let ?rest = "beside_held b x"
  have other: "eye_frames (\<not> b) ?y = eye_frames (\<not> b) x" "eye_inv (\<not> b) ?y = eye_inv (\<not> b) x"
    by (simp_all add: eye_frames_def eye_inv_def)
  have ok: "frames_ok (enc_heap (encode_view b x)) (f # ?rest)" using population(1)[OF inv held] by simp
  have eb: "eye_inv b x" using inv by (simp add: pipe_inv_eye[of x b])
  from process_finish_outcome[OF ok, where load = load and env = env and now = now and ms = ms and v = v] p
  consider (filed) f' where "m_frame_response f' = m_frame_response f" "m_converted f'"
      "frames_ok (enc_heap e) (f' # ?rest)" "\<not> map_contains (m_map (pl_map x b)) (frame_index f)"
      "FrameMap_insert (frame_index f) f' (pl_map x b) = Inr (enc_map e)"
    | (gone) "frames_ok (enc_heap e) ?rest" "enc_map e = pl_map x b"
    by (auto simp: filed_def)
  then show ?thesis
  proof cases
    case filed
    have em: "m_map (enc_map e) = map_insert (frame_index f) f' (m_map (pl_map x b))"
      by (rule FrameMap_insert_entries[OF filed(5)])
    have mm: "mset (m_map (enc_map e)) = add_mset (frame_index f, f') (mset (m_map (pl_map x b)))"
      unfolding em by (rule mset_map_insert_new[OF filed(4)])
    then have mv: "mset (map snd (m_map (enc_map e))) = add_mset f' (mset (map snd (m_map (pl_map x b))))" by simp
    have "frame_index f' = frame_index f" "frame_is_left f' = frame_is_left f"
      using filed(1) by (simp_all add: frame_index_def frame_is_left_def)
    moreover have "frame_is_left f = b" using eb held by (simp add: eye_inv_def raw_def)
    moreover have "set (m_map (enc_map e)) \<subseteq> insert (frame_index f, f') (set (m_map (pl_map x b)))"
      unfolding em by (rule set_map_insert)
    ultimately have "list_all (\<lambda>(k, g). ready b g \<and> frame_index g = k) (m_map (enc_map e))"
      using eb filed(2) by (auto simp: eye_inv_def list_all_iff ready_def)
    then have "eye_inv b ?y"
      using eb FrameMap_insert_inv[OF filed(5)] by (simp add: eye_inv_def)
    moreover have "frames_ok (sv_heap (pl_srv ?y)) (eye_frames b ?y @ eye_frames (\<not> b) ?y)"
      using filed(3) mv by (subst frames_ok_perm[where gs = "f' # ?rest"]) (simp_all add: other eye_frames_def)
    moreover have "responses (eye_frames b ?y) = responses (eye_frames b x)"
      using mv filed(1) held by (simp add: responses_def eye_frames_def)
    ultimately show ?thesis using inv other by (simp add: pipe_inv_eye[of x b] pipe_inv_eye[of ?y b])
  next
    case gone
    have "eye_inv b ?y" using eb gone(2) by (simp add: eye_inv_def)
    moreover have "frames_ok (sv_heap (pl_srv ?y)) (eye_frames b ?y @ eye_frames (\<not> b) ?y)"
      using gone by (simp add: other eye_frames_def)
    moreover have "responses (eye_frames b ?y) \<subseteq># responses (eye_frames b x)"
      using gone(2) held by (simp add: eye_frames_def)
    ultimately show ?thesis
      using inv other by (auto simp: pipe_inv_eye[of x b] pipe_inv_eye[of ?y b]
          intro: subset_mset.order_trans[rotated] subset_mset.add_mono)
  qed
qed

lemma FrameMap_get_delete_entries:
  "FrameMap_get_delete k m = Inr (f, m') \<Longrightarrow>
     map_of (m_map m) k = Some f \<and> m_map m' = drop_frames k (m_map m)"
  by (auto simp: FrameMap_get_delete_def split: option.splits)

lemma inv_fetch:
  assumes inv: "pipe_inv x" and none: "pl_sending x b = None"
    and g: "send_get (s_frame_index (pl_send x b)) (send_view b x) = Inr (f, s)"
  shows "pipe_inv (x\<lparr>pl_srv := (pl_srv x)\<lparr>sv_heap := snd_heap s\<rparr>, pl_map := (pl_map x)(b := snd_map s),
         pl_sending := (pl_sending x)(b := Some f)\<rparr>)" (is "pipe_inv ?y")
proof -
  let ?k = "s_frame_index (pl_send x b)"
  let ?rest = "beside_map b x"
  have other: "eye_frames (\<not> b) ?y = eye_frames (\<not> b) x" "eye_inv (\<not> b) ?y = eye_inv (\<not> b) x"
    by (simp_all add: eye_frames_def eye_inv_def)
  have eb: "eye_inv b x" using inv by (simp add: pipe_inv_eye[of x b])
  have ok: "frames_ok (snd_heap (send_view b x)) (map snd (m_map (snd_map (send_view b x))) @ ?rest)"
    using population(2)[OF inv none] by simp
  have mi: "FrameMap_inv (snd_map (send_view b x))" using eb by (simp add: eye_inv_def)
  have k: "frames_ok (snd_heap s) (f # map snd (m_map (snd_map s)) @ ?rest)"
    "FrameMap_get_delete ?k (pl_map x b) = Inr (f, snd_map s)"
    using send_get_ok[OF ok mi, of ?k] g by simp_all
  have mo: "map_of (m_map (pl_map x b)) ?k = Some f" and sm: "m_map (snd_map s) = drop_frames ?k (m_map (pl_map x b))"
    using FrameMap_get_delete_entries[OF k(2)] by simp_all
  have ms: "mset (m_map (pl_map x b)) =
      add_mset (?k, f) (mset (dropped_frames ?k (m_map (pl_map x b))) + mset (m_map (snd_map s)))"
    unfolding sm by (rule mset_get_delete[OF FrameMap_inv_distinct mo]) (use mi in simp)
  then have set: "set (m_map (pl_map x b)) =
      insert (?k, f) (set (dropped_frames ?k (m_map (pl_map x b))) \<union> set (m_map (snd_map s)))"
    by (metis set_mset_add_mset_insert set_mset_mset set_mset_union)
  have "image_mset snd (mset (m_map (pl_map x b))) =
      add_mset f (image_mset snd (mset (dropped_frames ?k (m_map (pl_map x b)))) + image_mset snd (mset (m_map (snd_map s))))"
    unfolding ms by simp
  then have r: "responses (eye_frames b ?y) \<subseteq># responses (eye_frames b x)"
    using none by (simp add: eye_frames_def responses_def)
  have "eye_inv b ?y"
    using eb set FrameMap_get_delete_inv[OF k(2)] by (auto simp: eye_inv_def list_all_iff)
  moreover have "frames_ok (sv_heap (pl_srv ?y)) (eye_frames b ?y @ eye_frames (\<not> b) ?y)"
    using k(1) by (subst frames_ok_perm[where gs = "f # map snd (m_map (snd_map s)) @ ?rest"])
      (simp_all add: other eye_frames_def)
  ultimately show ?thesis
    using inv other r by (auto simp: pipe_inv_eye[of x b] pipe_inv_eye[of ?y b]
        intro: subset_mset.order_trans[rotated] subset_mset.add_mono)
qed

lemma inv_skip:
  assumes inv: "pipe_inv x" and none: "pl_sending x b = None"
  shows "pipe_inv (x\<lparr>pl_send := (pl_send x)(b := (pl_send x b)\<lparr>s_frame_index := s_frame_index (pl_send x b) + 1\<rparr>),
         pl_turns := (pl_turns x)(b := Suc (pl_turns x b))\<rparr>)" (is "pipe_inv ?y")
proof -
  have frames: "eye_frames c ?y = eye_frames c x" for c by (simp add: eye_frames_def)
  have "eye_inv b ?y" using inv none by (auto simp: pipe_inv_eye[of x b] eye_inv_def list_all_iff)
  moreover have "eye_inv (\<not> b) ?y = eye_inv (\<not> b) x" by (simp add: eye_inv_def)
  ultimately show ?thesis using inv by (simp add: pipe_inv_eye[of x b] pipe_inv_eye[of ?y b] frames)
qed

lemma inv_send:
  assumes inv: "pipe_inv x" and sending: "pl_sending x b = Some f"
    and p: "send_finish env av_send ms f (pl_send x b, send_view b x) = Next (v', s)"
  shows "pipe_inv (x\<lparr>pl_srv := (set_codecs b (snd_scene s) (snd_depth s) (pl_srv x))\<lparr>sv_heap := snd_heap s\<rparr>,
         pl_sending := (pl_sending x)(b := None), pl_send := (pl_send x)(b := v'),
         pl_fed := (pl_fed x)(b := pl_fed x b @ [f]),
         pl_fed_at := (pl_fed_at x)(b := pl_fed_at x b @ [pl_turns x b]),
         pl_turns := (pl_turns x)(b := Suc (pl_turns x b))\<rparr>)" (is "pipe_inv ?y")
proof -
  let ?rest = "beside_sending b x"
  have other: "eye_frames (\<not> b) ?y = eye_frames (\<not> b) x" "eye_inv (\<not> b) ?y = eye_inv (\<not> b) x"
    by (simp_all add: eye_frames_def eye_inv_def)
  have eb: "eye_inv b x" using inv by (simp add: pipe_inv_eye[of x b])
  have ok: "frames_ok (snd_heap (send_view b x)) (f # ?rest)" using population(3)[OF inv sending] by simp
  have k: "frames_ok (snd_heap s) ?rest" "s_frame_index v' = s_frame_index (pl_send x b) + 1"
    using send_finish_outcome[OF ok, where env = env and av_send = av_send and ms = ms and v = "pl_send x b"] p
    by simp_all
  have "eye_inv b ?y"
    using eb sending k(2) by (auto simp: eye_inv_def sorted_wrt_append list_all_iff)
  moreover have "frames_ok (sv_heap (pl_srv ?y)) (eye_frames b ?y @ eye_frames (\<not> b) ?y)"
    using k(1) by (simp add: other eye_frames_def)
  moreover have "responses (pl_fed ?y b @ eye_frames b ?y) = responses (pl_fed x b @ eye_frames b x)"
    using sending by (simp add: eye_frames_def)
  ultimately show ?thesis using inv other by (simp add: pipe_inv_eye[of x b] pipe_inv_eye[of ?y b])
qed

text \<open>Queueing a response: the frame joins its eye's queue, or the queue is full and it goes.\<close>

lemma push_frame_population:
  assumes ok: "frames_ok (sv_heap s) fs"
  shows "\<exists>s'. push_frame env si di frame s = Inr s' \<and>
    ((\<exists>f q h. m_frame_response f = frame \<and> s' = set_queue (resp_is_left frame) q (s\<lparr>sv_heap := h\<rparr>)
        \<and> FrameQueue_push f (eye_queue (resp_is_left frame) s) = Inr q \<and> frames_ok h (f # fs))
     \<or> (\<exists>h. s' = s\<lparr>sv_heap := h\<rparr> \<and> frames_ok h fs))"
proof -
  let ?b = "resp_is_left frame"
  obtain f h where n: "RenderedFrame_new (av env) frame AV_PIX_FMT_RGB24 AV_PIX_FMT_GRAY8 si di (sv_heap s) = (f, h)" by fastforce
  have r: "m_frame_response f = frame"
    using RenderedFrame_new_wf[OF _ n] ok by (simp add: frames_ok_def)
  then have l: "frame_is_left f = ?b" by (simp add: frame_is_left_def)
  note pop = frames_ok_new[OF ok n]
  obtain h' where d: "RenderedFrame_delete f h = Inr h'" "frames_ok h' fs" using frames_ok_delete[OF pop] by blast
  show ?thesis
  proof (cases "FrameQueue_push f (eye_queue ?b s)")
    case (Inl e)
    then have "push_frame env si di frame s = Inr (s\<lparr>sv_heap := h'\<rparr>)"
      using n l d(1) by (simp add: push_frame_def eye_queue_def split: if_splits)
    then show ?thesis using d(2) by blast
  next
    case (Inr q)
    then have "push_frame env si di frame s = Inr (set_queue ?b q (s\<lparr>sv_heap := h\<rparr>))"
      using n l by (simp add: push_frame_def eye_queue_def set_queue_def split: if_splits)
    then show ?thesis using r Inr pop by blast
  qed
qed

lemma inv_arrive:
  assumes inv: "pipe_inv x" and i: "i < length (pl_reading x)" and p: "push_response env (pl_reading x ! i) (pl_srv x) = Inr s'"
  shows "pipe_inv (x\<lparr>pl_srv := s', pl_reading := take i (pl_reading x) @ drop (Suc i) (pl_reading x),
      pl_built := pl_built x @ [pl_reading x ! i]\<rparr>)" (is "pipe_inv ?y")
proof -
  define frame where "frame = ar_frame (pl_reading x ! i)"
  obtain si di where e: "push_frame env si di frame (pl_srv x) = Inr s'"
    using p unfolding push_response_def Let_def frame_def by blast
  have "mset (pl_reading x) = add_mset (pl_reading x ! i) (mset (take i (pl_reading x)) + mset (drop (Suc i) (pl_reading x)))"
    by (subst id_take_nth_drop[OF i]) simp
  then have "image_mset ar_frame (mset (pl_reading x)) = add_mset frame (image_mset ar_frame (mset (take i (pl_reading x)))
      + image_mset ar_frame (mset (drop (Suc i) (pl_reading x))))" by (simp add: frame_def)
  then have acc: "accounted ?y" using inv by (simp add: pipe_inv_def accounted_def frame_def)
  have built: "mset (map ar_frame (pl_built ?y)) = add_mset frame (mset (map ar_frame (pl_built x)))" by (simp add: frame_def)
  define b where "b = resp_is_left frame"
  have eb: "eye_inv b x" and ok: "frames_ok (sv_heap (pl_srv x)) (eye_frames b x @ eye_frames (\<not> b) x)"
    and cons: "responses (pl_fed x b @ eye_frames b x) + responses (pl_fed x (\<not> b) @ eye_frames (\<not> b) x)
         \<subseteq># mset (map ar_frame (pl_built x))"
    using inv by (simp_all add: pipe_inv_eye[of x b])
  from push_frame_population[OF ok, of env si di frame] e
  consider (queued) f q h where "m_frame_response f = frame" "s' = set_queue b q ((pl_srv x)\<lparr>sv_heap := h\<rparr>)"
      "FrameQueue_push f (eye_queue b (pl_srv x)) = Inr q"
      "frames_ok h (f # eye_frames b x @ eye_frames (\<not> b) x)"
    | (full) h where "s' = (pl_srv x)\<lparr>sv_heap := h\<rparr>" "frames_ok h (eye_frames b x @ eye_frames (\<not> b) x)"
    unfolding b_def by auto
  then show ?thesis
  proof cases
    case queued
    have q: "m_queue q = m_queue (eye_queue b (pl_srv x)) @ [f]" "length (m_queue (eye_queue b (pl_srv x))) < kFrameQueueMaxSize"
      using queued(3) by (auto simp: FrameQueue_push_def split: if_splits)
    have other: "eye_frames (\<not> b) ?y = eye_frames (\<not> b) x" "eye_inv (\<not> b) ?y = eye_inv (\<not> b) x"
      by (simp_all add: eye_frames_def eye_inv_def queued(2))
    have heap: "sv_heap (pl_srv ?y) = h" by (simp add: queued(2))
    have m: "mset (eye_frames b ?y) = add_mset f (mset (eye_frames b x))"
      by (simp add: eye_frames_def queued(2) q)
    have "eye_inv b ?y"
      using eb q queued(1) by (simp add: eye_inv_def queued(2) raw_def frame_is_left_def b_def)
    moreover have "frames_ok (sv_heap (pl_srv ?y)) (eye_frames b ?y @ eye_frames (\<not> b) ?y)"
      unfolding other heap
      using queued(4) m by (subst frames_ok_perm[where gs = "f # eye_frames b x @ eye_frames (\<not> b) x"]) simp_all
    moreover have "responses (eye_frames b ?y) = add_mset frame (responses (eye_frames b x))"
      using m queued(1) by (simp add: responses_def)
    ultimately show ?thesis using inv other cons acc unfolding pipe_inv_eye[of x b] pipe_inv_eye[of ?y b] built by (simp add: add.assoc)
  next
    case full
    have frames: "eye_frames c ?y = eye_frames c x" "eye_inv c ?y = eye_inv c x" for c
      by (simp_all add: eye_frames_def eye_inv_def full(1))
    have "mset (map ar_frame (pl_built x)) \<subseteq># mset (map ar_frame (pl_built ?y))" by simp
    note more = subset_mset.order_trans[OF cons this]
    have heap: "sv_heap (pl_srv ?y) = h" by (simp add: full(1))
    have fed: "pl_fed ?y = pl_fed x" by simp
    show ?thesis
      using inv more full(2) acc unfolding pipe_inv_eye[of x b] pipe_inv_eye[of ?y b] frames heap fed by blast
  qed
qed

lemma inv_receive: "pipe_inv x \<Longrightarrow> pipe_inv (receive_response frame x)"
  by (simp add: receive_response_def pipe_inv_def eye_inv_def memory_inv_def conserved_def accounted_def eye_frames_def)

lemma inv_read:
  assumes "pipe_inv x" "i < length (pl_reading x)"
  shows "pipe_inv (x\<lparr>pl_reading := (pl_reading x)[i := read_next env x (pl_reading x ! i)]\<rparr>)"
proof -
  have "map ar_frame ((pl_reading x)[i := read_next env x (pl_reading x ! i)]) = map ar_frame (pl_reading x)"
    using assms(2) by (simp add: map_update read_next_def list_update_same_conv)
  then show ?thesis
    using assms(1) by (simp add: pipe_inv_def eye_inv_def memory_inv_def conserved_def accounted_def eye_frames_def flip: mset_map)
qed

lemma pipe_inv_start: "pipe_start x \<Longrightarrow> pipe_inv x"
  by (auto simp: pipe_start_def pipe_inv_def eye_inv_def memory_inv_def conserved_def accounted_def eye_frames_def
      eye_queue_def FrameQueue_new_def FrameMap_new_def FrameMap_inv_def frames_ok_def)

interpretation pipe: step_invariant pipe_start "pipe_step env load av_send" pipe_inv
proof
  fix x y assume "pipe_step env load av_send x y" "pipe_inv x"
  then show "pipe_inv y"
    by (induction rule: pipe_step.induct)
      (auto intro: inv_quiet inv_pop inv_process inv_fetch inv_skip inv_send inv_arrive inv_receive inv_read)
qed (rule pipe_inv_start)

lemmas pipe_reach_inv = pipe.inv_reach[folded pipe_reach_def]

lemma pipe_reach_step:
  "pipe_reach env load av_send x \<Longrightarrow> pipe_step env load av_send x y \<Longrightarrow> pipe_reach env load av_send y"
  unfolding pipe_reach_def by (rule reach_step)

section \<open>Following one response\<close>

text \<open>Steps that leave the configuration of every encoder alone.\<close>

definition same_configuration :: "pipeline \<Rightarrow> pipeline \<Rightarrow> bool" where
  "same_configuration x y =
     (let c = m_codecs (cameramgr (pl_srv x)); d = m_codecs (cameramgr (pl_srv y))
      in m_info (scene_left d) = m_info (scene_left c) \<and> m_info (depth_left d) = m_info (depth_left c)
         \<and> m_info (scene_right d) = m_info (scene_right c) \<and> m_info (depth_right d) = m_info (depth_right c))"

lemma export_and_send_info: "export_and_send env av_send fm codec h = (r, codec', h') \<Longrightarrow> m_info codec' = m_info codec"
  by (auto simp: export_and_send_def send_frame_def Let_def split: prod.splits sum.splits option.splits)

lemma send_finish_info:
  assumes "send_finish env av_send ms f (v, s) = Next (v', s')"
  shows "m_info (snd_scene s') = m_info (snd_scene s) \<and> m_info (snd_depth s') = m_info (snd_depth s)"
proof -
  obtain r sc h where 1: "export_and_send env av_send (m_converted_avframe_scene f) (snd_scene s) (snd_heap s) = (r, sc, h)"
    by (metis prod_cases3)
  obtain r' de h' where 2: "export_and_send env av_send (m_converted_avframe_depth f) (snd_depth s) h = (r', de, h')"
    by (metis prod_cases3)
  show ?thesis
    using assms export_and_send_info[OF 1] export_and_send_info[OF 2] unfolding send_finish_def
    by (auto simp: 1 2 Let_def split: sum.splits)
qed

lemma set_queue_camera [simp]: "cameramgr (set_queue b q s) = cameramgr s"
  by (simp add: set_queue_def)

text \<open>A response whose image has the size its camera claims.\<close>

definition sound_response :: "FrameResponse \<Rightarrow> bool" where
  "sound_response r =
     (let w = cam_width (resp_camera r); h = cam_height (resp_camera r)
      in 3 * (unat w * unat h) \<le> length (resp_frame r) \<and> frame_small w h \<and> uint w \<le> 65535
         \<and> uint h \<le> 65535 \<and> length (cam_matrix (resp_camera r)) \<le> 300)"

lemma new_frame_fits:
  assumes "heap_ok h" "sound_response r" "RenderedFrame_new env r AV_PIX_FMT_RGB24 fmt' ni nd h = (f, h')"
  shows "image_fits h' (m_source_avframe_scene f) \<and> drawable (m_source_avframe_scene f)"
proof -
  note wf = RenderedFrame_new_wf[OF assms(1,3)]
  have ctx: "m_context (m_source_avframe_scene f) = \<lparr>fc_width = cam_width (resp_camera r),
      fc_height = cam_height (resp_camera r), fc_pix_fmt = AV_PIX_FMT_RGB24\<rparr>"
    using assms(1,3) by (auto simp: RenderedFrame_new_def FrameManager_new_def heap_ok_def Let_def split_beta)
  have "data0 (m_data (m_source_avframe_scene f)) = frame_ptr f" using wf by (simp add: frame_wf_def)
  then show ?thesis
    using wf ctx assms(2) by (simp add: image_fits_def drawable_def sound_response_def Let_def)
qed

lemma enqueue_frame_room:
  assumes ok: "frames_ok (sv_heap s) fs" and r: "sound_response r" and q: "m_queue (eye_queue (resp_is_left r) s) = []"
  shows "\<exists>f h. enqueue_frame env r s = Inr (set_queue (resp_is_left r) \<lparr>m_queue = [f]\<rparr> (s\<lparr>sv_heap := h\<rparr>))
    \<and> m_frame_response f = r \<and> \<not> m_converted f \<and> frames_ok h (f # fs)
    \<and> image_fits h (m_source_avframe_scene f) \<and> drawable (m_source_avframe_scene f)"
proof -
  let ?b = "resp_is_left r" and ?cs = "m_codecs (cameramgr s)"
  obtain f h where n: "RenderedFrame_new (av env) r AV_PIX_FMT_RGB24 AV_PIX_FMT_GRAY8
      (m_info (ctxmgr_scene env ?cs)) (m_info (ctxmgr_depth env ?cs)) (sv_heap s) = (f, h)" by fastforce
  have hok: "heap_ok (sv_heap s)" using ok by (simp add: frames_ok_def)
  have f: "m_frame_response f = r" "\<not> m_converted f" using RenderedFrame_new_wf[OF hok n] by simp_all
  then have l: "frame_is_left f = ?b" by (simp add: frame_is_left_def)
  have "FrameQueue_push f (eye_queue ?b s) = Inr \<lparr>m_queue = [f]\<rparr>"
    using q by (cases "eye_queue ?b s") (simp add: FrameQueue_push_def kFrameQueueMaxSize_def)
  then have "enqueue_frame env r s = Inr (set_queue ?b \<lparr>m_queue = [f]\<rparr> (s\<lparr>sv_heap := h\<rparr>))"
    using n l by (simp add: enqueue_frame_def push_frame_def eye_queue_def set_queue_def split: if_splits)
  then show ?thesis using f frames_ok_new[OF ok n] new_frame_fits[OF hok r n] by blast
qed

text \<open>
  The contract of a set of runs: the invariant holds, and the set is closed under the steps
  that leave the configurations of the encoders alone. In any such set a response can be
  followed from its arrival to the encoders.
\<close>

locale frame_runs =
  fixes env :: client_env and load :: "char \<Rightarrow> glyph \<Rightarrow> int \<times> glyph" and av_send :: av_send_fun
    and R :: "pipeline \<Rightarrow> bool"
  assumes R_inv: "R x \<Longrightarrow> pipe_inv x"
    and R_step: "R x \<Longrightarrow> pipe_step env load av_send x y \<Longrightarrow> same_configuration x y \<Longrightarrow> R y"
begin

text \<open>A client thread that is not disturbed receives a response, reads, and queues it.\<close>

lemma arrive_one:
  assumes reach: "R x" and e: "enqueue_frame env r (pl_srv x) = Inr s'" and cm: "cameramgr s' = cameramgr (pl_srv x)"
  shows "\<exists>a. R (x\<lparr>pl_srv := s', pl_arrived := pl_arrived x @ [r], pl_built := pl_built x @ [a]\<rparr>)"
proof -
  let ?cs = "m_codecs (cameramgr (pl_srv x))" and ?n = "length (pl_reading x)"
  define a where "a k = \<lparr>ar_frame = r, ar_dims = map (read_dim env ?cs) [0..<k], ar_at = replicate (Suc k) (moment x)\<rparr>" for k
  define y where "y k = x\<lparr>pl_reading := pl_reading x @ [a k], pl_arrived := pl_arrived x @ [r]\<rparr>" for k
  have reads: "k \<le> 4 \<Longrightarrow> R (y k)" for k
  proof (induction k)
    case 0
    have "receive_response r x = y 0" by (simp add: receive_response_def y_def a_def)
    then show ?case using R_step[OF reach pipe_step.receive[of env load av_send x r]] by (simp add: y_def same_configuration_def)
  next
    case (Suc k)
    have "(pl_reading (y k))[?n := read_next env (y k) (pl_reading (y k) ! ?n)] = pl_reading x @ [a (Suc k)]"
      by (simp add: y_def read_next_def a_def moment_def replicate_append_same)
    moreover have "?n < length (pl_reading (y k))" "length (ar_dims (pl_reading (y k) ! ?n)) < 4"
      using Suc.prems by (simp_all add: y_def a_def)
    note pipe_step.read[OF this, of env load av_send]
    moreover have "(y k)\<lparr>pl_reading := pl_reading x @ [a (Suc k)]\<rparr> = y (Suc k)" by (simp add: y_def)
    ultimately have "pipe_step env load av_send (y k) (y (Suc k))" by simp
    then show ?case using R_step[OF Suc.IH] Suc.prems by (simp add: y_def same_configuration_def)
  qed
  have "push_response env (a 4) (pl_srv x) = Inr s'"
    using e by (simp add: push_response_def enqueue_frame_def a_def sized_def read_dim_def Let_def upt_rec numeral_eq_Suc)
  then have "pipe_step env load av_send (y 4) ((y 4)\<lparr>pl_srv := s', pl_reading := pl_reading x, pl_built := pl_built x @ [a 4]\<rparr>)"
    using pipe_step.arrive[of ?n "y 4" env s' load av_send] by (simp add: y_def a_def)
  moreover have "(y 4)\<lparr>pl_srv := s', pl_reading := pl_reading x, pl_built := pl_built x @ [a 4]\<rparr>
      = x\<lparr>pl_srv := s', pl_arrived := pl_arrived x @ [r], pl_built := pl_built x @ [a 4]\<rparr>" by (simp add: y_def)
  ultimately have "pipe_step env load av_send (y 4) (x\<lparr>pl_srv := s', pl_arrived := pl_arrived x @ [r], pl_built := pl_built x @ [a 4]\<rparr>)"
    by simp
  then have "R (x\<lparr>pl_srv := s', pl_arrived := pl_arrived x @ [r], pl_built := pl_built x @ [a 4]\<rparr>)"
    using R_step[OF reads[of 4]] by (simp add: y_def same_configuration_def cm)
  then show ?thesis by blast
qed

text \<open>
  With its queue empty, a font loaded and room in the map under a fresh index, a sound
  response is queued, processed and filed.
\<close>

lemma file_one:
  assumes reach: "R x"
    and q: "m_queue (eye_queue b (pl_srv x)) = []" "pl_held x b = None" "face (pl_text x) \<noteq> None"
    and r: "resp_is_left r = b" "sound_response r"
    and env: "\<forall>ch slot. glyph_small (snd (load ch slot))" "\<forall>a b. sws_getContext (av env) a b"
    and room: "length (m_map (pl_map x b)) < kFrameMapMaxSize" "view (pl_map x b) (resp_index r) = None"
  shows "\<exists>y f. R y \<and> m_frame_response f = r \<and> m_converted f
    \<and> m_map (pl_map y b) = map_insert (resp_index r) f (m_map (pl_map x b))
    \<and> m_queue (eye_queue b (pl_srv y)) = [] \<and> pl_held y b = None \<and> face (pl_text y) \<noteq> None
    \<and> pl_sending y = pl_sending x \<and> pl_send y = pl_send x \<and> pl_turns y = pl_turns x
    \<and> pl_fed y = pl_fed x \<and> pl_cam y = pl_cam x \<and> cameramgr (pl_srv y) = cameramgr (pl_srv x)"
proof -
  let ?fs = "eye_frames True x @ eye_frames False x"
  have ok: "frames_ok (sv_heap (pl_srv x)) ?fs"
    using R_inv[OF reach] by (simp add: pipe_inv_def memory_inv_def)
  obtain f h where e: "enqueue_frame env r (pl_srv x) = Inr (set_queue b \<lparr>m_queue = [f]\<rparr> ((pl_srv x)\<lparr>sv_heap := h\<rparr>))"
    and f: "m_frame_response f = r" "\<not> m_converted f" "frames_ok h (f # ?fs)"
      "image_fits h (m_source_avframe_scene f)" "drawable (m_source_avframe_scene f)"
    using enqueue_frame_room[OF ok r(2), of env] q(1) unfolding r(1) by blast
  let ?s1 = "set_queue b \<lparr>m_queue = [f]\<rparr> ((pl_srv x)\<lparr>sv_heap := h\<rparr>)"
  obtain a where r1: "R (x\<lparr>pl_srv := ?s1, pl_arrived := pl_arrived x @ [r], pl_built := pl_built x @ [a]\<rparr>)"
    using arrive_one[OF reach e] by auto
  let ?x1 = "x\<lparr>pl_srv := ?s1, pl_arrived := pl_arrived x @ [r], pl_built := pl_built x @ [a]\<rparr>"
  let ?x2 = "?x1\<lparr>pl_srv := set_queue b \<lparr>m_queue = []\<rparr> ?s1, pl_held := (pl_held x)(b := Some f)\<rparr>"
  have "pipe_step env load av_send ?x1 ?x2"
    using pipe_step.pop[of ?x1 b f "\<lparr>m_queue = []\<rparr>" env load av_send] q(2) by (simp add: FrameQueue_pop_def)
  then have r2: "R ?x2" by (rule R_step[OF r1]) (simp add: same_configuration_def)
  have view: "encode_view b ?x2 = \<lparr>enc_map = pl_map x b, enc_text = pl_text x, enc_heap = h\<rparr>"
    by (simp add: encode_view_def)
  let ?now = "\<lparr>tm_hour = 0, tm_min = 0, tm_sec = 0, ms_since_epoch = 0\<rparr>"
  obtain slot where slot: "face (pl_text x) = Some slot" using q(3) by auto
  have "length (cam_matrix (get_cam f)) \<le> 300" using r(2) f(1) by (simp add: get_cam_def sound_response_def Let_def)
  then obtain v' e' where p: "process_finish load (av env) ?now 0 f (undefined, encode_view b ?x2) = Next (v', e')"
    and filed: "filed f (encode_view b ?x2) e' ?fs" and face: "face (enc_text e') \<noteq> None"
    using process_finish_files[of "encode_view b ?x2" f ?fs slot ?now load "av env" 0 undefined] f slot env room
    unfolding view by (auto simp: frame_index_def)
  let ?y = "?x2\<lparr>pl_srv := (pl_srv ?x2)\<lparr>sv_heap := enc_heap e'\<rparr>, pl_map := (pl_map x)(b := enc_map e'),
      pl_text := enc_text e', pl_held := (pl_held ?x2)(b := None)\<rparr>"
  have "pipe_step env load av_send ?x2 ?y"
    using pipe_step.process[of ?x2 b f load env ?now 0 undefined v' e' av_send] p by simp
  then have r3: "R ?y" by (rule R_step[OF r2]) (simp add: same_configuration_def)
  obtain f' where f': "m_frame_response f' = r" "m_converted f'"
      "FrameMap_insert (resp_index r) f' (pl_map x b) = Inr (enc_map e')"
    using filed unfolding view filed_def frame_index_def f(1) by auto
  show ?thesis
    using r3 f' face FrameMap_insert_entries[OF f'(3)]
    by (intro exI[of _ ?y] exI[of _ f']) simp
qed

text \<open>A filed frame whose turn it is reaches the encoders.\<close>

lemma feed_one:
  assumes reach: "R x" and none: "pl_sending x b = None"
    and f: "map_of (m_map (pl_map x b)) (s_frame_index (pl_send x b)) = Some f"
    and codecs: "m_ctx (snd_scene (send_view b x)) \<noteq> None" "m_ctx (snd_depth (send_view b x)) \<noteq> None"
    and env: "av_healthy (av env)" and idle: "pl_cam x = []"
  shows "\<exists>y. R y \<and> pl_fed y b = pl_fed x b @ [f]"
proof -
  let ?k = "s_frame_index (pl_send x b)"
  let ?rest = "beside_map b x"
  have ok: "frames_ok (snd_heap (send_view b x)) (map snd (m_map (snd_map (send_view b x))) @ ?rest)"
    using population(2)[OF R_inv[OF reach] none] by simp
  have "FrameMap_inv (snd_map (send_view b x))"
    using R_inv[OF reach] by (simp add: pipe_inv_eye[of x b] eye_inv_def)
  then obtain s where g: "send_get ?k (send_view b x) = Inr (f, s)"
    and s: "frames_ok (snd_heap s) (f # map snd (m_map (snd_map s)) @ ?rest)"
      "snd_scene s = snd_scene (send_view b x)" "snd_depth s = snd_depth (send_view b x)"
    using send_get_ok[OF ok, of ?k] f
    by (cases "send_get ?k (send_view b x)") (auto simp: FrameMap_get_delete_def)
  let ?y = "x\<lparr>pl_srv := (pl_srv x)\<lparr>sv_heap := snd_heap s\<rparr>, pl_map := (pl_map x)(b := snd_map s),
         pl_sending := (pl_sending x)(b := Some f)\<rparr>"
  have r1: "R ?y" by (rule R_step[OF reach pipe_step.fetch[OF none g]]) (simp add: same_configuration_def)
  have sv: "send_view b ?y = s"
    using s(2,3) by (cases s) (simp add: send_view_def Let_def)
  obtain v' s' where p: "send_finish (av env) av_send 0 f (pl_send ?y b, send_view b ?y) = Next (v', s')"
    using send_finish_runs[OF s(1) _ _ env] codecs s(2,3) unfolding sv by metis
  let ?z = "?y\<lparr>pl_srv := (set_codecs b (snd_scene s') (snd_depth s') (pl_srv ?y))\<lparr>sv_heap := snd_heap s'\<rparr>,
         pl_sending := (pl_sending ?y)(b := None), pl_send := (pl_send ?y)(b := v'),
         pl_fed := (pl_fed ?y)(b := pl_fed ?y b @ [f]),
         pl_fed_at := (pl_fed_at ?y)(b := pl_fed_at ?y b @ [pl_turns ?y b]),
         pl_turns := (pl_turns ?y)(b := Suc (pl_turns ?y b))\<rparr>"
  have "pl_sending ?y b = Some f" "changing (pl_cam ?y) \<notin> {Some (scene_of b), Some (depth_of b)}" using idle by simp_all
  note step = pipe_step.send[OF this p]
  have "same_configuration ?y ?z"
    using send_finish_info[OF p] by (simp add: same_configuration_def set_codecs_def send_view_def Let_def)
  then have "R ?z" by (rule R_step[OF r1 step])
  then show ?thesis by (intro exI[of _ ?z]) simp
qed

end

interpretation run: frame_runs env load av_send "pipe_reach env load av_send"
  by unfold_locales (auto intro: pipe_reach_inv pipe_reach_step)

section \<open>Properties\<close>

text \<open>
  C1. Memory safety of the frame path. In every reachable state of both eyes' threads, under
  any interleaving, the frames in flight own disjoint live blocks; a response can always be
  queued or dropped; and no step of the processing or the sending threads releases a block
  that is not allocated, whatever the clock, the font, the encoders and libav do.
\<close>

theorem pipeline_memory_safe:
  assumes "pipe_reach env load av_send x"
  shows "frames_ok (sv_heap (pl_srv x)) (eye_frames True x @ eye_frames False x)
    \<and> (\<exists>s'. enqueue_frame env frame (pl_srv x) = Inr s') \<and> (\<exists>s'. push_frame env scene depth frame (pl_srv x) = Inr s')
    \<and> (\<forall>b f now ms v p vs. pl_held x b = Some f \<longrightarrow>
         process_finish load (av env) now ms f (v, encode_view b x) \<noteq> Throws (InvalidFree p) vs)
    \<and> (\<forall>b k p. pl_sending x b = None \<longrightarrow> send_get k (send_view b x) \<noteq> Inl (InvalidFree p))
    \<and> (\<forall>b f ms v p vs. pl_sending x b = Some f \<longrightarrow>
         send_finish (av env) av_send ms f (v, send_view b x) \<noteq> Throws (InvalidFree p) vs)"
proof -
  have inv: "pipe_inv x" and mi: "FrameMap_inv (pl_map x b)" for b
    using pipe_reach_inv[OF assms] by (simp_all add: pipe_inv_eye[of x b] eye_inv_def)
  have ok: "frames_ok (sv_heap (pl_srv x)) (eye_frames True x @ eye_frames False x)"
    using inv by (simp add: pipe_inv_def memory_inv_def)
  have p: "process_finish load (av env) now ms f (v, encode_view b x) \<noteq> Throws (InvalidFree p) vs"
    if "pl_held x b = Some f" for b f now ms v p vs
    using process_finish_outcome[where s = "encode_view b x" and f = f and fs = "beside_held b x" and load = load
        and env = "av env" and now = now and ms = ms and v = v]
      population(1)[OF inv that] by (auto dest: overlay_error)
  have g: "send_get k (send_view b x) \<noteq> Inl (InvalidFree p)" if "pl_sending x b = None" for b k p
    using send_get_ok[of "send_view b x" "beside_map b x" k] population(2)[OF inv that] mi by auto
  have s: "send_finish (av env) av_send ms f (v, send_view b x) \<noteq> Throws (InvalidFree p) vs"
    if "pl_sending x b = Some f" for b f ms v p vs
    using send_finish_outcome[where s = "send_view b x" and f = f and fs = "beside_sending b x" and env = "av env"
        and av_send = av_send and ms = ms and v = v]
      population(3)[OF inv that] by auto
  have "\<exists>s'. push_frame env scene depth frame (pl_srv x) = Inr s'" for scene depth frame
    using push_frame_population[OF ok] by blast
  then show ?thesis using ok p g s unfolding enqueue_frame_def Let_def by blast
qed

definition demo_pipe :: pipeline where
  "demo_pipe = \<lparr>pl_srv = demo_server, pl_map = (\<lambda>_. FrameMap_new), pl_text = demo_text, pl_held = (\<lambda>_. None),
     pl_sending = (\<lambda>_. None),
     pl_send = (\<lambda>_. \<lparr>s_frame_index = 0, s_index = 0, s_elapsed = 0, s_logged = [], s_discarded = []\<rparr>),
     pl_reading = [], pl_cam = [], pl_arrived = [], pl_built = [], pl_history = [configuration (cameramgr demo_server)],
     pl_fed = (\<lambda>_. []), pl_fed_at = (\<lambda>_. []), pl_turns = (\<lambda>_. 0)\<rparr>"

definition demo_first :: FrameResponse where
  "demo_first = demo_text_response\<lparr>resp_index := 0\<rparr>"

abbreviation demo_load :: "char \<Rightarrow> glyph \<Rightarrow> int \<times> glyph" where
  "demo_load \<equiv> \<lambda>ch g. (0, demo_glyph)"

abbreviation demo_encoder :: av_send_fun where
  "demo_encoder \<equiv> \<lambda>ctx fr. (0, ctx)"

lemma demo_pipe_reach: "pipe_reach demo_client_env demo_load demo_encoder demo_pipe"
  unfolding pipe_reach_def
  by (rule reach_start) (simp add: pipe_start_def demo_pipe_def demo_server_def)

lemma demo_env_facts:
  "\<forall>ch slot. glyph_small (snd (demo_load ch slot))" "\<forall>a b. sws_getContext (av demo_client_env) a b"
  "av_healthy (av demo_client_env)"
  by (simp_all add: demo_glyph_def glyph_small_def glyph_ok_def demo_client_env_def demo_av_def av_healthy_def)

lemma demo_response_sound: "sound_response (demo_text_response\<lparr>resp_index := k\<rparr>)"
  by (simp add: sound_response_def demo_text_response_def demo_response_def Camera_default_def frame_small_def)

text \<open>A run in which one response goes all the way to the left encoders.\<close>

lemma demo_pipe_fed:
  "\<exists>x f. pipe_reach demo_client_env demo_load demo_encoder x \<and> pl_fed x True = [f]
     \<and> m_frame_response f = demo_first"
proof -
  have d: "m_queue (eye_queue True (pl_srv demo_pipe)) = []" "pl_held demo_pipe True = None"
    "face (pl_text demo_pipe) \<noteq> None" "resp_is_left demo_first = True" "sound_response demo_first"
    "length (m_map (pl_map demo_pipe True)) < kFrameMapMaxSize" "view (pl_map demo_pipe True) (resp_index demo_first) = None"
    using demo_response_sound[of 0]
    by (simp_all add: demo_pipe_def demo_server_def eye_queue_def FrameQueue_new_def demo_text_def demo_first_def
        demo_text_response_def demo_response_def FrameMap_new_def kFrameMapMaxSize_def view_def)
  obtain y f where y: "pipe_reach demo_client_env demo_load demo_encoder y" "m_frame_response f = demo_first"
      "m_map (pl_map y True) = map_insert (resp_index demo_first) f (m_map (pl_map demo_pipe True))"
      "pl_sending y = pl_sending demo_pipe" "pl_send y = pl_send demo_pipe" "pl_fed y = pl_fed demo_pipe"
      "cameramgr (pl_srv y) = cameramgr (pl_srv demo_pipe)" "pl_cam y = pl_cam demo_pipe"
    using run.file_one[OF demo_pipe_reach d(1-5) demo_env_facts(1,2) d(6,7)] by blast
  have m: "map_of (m_map (pl_map y True)) (s_frame_index (pl_send y True)) = Some f"
    using y(3,5) by (simp add: demo_pipe_def FrameMap_new_def demo_first_def)
  have c: "m_ctx (snd_scene (send_view True y)) \<noteq> None" "m_ctx (snd_depth (send_view True y)) \<noteq> None"
    using y(7) by (simp_all add: send_view_def demo_pipe_def demo_server_def demo_manager_def CameraManager_new_def demo_codecs_def
        demo_codec_def Let_def)
  have n: "pl_sending y True = None" "pl_cam y = []" using y(4,8) by (simp_all add: demo_pipe_def)
  obtain z where "pipe_reach demo_client_env demo_load demo_encoder z" "pl_fed z True = pl_fed y True @ [f]"
    using run.feed_one[OF y(1) n(1) m c demo_env_facts(3) n(2)] by blast
  then show ?thesis using y(2,6) by (auto simp: demo_pipe_def)
qed

theorem pipeline_memory_safe_witness:
  "\<exists>x f. pipe_reach demo_client_env demo_load demo_encoder x \<and> pl_fed x True = [f]
     \<and> frames_ok (sv_heap (pl_srv x)) (eye_frames True x @ eye_frames False x)"
  using demo_pipe_fed pipeline_memory_safe by blast

text \<open>
  C2. What the encoders of one eye are fed. Under any interleaving the frames handed over are
  converted frames of that eye, in the order of the sending rounds, each with the index of its
  round (so strictly increasing until the 64-bit index wraps around), and across both eyes
  every response received is handed over at most once.
\<close>

theorem encoder_feed_order:
  assumes "pipe_reach env load av_send x"
  shows "sorted_wrt (<) (pl_fed_at x b) \<and> list_all (\<lambda>n. n < pl_turns x b) (pl_fed_at x b)
    \<and> map frame_index (pl_fed x b) = map of_nat (pl_fed_at x b)
    \<and> (pl_turns x b \<le> 2 ^ 64 \<longrightarrow> sorted_wrt (<) (map frame_index (pl_fed x b)))
    \<and> list_all (\<lambda>f. frame_is_left f = b \<and> m_converted f) (pl_fed x b)
    \<and> responses (pl_fed x True) + responses (pl_fed x False) \<subseteq># mset (pl_arrived x)"
proof -
  have e: "eye_inv b x" and c: "conserved x" and a: "accounted x"
    using pipe_reach_inv[OF assms] by (simp_all add: pipe_inv_eye[of x b]) (use pipe_reach_inv[OF assms] in \<open>simp add: pipe_inv_def\<close>)
  have "responses (pl_fed x True) + responses (pl_fed x False)
      \<subseteq># responses (pl_fed x True @ eye_frames True x @ pl_fed x False @ eye_frames False x)" by simp
  also have "\<dots> \<subseteq># mset (map ar_frame (pl_built x))" using c by (simp add: conserved_def)
  also have "\<dots> \<subseteq># mset (pl_arrived x)" using a by (simp add: accounted_def)
  finally have r: "responses (pl_fed x True) + responses (pl_fed x False) \<subseteq># mset (pl_arrived x)" .
  have "sorted_wrt (<) (map frame_index (pl_fed x b))" if turns: "pl_turns x b \<le> 2 ^ 64"
  proof -
    have "(of_nat m :: u64) < of_nat n" if "m \<in> set (pl_fed_at x b)" "n \<in> set (pl_fed_at x b)" "m < n" for m n
    proof -
      have "\<forall>n \<in> set (pl_fed_at x b). n < pl_turns x b" using e by (simp add: eye_inv_def list_all_iff)
      then have "m < 2 ^ 64" "n < 2 ^ 64" using that(1,2) turns by (meson less_le_trans)+
      then show ?thesis using that(3) by (simp add: word_less_nat_alt unsigned_of_nat take_bit_nat_eq_self)
    qed
    moreover have "sorted_wrt (<) (pl_fed_at x b)" using e by (simp add: eye_inv_def)
    ultimately have "sorted_wrt (\<lambda>m n. (of_nat m :: u64) < of_nat n) (pl_fed_at x b)"
      by (rule sorted_wrt_mono_rel)
    moreover have "map frame_index (pl_fed x b) = map of_nat (pl_fed_at x b)" using e by (simp add: eye_inv_def)
    ultimately show ?thesis by (simp add: sorted_wrt_map)
  qed
  moreover have "list_all (\<lambda>f. frame_is_left f = b \<and> m_converted f) (pl_fed x b)"
    using e by (simp add: eye_inv_def list_all_iff ready_def)
  ultimately show ?thesis using e r by (simp add: eye_inv_def)
qed

theorem encoder_feed_order_witness:
  "\<exists>x f. pipe_reach demo_client_env demo_load demo_encoder x \<and> pl_fed x True = [f] \<and> frame_index f = 0
     \<and> length (pl_fed_at x True) = 1 \<and> hd (pl_fed_at x True) < pl_turns x True
     \<and> frame_is_left f \<and> m_converted f \<and> demo_first \<in> set (pl_arrived x)"
proof -
  obtain x f where x: "pipe_reach demo_client_env demo_load demo_encoder x" "pl_fed x True = [f]"
    "m_frame_response f = demo_first" using demo_pipe_fed by blast
  note o = encoder_feed_order[OF x(1), of True]
  have "{#demo_first#} + responses (pl_fed x False) \<subseteq># mset (pl_arrived x)" using o x(2,3) by simp
  then have "demo_first \<in> set (pl_arrived x)" by (metis mset_subset_eq_insertD add_mset_add_single union_commute set_mset_mset)
  moreover have "length (pl_fed_at x True) = 1" using o x(2) by (metis length_map length_Cons list.size(3) One_nat_def)
  ultimately show ?thesis
    using o x by (intro exI[of _ x] exI[of _ f]) (auto simp: frame_index_def demo_first_def length_Suc_conv)
qed

end
