(* ===== verification/Pipeline_Stall.thy ===== *)
theory Pipeline_Stall
  imports Pipeline
begin

text \<open>
  How the frame path of one eye stops for good. The sending thread gives up on an index after
  a second and never comes back to it; a frame filed later under a given-up index stays in
  the map, because \<open>get_delete\<close> drops old frames only when it finds a frame whose index is a
  multiple of \<open>kFrameMapDropFramesInterval\<close>. When \<open>kFrameMapMaxSize\<close> such frames have
  gathered, \<open>insert\<close> rejects every new frame, so nothing is found again and nothing dropped.
\<close>

section \<open>Stalled states\<close>

definition stalled :: "bool \<Rightarrow> pipeline \<Rightarrow> bool" where
  "stalled b x =
     (length (m_map (pl_map x b)) = kFrameMapMaxSize \<and> pl_sending x b = None
      \<and> s_frame_index (pl_send x b) = of_nat (pl_turns x b)
      \<and> (\<forall>k \<in> set (keys (m_map (pl_map x b))). unat k < pl_turns x b))"

lemma process_finish_full:
  assumes "process_finish load env now ms f (v, s) = Next (v', s')" "\<not> length (m_map (enc_map s)) < kFrameMapMaxSize"
  shows "enc_map s' = enc_map s"
  using assms
  by (auto simp: process_finish_def FrameMap_insert_def Let_def split: sum.splits prod.splits)

lemma stalled_no_fetch:
  assumes "stalled b x" "pl_turns x b < 2 ^ 64"
  shows "send_get (s_frame_index (pl_send x b)) (send_view b x) \<noteq> Inr r"
proof -
  let ?k = "s_frame_index (pl_send x b)"
  have "unat ?k = pl_turns x b"
    using assms by (simp add: stalled_def unsigned_of_nat take_bit_nat_eq_self)
  then have "?k \<notin> set (keys (m_map (pl_map x b)))" using assms(1) by (auto simp: stalled_def)
  then have "map_of (m_map (pl_map x b)) ?k = None" by (simp add: map_of_eq_None_iff)
  then show ?thesis by (simp add: send_get_def send_view_def FrameMap_get_delete_def Let_def)
qed

lemma stalled_step:
  assumes "pipe_step env load av_send x y" "stalled b x" "pl_turns y b < 2 ^ 64"
  shows "stalled b y \<and> pl_map y b = pl_map x b \<and> pl_fed y b = pl_fed x b"
  using assms
proof (cases rule: pipe_step.cases)
  case (process c f now ms v v' e)
  have "enc_map e = pl_map x b" if "c = b"
    using process_finish_full[OF process(3)] assms(2) that by (simp add: encode_view_def stalled_def)
  then have "pl_map y b = pl_map x b" using process(1) by simp
  then show ?thesis using assms(2) process(1) by (simp add: stalled_def)
next
  case (fetch c f s)
  have "pl_turns x b < 2 ^ 64" using assms(3) fetch(1) by simp
  note no_frame = stalled_no_fetch[OF assms(2) this, of "(f, s)"]
  have "c \<noteq> b"
  proof
    assume "c = b"
    with fetch(3) have "send_get (s_frame_index (pl_send x b)) (send_view b x) = Inr (f, s)" by (simp only:)
    then show False using no_frame by contradiction
  qed
  then show ?thesis using assms(2) fetch(1) by (simp add: stalled_def)
next
  case (skip c)
  then show ?thesis using assms(2) by (auto simp: stalled_def less_Suc_eq)
next
  case (send c f ms v' s)
  have "c \<noteq> b"
  proof
    assume "c = b"
    with send(2) have "pl_sending x b = Some f" by (simp only:)
    then show False using assms(2) by (simp add: stalled_def)
  qed
  then show ?thesis using assms(2) send(1) by (simp add: stalled_def)
qed (auto simp: stalled_def receive_response_def)

lemma turns_mono: "pipe_step env load av_send x y \<Longrightarrow> pl_turns x b \<le> pl_turns y b"
  by (erule pipe_step.cases) (auto simp: receive_response_def)

section \<open>A way into a stalled state\<close>

text \<open>With nothing filed the sending thread skips any number of indices.\<close>

lemma skip_many:
  assumes "pipe_reach env load av_send x" "m_map (pl_map x b) = []" "pl_sending x b = None"
  shows "\<exists>y. pipe_reach env load av_send y \<and> pl_turns y b = pl_turns x b + n
    \<and> pl_srv y = pl_srv x \<and> pl_map y = pl_map x \<and> pl_text y = pl_text x \<and> pl_held y = pl_held x
    \<and> pl_sending y = pl_sending x \<and> pl_fed y = pl_fed x"
proof (induction n)
  case 0
  then show ?case using assms(1) by auto
next
  case (Suc n)
  then obtain y where y: "pipe_reach env load av_send y" "pl_turns y b = pl_turns x b + n" "pl_srv y = pl_srv x"
    "pl_map y = pl_map x" "pl_text y = pl_text x" "pl_held y = pl_held x" "pl_sending y = pl_sending x"
    "pl_fed y = pl_fed x" by blast
  have none: "pl_sending y b = None" using y(7) assms(3) by simp
  have "send_get (s_frame_index (pl_send y b)) (send_view b y) = Inl LockTimeout"
    using y(4) assms(2) by (simp add: send_get_def send_view_def FrameMap_get_delete_def Let_def)
  from pipe_reach_step[OF y(1) pipe_step.skip[OF none this]] y show ?case by fastforce
qed

text \<open>Then frames for the skipped indices come in, one after the other.\<close>

lemma file_many:
  assumes x: "pipe_reach env load av_send x" "m_queue (eye_queue b (pl_srv x)) = []" "pl_held x b = None"
      "face (pl_text x) \<noteq> None" "m_map (pl_map x b) = []" "pl_sending x b = None"
    and r: "\<And>k. sound_response (r k)" "\<And>k. resp_is_left (r k) = b" "\<And>k. resp_index (r k) = k"
    and env: "\<forall>ch slot. glyph_small (snd (load ch slot))" "\<forall>a b. sws_getContext (av env) a b"
  shows "n \<le> kFrameMapMaxSize \<Longrightarrow> \<exists>y. pipe_reach env load av_send y \<and> length (m_map (pl_map y b)) = n
    \<and> (\<forall>k \<in> set (keys (m_map (pl_map y b))). unat k < n) \<and> m_queue (eye_queue b (pl_srv y)) = []
    \<and> pl_held y b = None \<and> face (pl_text y) \<noteq> None \<and> pl_sending y b = None \<and> pl_turns y b = pl_turns x b
    \<and> pl_fed y b = pl_fed x b"
proof (induction n)
  case 0
  then show ?case using x by auto
next
  case (Suc n)
  then obtain y where y: "pipe_reach env load av_send y" "length (m_map (pl_map y b)) = n"
    "\<forall>k \<in> set (keys (m_map (pl_map y b))). unat k < n" "m_queue (eye_queue b (pl_srv y)) = []"
    "pl_held y b = None" "face (pl_text y) \<noteq> None" "pl_sending y b = None" "pl_turns y b = pl_turns x b"
    "pl_fed y b = pl_fed x b" by fastforce
  have small: "unat (of_nat n :: u64) = n"
    using Suc.prems by (simp add: unsigned_of_nat take_bit_nat_eq_self kFrameMapMaxSize_def)
  then have new: "(of_nat n :: u64) \<notin> set (keys (m_map (pl_map y b)))" using y(3) by auto
  then have room: "length (m_map (pl_map y b)) < kFrameMapMaxSize"
    "view (pl_map y b) (resp_index (r (of_nat n))) = None"
    using Suc.prems y(2) r(3) by (simp_all add: view_def map_of_eq_None_iff)
  obtain z f where z: "pipe_reach env load av_send z"
      "m_map (pl_map z b) = map_insert (of_nat n) f (m_map (pl_map y b))"
      "m_queue (eye_queue b (pl_srv z)) = []" "pl_held z b = None" "face (pl_text z) \<noteq> None"
      "pl_sending z = pl_sending y" "pl_turns z = pl_turns y" "pl_fed z = pl_fed y"
    using run.file_one[OF y(1,4,5,6) r(2) r(1) env room] r(3) by metis
  have "length (m_map (pl_map z b)) = Suc n" using length_map_insert_new[OF new] y(2) z(2) by simp
  moreover have "\<forall>k \<in> set (keys (m_map (pl_map z b))). unat k < Suc n"
    using y(3) small unfolding z(2) keys_map_insert by (auto simp: less_Suc_eq)
  ultimately show ?case using z y by (intro exI[of _ z]) simp
qed

text \<open>Late frames for the first hundred indices stall a program that has just started.\<close>

lemma stalled_reachable:
  assumes x: "pipe_reach env load av_send x" "m_queue (eye_queue b (pl_srv x)) = []" "pl_held x b = None"
      "face (pl_text x) \<noteq> None" "m_map (pl_map x b) = []" "pl_sending x b = None" "pl_turns x b = 0"
    and r: "\<And>k. sound_response (r k)" "\<And>k. resp_is_left (r k) = b" "\<And>k. resp_index (r k) = k"
    and env: "\<forall>ch slot. glyph_small (snd (load ch slot))" "\<forall>a b. sws_getContext (av env) a b"
  shows "\<exists>y. pipe_reach env load av_send y \<and> stalled b y \<and> pl_turns y b = kFrameMapMaxSize \<and> pl_fed y b = pl_fed x b"
proof -
  obtain s where s: "pipe_reach env load av_send s" "pl_turns s b = kFrameMapMaxSize" "pl_srv s = pl_srv x"
    "pl_map s = pl_map x" "pl_text s = pl_text x" "pl_held s = pl_held x" "pl_sending s = pl_sending x"
    "pl_fed s = pl_fed x"
    using skip_many[OF x(1,5,6), of kFrameMapMaxSize] x(7) by auto
  obtain y where y: "pipe_reach env load av_send y" "length (m_map (pl_map y b)) = kFrameMapMaxSize"
    "\<forall>k \<in> set (keys (m_map (pl_map y b))). unat k < kFrameMapMaxSize" "pl_sending y b = None"
    "pl_turns y b = pl_turns s b" "pl_fed y b = pl_fed s b"
    using file_many[OF s(1) _ _ _ _ _ r env, of kFrameMapMaxSize] x(2-6) s by auto
  have "s_frame_index (pl_send y b) = of_nat (pl_turns y b)"
    using pipe_reach_inv[OF y(1)] by (simp add: pipe_inv_eye[of y b] eye_inv_def)
  then show ?thesis using y s by (intro exI[of _ y]) (simp add: stalled_def)
qed

section \<open>Properties\<close>

text \<open>
  C3. Livelock. Once the map of an eye is full of frames whose indices the sending thread has
  passed, no step of any thread changes that map again, and not one more frame reaches the
  encoders of that eye, until the 64-bit index has wrapped around.
\<close>

theorem stalled_forever:
  assumes "stalled b x" and "reach (\<lambda>s. s = x) (pipe_step env load av_send) y" and "pl_turns y b < 2 ^ 64"
  shows "stalled b y \<and> pl_map y b = pl_map x b \<and> pl_fed y b = pl_fed x b"
  using assms(2,3)
proof (induction rule: reach.induct)
  case (reach_start s)
  then show ?case using assms(1) by simp
next
  case (reach_step s t)
  have "pl_turns s b < 2 ^ 64" using turns_mono[OF reach_step.hyps(2), of b] reach_step.prems by simp
  with reach_step.IH have i: "stalled b s \<and> pl_map s b = pl_map x b \<and> pl_fed s b = pl_fed x b" .
  then show ?case using stalled_step[OF reach_step.hyps(2) _ reach_step.prems] by simp
qed

theorem stalled_forever_witness:
  "\<exists>x. pipe_reach demo_client_env demo_load demo_encoder x \<and> stalled True x \<and> pl_turns x True = 100
     \<and> (\<forall>y. reach (\<lambda>s. s = x) (pipe_step demo_client_env demo_load demo_encoder) y \<longrightarrow>
          pl_turns y True < 2 ^ 64 \<longrightarrow> pl_fed y True = [])"
proof -
  have d: "m_queue (eye_queue True (pl_srv demo_pipe)) = []" "pl_held demo_pipe True = None"
    "face (pl_text demo_pipe) \<noteq> None" "m_map (pl_map demo_pipe True) = []" "pl_sending demo_pipe True = None"
    "pl_turns demo_pipe True = 0"
    by (simp_all add: demo_pipe_def demo_server_def eye_queue_def FrameQueue_new_def demo_text_def FrameMap_new_def)
  obtain x where x: "pipe_reach demo_client_env demo_load demo_encoder x" "stalled True x"
    "pl_turns x True = kFrameMapMaxSize" "pl_fed x True = pl_fed demo_pipe True"
    using stalled_reachable[OF demo_pipe_reach d, of "\<lambda>k. demo_text_response\<lparr>resp_index := k\<rparr>"]
      demo_env_facts(1,2) demo_response_sound
    by (fastforce simp: demo_text_response_def demo_response_def)
  then show ?thesis
    using stalled_forever[OF x(2)] by (intro exI[of _ x]) (auto simp: kFrameMapMaxSize_def demo_pipe_def)
qed

end
