(* ===== verification/Main_Config.thy ===== *)
theory Main_Config
  imports Tickets Pipeline
begin

text \<open>
  \<open>main.cpp\<close>: the command line options with their defaults, the start of the program (encoders,
  text renderer, servers, containers, counters), the threads with the objects \<open>main\<close> hands to
  each, the shutdown and the exit status; and \<open>socket_main_thread\<close> of \<open>server.cpp\<close>, which starts
  one managing thread per renderer.

  The argument parser, libav, FreeType and websocketpp are parameters: the outcome of
  \<open>ParseCLI\<close>, and the record \<open>main_env\<close>. What the threads do between their start and the last
  \<open>join\<close> is a parameter of \<open>main\<close> as well (theory \<open>Program_Run\<close> says what it is); an
  exception that leaves a thread terminates the program.
\<close>

section \<open>Options\<close>

record options =
  version_flag :: bool
  renderer_addr_flag :: "string list"
  address_flag :: string
  port_flag :: u16
  encode_preset_flag :: string
  encode_tune_flag :: string
  width_flag :: u32
  height_flag :: u32
  bitrate_flag :: u32
  fps_flag :: u32
  keyint_flag :: u32
  font_flag :: string
  camera_control_server_port :: u16
  scene_left_port :: u16
  depth_left_port :: u16
  scene_right_port :: u16
  depth_right_port :: u16

definition default_options :: options where
  "default_options =
     \<lparr>version_flag = False, renderer_addr_flag = [], address_flag = ''0.0.0.0'', port_flag = 9991,
      encode_preset_flag = ''ultrafast'', encode_tune_flag = ''stillimage,zerolatency'',
      width_flag = 1280, height_flag = 720, bitrate_flag = 400000, fps_flag = 30, keyint_flag = 250,
      font_flag = ''/usr/share/fonts/truetype/noto/NotoMono-Regular.ttf'',
      camera_control_server_port = 9998, scene_left_port = 9999, depth_left_port = 10000,
      scene_right_port = 10001, depth_right_port = 10002\<rparr>"

text \<open>What \<open>parser.ParseCLI\<close> ends with.\<close>

datatype parse_outcome = Help | ParseError string | ValidationError string | Parsed options

section \<open>Signals\<close>

record flags =
  signal_status :: int
  shutdown_requested :: bool

definition flags_start :: flags where
  "flags_start = \<lparr>signal_status = 0, shutdown_requested = False\<rparr>"

definition signal_handler :: "int \<Rightarrow> flags \<Rightarrow> flags" where
  "signal_handler signum s = s\<lparr>signal_status := signum, shutdown_requested := True\<rparr>"

section \<open>Start\<close>

text \<open>The four packet servers, one per encoder (\<open>stream\<close> of theory \<open>Camera_Steps\<close>).\<close>

definition main_streams :: "stream list" where
  "main_streams = [SceneLeft, DepthLeft, SceneRight, DepthRight]"

fun stream_port :: "options \<Rightarrow> stream \<Rightarrow> u16" where
  "stream_port opts SceneLeft = scene_left_port opts"
| "stream_port opts DepthLeft = depth_left_port opts"
| "stream_port opts SceneRight = scene_right_port opts"
| "stream_port opts DepthRight = depth_right_port opts"

fun stream_name :: "stream \<Rightarrow> string" where
  "stream_name SceneLeft = ''server_packet_stream_scene_left''"
| "stream_name DepthLeft = ''server_packet_stream_depth_left''"
| "stream_name SceneRight = ''server_packet_stream_scene_right''"
| "stream_name DepthRight = ''server_packet_stream_depth_right''"

definition codec_info :: "options \<Rightarrow> CodecInitInfo" where
  "codec_info opts =
     \<lparr>codec_id = AV_CODEC_ID_H264, pix_fmt = AV_PIX_FMT_YUV420P,
      x264_encode_preset = encode_preset_flag opts, x264_encode_tune = encode_tune_flag opts,
      info_width = width_flag opts, info_height = height_flag opts, bit_rate = bitrate_flag opts,
      fps = fps_flag opts, keyframe_interval = keyint_flag opts\<rparr>"

record main_env =
  codec_calls :: "stream \<Rightarrow> codec_env"
  freetype :: ft_env
  listen_ok :: "u16 \<Rightarrow> bool"
  accept_ok :: "u16 \<Rightarrow> bool"
  close_ok :: "connection_hdl \<Rightarrow> bool"

definition make_codecs :: "main_env \<Rightarrow> options \<Rightarrow> codecs res" where
  "make_codecs env opts =
     bindE (AVCodecContextManager_new (codec_calls env SceneLeft) (codec_info opts)) (\<lambda>sl.
     bindE (AVCodecContextManager_new (codec_calls env DepthLeft) (codec_info opts)) (\<lambda>dl.
     bindE (AVCodecContextManager_new (codec_calls env SceneRight) (codec_info opts)) (\<lambda>sr.
     bindE (AVCodecContextManager_new (codec_calls env DepthRight) (codec_info opts)) (\<lambda>dr.
       Inr \<lparr>scene_left = sl, depth_left = dl, scene_right = sr, depth_right = dr\<rparr>))))"

definition start_server :: "main_env \<Rightarrow> WebSocketServer \<Rightarrow> unit res \<times> WebSocketServer" where
  "start_server env s = WebSocketServer_start (listen_ok env (m_bind_port s)) (accept_ok env (m_bind_port s)) s"

text \<open>Start one server after the other; the first that throws ends the sequence.\<close>

fun start_all :: "main_env \<Rightarrow> WebSocketServer list \<Rightarrow> unit res \<times> WebSocketServer list" where
  "start_all env [] = (Inr (), [])"
| "start_all env (s # ss) =
     (case start_server env s of
        (Inl e, s') \<Rightarrow> (Inl e, s' # ss)
      | (Inr _, s') \<Rightarrow> (let (r, ss') = start_all env ss in (r, s' # ss')))"

text \<open>The objects shared by the threads; the encoders are held by the camera manager.\<close>

record program =
  etctx :: RenderTextContext
  packet_servers :: "WebSocketServer list"
  frame_state :: server_state
  frame_maps :: "bool \<Rightarrow> RenderedFrame FrameMap"
  ccsvr :: CameraControlServer

text \<open>
  The first part of \<open>main\<close>. The second component are the server objects that exist when it is
  left, also when it is left by an exception.
\<close>

definition bootstrap :: "main_env \<Rightarrow> options \<Rightarrow> program res \<times> WebSocketServer list" where
  "bootstrap env opts =
     (case make_codecs env opts of
        Inl e \<Rightarrow> (Inl e, [])
      | Inr cs \<Rightarrow>
          (case RenderTextContext_new (freetype env) (font_flag opts) of
             Inl e \<Rightarrow> (Inl e, [])
           | Inr text_ctx \<Rightarrow>
               (case start_all env (map (\<lambda>s. PacketStreamServer_new (stream_port opts s) (stream_name s)) main_streams) of
                  (Inl e, ss) \<Rightarrow> (Inl e, ss)
                | (Inr _, ss) \<Rightarrow>
                    (let cm = CameraManager_new cs (width_flag opts) (height_flag opts);
                         cc = CameraControlServer_new cm (camera_control_server_port opts)
                     in case start_server env (cc_server cc) of
                          (Inl e, ws) \<Rightarrow> (Inl e, ss @ [ws])
                        | (Inr _, ws) \<Rightarrow>
                            (Inr \<lparr>etctx = text_ctx, packet_servers = ss,
                               frame_state = \<lparr>sv_is_left = 0, frame_index_left = 0, frame_index_right = 0,
                                 cameramgr = cm, frame_queue_left = FrameQueue_new,
                                 frame_queue_right = FrameQueue_new, sv_heap = heap_empty\<rparr>,
                               frame_maps = (\<lambda>_. FrameMap_new), ccsvr = cc\<lparr>cc_server := ws\<rparr>\<rparr>,
                             ss @ [ws])))))"

section \<open>Threads\<close>

text \<open>
  The threads with their arguments: encoders and packet servers by name, queues and maps by
  eye (\<open>True\<close> is left).
\<close>

datatype thread =
    SocketMain "string list" stream stream
  | ProcessFrame stream bool bool
  | ReceivePacket stream stream
  | SendFrame stream stream bool
  | EncodeStats

definition main_threads :: "options \<Rightarrow> thread list" where
  "main_threads opts =
     [SocketMain (renderer_addr_flag opts) SceneLeft DepthLeft,
      ProcessFrame SceneLeft True True, ProcessFrame SceneRight False False,
      ReceivePacket SceneLeft SceneLeft, ReceivePacket DepthLeft DepthLeft,
      ReceivePacket SceneRight SceneRight, ReceivePacket DepthRight DepthRight,
      SendFrame SceneLeft DepthLeft True, SendFrame SceneRight DepthRight False,
      EncodeStats]"

text \<open>The environment of the client threads that \<open>socket_main_thread\<close> leads to.\<close>

fun socket_env :: "thread \<Rightarrow> client_env \<Rightarrow> client_env" where
  "socket_env (SocketMain renderers scene depth) env =
     env\<lparr>ctxmgr_scene := codec_of scene, ctxmgr_depth := codec_of depth\<rparr>"
| "socket_env _ env = env"

text \<open>
  Joining threads one after the other, given how each of them ends. An exception that leaves any
  thread terminates the program at once; a thread that does not return keeps the caller waiting.
\<close>

fun join_threads :: "('t \<Rightarrow> 's round) \<Rightarrow> 't list \<Rightarrow> unit round" where
  "join_threads result [] = Exit ()"
| "join_threads result (t # ts) =
     (case result t of
        Throws e _ \<Rightarrow> Throws e ()
      | Exit _ \<Rightarrow> join_threads result ts
      | _ \<Rightarrow> (case join_threads result ts of Throws e u \<Rightarrow> Throws e u | _ \<Rightarrow> Blocked))"

text \<open>
  \<open>socket_main_thread\<close> given how the managing thread of each renderer ends: an exception in one
  of them terminates the program, and the thread returns when all have returned.
\<close>

definition socket_main_thread :: "(string \<Rightarrow> 's round) \<Rightarrow> string list \<Rightarrow> unit round" where
  "socket_main_thread manage renderers = join_threads manage renderers"

section \<open>Shutdown\<close>

text \<open>\<open>Running\<close>: \<open>main\<close> has not returned.\<close>

datatype ending = ExitStatus int | Abort | Running

fun stop_all :: "(connection_hdl \<Rightarrow> bool) \<Rightarrow> WebSocketServer list \<Rightarrow> unit res \<times> WebSocketServer list" where
  "stop_all ok [] = (Inr (), [])"
| "stop_all ok (s # ss) =
     (case WebSocketServer_stop ok s of
        (Inl e, s') \<Rightarrow> (Inl e, s' # ss)
      | (Inr _, s') \<Rightarrow> (let (r, ss') = stop_all ok ss in (r, s' # ss')))"

text \<open>
  Leaving the scope of \<open>main\<close>'s \<open>try\<close> block destroys the servers. A server whose thread has not been joined owns a
  joinable \<open>std::thread\<close>, whose destructor calls \<open>std::terminate\<close>; otherwise \<open>main\<close> returns 0, after
  an exception as well.
\<close>

definition leave_scope :: "WebSocketServer list \<Rightarrow> ending" where
  "leave_scope ss = (if list_ex m_thread ss then Abort else ExitStatus 0)"

definition main ::
  "main_env \<Rightarrow> (thread list \<Rightarrow> program \<Rightarrow> program round) \<Rightarrow> parse_outcome \<Rightarrow> ending" where
  "main env run parsed =
     (case parsed of
        Help \<Rightarrow> ExitStatus 0
      | ParseError e \<Rightarrow> ExitStatus (-1)
      | ValidationError e \<Rightarrow> ExitStatus (-2)
      | Parsed opts \<Rightarrow>
          (if version_flag opts then ExitStatus 0
           else (case bootstrap env opts of
                   (Inl e, ss) \<Rightarrow> leave_scope ss
                 | (Inr p, _) \<Rightarrow>
                     (case run (main_threads opts) p of
                        Exit p' \<Rightarrow>
                          leave_scope (snd (stop_all (close_ok env)
                            (packet_servers p' @ [cc_server (ccsvr p')])))
                      | Throws e p' \<Rightarrow> Abort
                      | _ \<Rightarrow> Running))))"

lemmas main_defs [op_defs] =
  make_codecs_def start_server_def bootstrap_def main_threads_def leave_scope_def main_def

section \<open>Lemmas\<close>

lemma codec_new_ready:
  "AVCodecContextManager_new env info = Inr m \<Longrightarrow> codec_ready m \<and> m_info m = info"
  using codec_ctx_init_ok
  by (fastforce simp: AVCodecContextManager_new_def split: prod.splits sum.splits)

lemma make_codecs_ready:
  "make_codecs env opts = Inr cs \<Longrightarrow> codec_ready (codec_of s cs) \<and> m_info (codec_of s cs) = codec_info opts"
  by (cases s) (auto simp: make_codecs_def bindE_Inr_iff dest: codec_new_ready)

definition server_ok :: "main_env \<Rightarrow> WebSocketServer \<Rightarrow> bool" where
  "server_ok env s = (listen_ok env (m_bind_port s) \<and> accept_ok env (m_bind_port s))"

text \<open>A server before it is started, and one that serves.\<close>

definition idle :: "WebSocketServer \<Rightarrow> bool" where
  "idle s = (\<not> m_running s \<and> \<not> m_thread s)"

definition serving :: "WebSocketServer \<Rightarrow> bool" where
  "serving s = (m_running s \<and> m_thread s \<and> listening s)"

lemma launched_simps [simp]:
  "serving (launched s)" "m_thread (launched s)" "m_bind_port (launched s) = m_bind_port s"
  "m_server_name (launched s) = m_server_name s"
  by (simp_all add: launched_def serving_def)

lemma start_server_result:
  "idle s \<Longrightarrow> (\<exists>e s'. start_server env s = (Inl e, s') \<and> \<not> m_thread s') \<and> \<not> server_ok env s
     \<or> start_server env s = (Inr (), launched s) \<and> server_ok env s"
  by (auto simp: start_server_def WebSocketServer_start_def server_ok_def idle_def)

lemma start_all_result:
  assumes "list_all idle ss"
  shows "if list_all (server_ok env) ss
    then start_all env ss = (Inr (), map launched ss)
    else (\<exists>e ss'. start_all env ss = (Inl e, ss') \<and> (list_ex m_thread ss' \<longleftrightarrow> server_ok env (hd ss)))"
  using assms
proof (induction ss)
  case (Cons s ss)
  have idle: "list_ex m_thread ss = False" using Cons.prems by (auto simp: list_ex_iff list_all_iff idle_def)
  show ?case
    using start_server_result[of s env] Cons idle
    by (auto split: if_splits)
qed simp

lemma stop_all_result:
  assumes "list_all serving ss"
  shows "list_ex m_thread (snd (stop_all ok ss)) \<longleftrightarrow> \<not> list_all (\<lambda>s. list_all ok (m_connections s)) ss"
  using assms
proof (induction ss)
  case (Cons s ss)
  have "case WebSocketServer_stop ok s of
      (Inr _, s') \<Rightarrow> \<not> m_thread s' \<and> list_all ok (m_connections s)
    | (Inl e, s') \<Rightarrow> m_thread s' \<and> \<not> list_all ok (m_connections s)"
    using Cons.prems by (auto simp: WebSocketServer_stop_def close_each_result takeWhile_list_all serving_def)
  then show ?case using Cons by (auto split: prod.splits sum.splits)
qed simp

abbreviation stream_servers :: "options \<Rightarrow> WebSocketServer list" where
  "stream_servers opts \<equiv> map (\<lambda>s. PacketStreamServer_new (stream_port opts s) (stream_name s)) main_streams"

lemma stream_servers_idle: "list_all idle (stream_servers opts)"
  by (simp add: main_streams_def PacketStreamServer_new_def WebSocketServer_new_def idle_def)

definition port_ok :: "main_env \<Rightarrow> u16 \<Rightarrow> bool" where
  "port_ok env port = (listen_ok env port \<and> accept_ok env port)"

lemma server_ok_ports:
  "list_all (server_ok env) (stream_servers opts) = list_all (\<lambda>s. port_ok env (stream_port opts s)) main_streams"
  "server_ok env (hd (stream_servers opts)) = port_ok env (scene_left_port opts)"
  by (simp_all add: main_streams_def server_ok_def port_ok_def PacketStreamServer_new_def WebSocketServer_new_def)

definition all_ports :: "options \<Rightarrow> u16 list" where
  "all_ports opts = map (stream_port opts) main_streams @ [camera_control_server_port opts]"

text \<open>The start in three cases, with encoders and font at hand.\<close>

lemma bootstrap_cases:
  assumes cs: "make_codecs env opts = Inr cs" and ctx: "RenderTextContext_new (freetype env) (font_flag opts) = Inr ctx"
  shows "if list_all (port_ok env) (all_ports opts)
    then \<exists>p ss. bootstrap env opts = (Inr p, ss) \<and> list_all serving ss \<and> map m_bind_port ss = all_ports opts
      \<and> packet_servers p @ [cc_server (ccsvr p)] = ss \<and> distinct (map m_server_name ss) \<and> etctx p = ctx
      \<and> frame_state p = \<lparr>sv_is_left = 0, frame_index_left = 0, frame_index_right = 0,
          cameramgr = CameraManager_new cs (width_flag opts) (height_flag opts),
          frame_queue_left = FrameQueue_new, frame_queue_right = FrameQueue_new, sv_heap = heap_empty\<rparr>
      \<and> frame_maps p = (\<lambda>_. FrameMap_new)
      \<and> m_camera_manager (ccsvr p) = cameramgr (frame_state p)
    else \<exists>e ss. bootstrap env opts = (Inl e, ss) \<and> (list_ex m_thread ss \<longleftrightarrow> port_ok env (scene_left_port opts))"
proof (cases "list_all (\<lambda>s. port_ok env (stream_port opts s)) main_streams")
  case False
  then obtain e ss where "start_all env (stream_servers opts) = (Inl e, ss)"
    "list_ex m_thread ss \<longleftrightarrow> port_ok env (scene_left_port opts)"
    using start_all_result[OF stream_servers_idle, of env opts] server_ok_ports[of env opts] by auto
  moreover have "\<not> list_all (port_ok env) (all_ports opts)" using False by (simp add: all_ports_def list_all_iff)
  ultimately show ?thesis by (simp add: bootstrap_def cs ctx)
next
  case True
  let ?ss = "map launched (stream_servers opts)"
  let ?cc = "CameraControlServer_new (CameraManager_new cs (width_flag opts) (height_flag opts))
      (camera_control_server_port opts)"
  have s: "start_all env (stream_servers opts) = (Inr (), ?ss)"
    using start_all_result[OF stream_servers_idle, of env opts] server_ok_ports(1)[of env opts] True by simp
  have first: "port_ok env (scene_left_port opts)" using True by (simp add: main_streams_def)
  have run: "list_all serving ?ss" "list_ex m_thread ?ss" "map m_bind_port ?ss = map (stream_port opts) main_streams"
    by (simp_all add: main_streams_def PacketStreamServer_new_def WebSocketServer_new_def)
  have idle: "idle (cc_server ?cc)" and port: "server_ok env (cc_server ?cc) = port_ok env (camera_control_server_port opts)"
    by (simp_all add: idle_def CameraControlServer_new_def WebSocketServer_new_def server_ok_def port_ok_def)
  have all: "list_all (port_ok env) (all_ports opts) = port_ok env (camera_control_server_port opts)"
    using True by (simp add: all_ports_def list_all_iff)
  have names: "distinct (map m_server_name (?ss @ [launched (cc_server ?cc)]))"
    by (simp add: main_streams_def PacketStreamServer_new_def WebSocketServer_new_def CameraControlServer_new_def)
  show ?thesis
  proof (cases "port_ok env (camera_control_server_port opts)")
    case True
    then have "start_server env (cc_server ?cc) = (Inr (), launched (cc_server ?cc))"
      using start_server_result[OF idle, of env] port by auto
    then have "bootstrap env opts = (Inr \<lparr>etctx = ctx, packet_servers = ?ss,
        frame_state = \<lparr>sv_is_left = 0, frame_index_left = 0, frame_index_right = 0,
          cameramgr = CameraManager_new cs (width_flag opts) (height_flag opts),
          frame_queue_left = FrameQueue_new, frame_queue_right = FrameQueue_new, sv_heap = heap_empty\<rparr>,
        frame_maps = (\<lambda>_. FrameMap_new), ccsvr = ?cc\<lparr>cc_server := launched (cc_server ?cc)\<rparr>\<rparr>,
        ?ss @ [launched (cc_server ?cc)])"
      by (simp add: bootstrap_def cs ctx s Let_def)
    then show ?thesis
      using run names all True
      by (simp add: all_ports_def CameraControlServer_new_def WebSocketServer_new_def)
  next
    case False
    then obtain e ws where "start_server env (cc_server ?cc) = (Inl e, ws)"
      using start_server_result[OF idle, of env] port by auto
    then have "bootstrap env opts = (Inl e, ?ss @ [ws])" by (simp add: bootstrap_def cs ctx s Let_def)
    then show ?thesis using run all False first by simp
  qed
qed

lemma bootstrap_inputs:
  assumes "bootstrap env opts = (Inr p, ss)"
  obtains cs ctx where "make_codecs env opts = Inr cs" "RenderTextContext_new (freetype env) (font_flag opts) = Inr ctx"
    "list_all (port_ok env) (all_ports opts)"
proof -
  obtain cs ctx where c: "make_codecs env opts = Inr cs" "RenderTextContext_new (freetype env) (font_flag opts) = Inr ctx"
    using assms by (auto simp: bootstrap_def split: sum.splits)
  moreover have "list_all (port_ok env) (all_ports opts)"
    using bootstrap_cases[OF c] assms by (auto split: if_splits)
  ultimately show thesis by (rule that)
qed

text \<open>The three ways a sequence of joins can go.\<close>

lemma join_Exit_iff: "join_threads result ts = Exit u \<longleftrightarrow> (\<forall>t \<in> set ts. \<exists>s. result t = Exit s)"
  by (induction ts) (auto split: round.splits)

lemma join_Throws_iff: "(\<exists>e. join_threads result ts = Throws e u) \<longleftrightarrow> (\<exists>t \<in> set ts. \<exists>e s. result t = Throws e s)"
  by (induction ts) (auto split: round.splits)

lemma join_not_Next: "join_threads result ts \<noteq> Next u"
  by (induction ts) (auto split: round.splits)

text \<open>One renderer address that does not parse ends the whole program.\<close>

lemma socket_main_throws:
  "renderer \<in> set renderers \<Longrightarrow> manage renderer = Throws e s \<Longrightarrow>
     \<exists>e'. socket_main_thread manage renderers = Throws e' ()"
  unfolding socket_main_thread_def using join_Throws_iff by blast

lemma malformed_renderer_terminates:
  assumes "renderer \<in> set renderers" "parse_renderer renderer = Inl e"
  shows "\<exists>e'. socket_main_thread (\<lambda>r. socket_manage_thread env inet_addr r ((False, att) # script) ms) renderers
    = Throws e' ()"
  by (rule socket_main_throws[OF assms(1), of _ e ms])
    (cases ms; simp add: socket_manage_round_def assms(2))

text \<open>The program's objects as the start of the frame path and of the ticket counters.\<close>

definition pipeline_of :: "program \<Rightarrow> pipeline" where
  "pipeline_of p =
     \<lparr>pl_srv = frame_state p, pl_map = frame_maps p, pl_text = etctx p, pl_held = (\<lambda>_. None),
      pl_sending = (\<lambda>_. None),
      pl_send = (\<lambda>_. \<lparr>s_frame_index = 0, s_index = 0, s_elapsed = 0, s_logged = [], s_discarded = []\<rparr>),
      pl_reading = [], pl_cam = [], pl_arrived = [], pl_built = [],
      pl_history = [configuration (cameramgr (frame_state p))],
      pl_fed = (\<lambda>_. []), pl_fed_at = (\<lambda>_. []), pl_turns = (\<lambda>_. 0)\<rparr>"

definition tickets_of :: "program \<Rightarrow> ticket_sys" where
  "tickets_of p = \<lparr>tk_srv = frame_state p, tk_pc = (\<lambda>_. AtTop), tk_eyes = [], tk_given = []\<rparr>"

section \<open>Properties\<close>

text \<open>
  C36. The start of the program. When it succeeds, the objects it leaves to the threads are a
  start state of the frame path and of the ticket counters, cameras and encoders agree on
  the resolution and every encoder is open as the options ask, the text renderer holds what
  FreeType gave it, and the five servers run on their ports under different names.
\<close>

theorem program_start:
  assumes "bootstrap env opts = (Inr p, ss)"
  shows "pipe_start (pipeline_of p) \<and> ticket_start (tickets_of p)
    \<and> camera_sync (cameramgr (frame_state p))
    \<and> (\<forall>s. m_info (codec_of s (m_codecs (cameramgr (frame_state p)))) = codec_info opts)
    \<and> RenderTextContext_new (freetype env) (font_flag opts) = Inr (etctx p)
    \<and> list_all serving ss \<and> map m_bind_port ss = all_ports opts \<and> distinct (map m_server_name ss)"
proof -
  obtain cs ctx where c: "make_codecs env opts = Inr cs" "RenderTextContext_new (freetype env) (font_flag opts) = Inr ctx"
    "list_all (port_ok env) (all_ports opts)" using bootstrap_inputs[OF assms] by blast
  have b: "list_all serving ss" "map m_bind_port ss = all_ports opts" "distinct (map m_server_name ss)" "etctx p = ctx"
    "frame_state p = \<lparr>sv_is_left = 0, frame_index_left = 0, frame_index_right = 0,
          cameramgr = CameraManager_new cs (width_flag opts) (height_flag opts),
          frame_queue_left = FrameQueue_new, frame_queue_right = FrameQueue_new, sv_heap = heap_empty\<rparr>"
    "frame_maps p = (\<lambda>_. FrameMap_new)"
    using bootstrap_cases[OF c(1,2)] c(3) assms by simp_all
  have cm: "cameramgr (frame_state p) = CameraManager_new cs (width_flag opts) (height_flag opts)" using b(5) by simp
  have codecs: "m_codecs (cameramgr (frame_state p)) = cs" by (simp add: cm CameraManager_new_def)
  have "camera_sync (cameramgr (frame_state p))"
    using make_codecs_ready[OF c(1), of SceneLeft] make_codecs_ready[OF c(1), of DepthLeft]
      make_codecs_ready[OF c(1), of SceneRight] make_codecs_ready[OF c(1), of DepthRight]
    by (simp add: cm camera_sync_def CameraManager_new_def same_size_def codec_info_def)
  moreover have "pipe_start (pipeline_of p)" "ticket_start (tickets_of p)"
    using b(5,6) by (simp_all add: pipe_start_def pipeline_of_def ticket_start_def tickets_of_def)
  ultimately show ?thesis using b(1-4) c(2) make_codecs_ready[OF c(1)] codecs by simp
qed

definition demo_main_env :: main_env where
  "demo_main_env = \<lparr>codec_calls = (\<lambda>_. demo_env),
     freetype = \<lparr>FT_Init_FreeType = 0, FT_New_Face = (\<lambda>f. (0, Some demo_glyph)), FT_Set_Char_Size = 0,
       FT_Error_String = (\<lambda>e. ''unknown'')\<rparr>,
     listen_ok = (\<lambda>port. 1024 \<le> port), accept_ok = (\<lambda>_. True), close_ok = (\<lambda>_. True)\<rparr>"

lemma demo_main_inputs:
  "\<exists>cs. make_codecs demo_main_env default_options = Inr cs"
  "RenderTextContext_new (freetype demo_main_env) (font_flag default_options) = Inr demo_text"
  by (simp_all add: make_codecs_def demo_main_env_def demo_env_def AVCodecContextManager_new_def codec_ctx_init_def
      codec_info_def default_options_def configure_def RenderTextContext_new_def demo_text_def)

lemma demo_ports: "list_all (port_ok demo_main_env) (all_ports default_options)"
  by (simp add: all_ports_def main_streams_def port_ok_def demo_main_env_def default_options_def)

lemma demo_bootstrap: "\<exists>p ss. bootstrap demo_main_env default_options = (Inr p, ss)"
  using bootstrap_cases[OF _ demo_main_inputs(2)] demo_main_inputs(1) demo_ports by fastforce

theorem program_start_witness:
  "\<exists>p ss. bootstrap demo_main_env default_options = (Inr p, ss) \<and> pipe_start (pipeline_of p)
     \<and> map m_bind_port ss = [9999, 10000, 10001, 10002, 9998]"
proof -
  obtain p ss where b: "bootstrap demo_main_env default_options = (Inr p, ss)" using demo_bootstrap by blast
  show ?thesis
    using b program_start[OF b] by (simp add: all_ports_def main_streams_def default_options_def)
qed

text \<open>
  C37. The end of the program. An encoder that cannot be opened, or a first server that cannot
  listen, ends it with status 0. When any later server cannot listen, the exception destroys
  the servers already started with their threads still joinable, and the program is aborted
  before the handler runs. When all threads have been joined with the servers running,
  it ends with status 0 if every connection can be closed, and is aborted otherwise. An
  exception of a thread aborts it, and a thread that does not return keeps it running.
\<close>

theorem main_outcome:
  assumes "\<not> version_flag opts"
  shows "(make_codecs env opts = Inl e \<longrightarrow> main env run (Parsed opts) = ExitStatus 0)
    \<and> (make_codecs env opts = Inr cs \<and> RenderTextContext_new (freetype env) (font_flag opts) = Inr ctx \<longrightarrow>
        (\<not> list_all (port_ok env) (all_ports opts) \<longrightarrow>
           main env run (Parsed opts) = (if port_ok env (scene_left_port opts) then Abort else ExitStatus 0))
        \<and> (list_all (port_ok env) (all_ports opts) \<longrightarrow>
           (\<exists>p ss. bootstrap env opts = (Inr p, ss) \<and>
             (case run (main_threads opts) p of
                Exit p' \<Rightarrow>
                  (let servers = packet_servers p' @ [cc_server (ccsvr p')] in
                   list_all serving servers \<longrightarrow> main env run (Parsed opts) =
                     (if list_all (\<lambda>s. list_all (close_ok env) (m_connections s)) servers
                      then ExitStatus 0 else Abort))
              | Throws e p' \<Rightarrow> main env run (Parsed opts) = Abort
              | _ \<Rightarrow> main env run (Parsed opts) = Running))))"
proof (intro conjI impI)
  assume "make_codecs env opts = Inl e"
  then show "main env run (Parsed opts) = ExitStatus 0"
    using assms by (simp add: main_def bootstrap_def leave_scope_def)
next
  assume c: "make_codecs env opts = Inr cs \<and> RenderTextContext_new (freetype env) (font_flag opts) = Inr ctx"
  note b = bootstrap_cases[OF c[THEN conjunct1] c[THEN conjunct2]]
  show "main env run (Parsed opts) = (if port_ok env (scene_left_port opts) then Abort else ExitStatus 0)"
    if "\<not> list_all (port_ok env) (all_ports opts)"
    using b that assms by (auto simp: main_def leave_scope_def)
  show "\<exists>p ss. bootstrap env opts = (Inr p, ss) \<and>
      (case run (main_threads opts) p of
         Exit p' \<Rightarrow>
           (let servers = packet_servers p' @ [cc_server (ccsvr p')] in
            list_all serving servers \<longrightarrow> main env run (Parsed opts) =
              (if list_all (\<lambda>s. list_all (close_ok env) (m_connections s)) servers
               then ExitStatus 0 else Abort))
       | Throws e p' \<Rightarrow> main env run (Parsed opts) = Abort
       | _ \<Rightarrow> main env run (Parsed opts) = Running)"
    if ports: "list_all (port_ok env) (all_ports opts)"
  proof -
    obtain p ss where p: "bootstrap env opts = (Inr p, ss)" using b ports by auto
    show ?thesis
    proof (cases "run (main_threads opts) p")
      case (Exit p')
      have "main env run (Parsed opts) =
          leave_scope (snd (stop_all (close_ok env) (packet_servers p' @ [cc_server (ccsvr p')])))"
        using p Exit assms by (simp add: main_def)
      then show ?thesis
        using p Exit stop_all_result[of "packet_servers p' @ [cc_server (ccsvr p')]" "close_ok env"]
        by (auto simp: leave_scope_def Let_def)
    qed (use p assms in \<open>simp_all add: main_def\<close>)
  qed
qed

theorem main_outcome_witness:
  "main demo_main_env (\<lambda>ts p. Exit p) (Parsed (default_options\<lparr>depth_left_port := 80\<rparr>)) = Abort
   \<and> (\<exists>p ss. bootstrap demo_main_env default_options = (Inr p, ss)
       \<and> main demo_main_env (\<lambda>ts p. Throws BadAlloc p) (Parsed default_options) = Abort)"
proof -
  obtain cs where cs: "make_codecs demo_main_env default_options = Inr cs" using demo_main_inputs(1) by blast
  have cs': "make_codecs demo_main_env (default_options\<lparr>depth_left_port := 80\<rparr>) = Inr cs"
    using cs by (simp add: make_codecs_def codec_info_def)
  have v: "\<not> version_flag default_options" "\<not> version_flag (default_options\<lparr>depth_left_port := 80\<rparr>)"
    by (simp_all add: default_options_def)
  have bad: "\<not> list_all (port_ok demo_main_env) (all_ports (default_options\<lparr>depth_left_port := 80\<rparr>))"
    "port_ok demo_main_env (scene_left_port (default_options\<lparr>depth_left_port := 80\<rparr>))"
    by (simp_all add: all_ports_def main_streams_def port_ok_def demo_main_env_def default_options_def)
  show ?thesis
    using main_outcome[OF v(2), of demo_main_env _ "\<lambda>ts p. Exit p" cs demo_text] cs' bad demo_main_inputs(2)
      main_outcome[OF v(1), of demo_main_env _ "\<lambda>ts p. Throws BadAlloc p" cs demo_text] cs demo_ports
    by (auto simp: default_options_def)
qed

text \<open>
  \<open>main\<close> hands the left encoders to the thread that receives the frames of both eyes. A
  right frame that is queued therefore has its encoder images allocated and scaled for the
  left encoders, while the thread that sends it feeds the right ones: after a camera message
  that gives the two eyes different resolutions, the right encoders get frames of a
  size that is not theirs.
\<close>

lemma right_frames_left_codec:
  assumes "heap_ok (sv_heap s)" and "\<not> resp_is_left r"
    and "length (m_queue (frame_queue_right s)) < kFrameQueueMaxSize"
  shows "\<exists>s' f. enqueue_frame (socket_env (hd (main_threads opts)) env) r s = Inr s'
    \<and> m_queue (frame_queue_right s') = m_queue (frame_queue_right s) @ [f]
    \<and> m_context (m_converted_avframe_scene f) = FrameContext_of (m_info (codec_of SceneLeft (m_codecs (cameramgr s))))
    \<and> SendFrame SceneRight DepthRight False \<in> set (main_threads opts)
    \<and> (info_width (m_info (scene_left (m_codecs (cameramgr s)))) \<noteq> info_width (m_info (scene_right (m_codecs (cameramgr s))))
        \<longrightarrow> fc_width (m_context (m_converted_avframe_scene f))
              \<noteq> info_width (m_info (codec_of SceneRight (m_codecs (cameramgr s)))))"
proof -
  have env: "ctxmgr_scene (socket_env (hd (main_threads opts)) env) = codec_of SceneLeft"
    by (simp add: main_threads_def)
  obtain s' where s': "enqueue_frame (socket_env (hd (main_threads opts)) env) r s = Inr s'"
    "enqueued (socket_env (hd (main_threads opts)) env) r s s'" using enqueue_frame_outcome[OF assms(1)] by blast
  then obtain f where "m_queue (frame_queue_right s') = m_queue (frame_queue_right s) @ [f]"
    "m_context (m_converted_avframe_scene f) = FrameContext_of (m_info (codec_of SceneLeft (m_codecs (cameramgr s))))"
    using assms(2,3) env by (auto simp: enqueued_def eye_queue_def Let_def)
  then show ?thesis
    using s'(1) by (intro exI[of _ s'] exI[of _ f]) (simp add: main_threads_def FrameContext_of_def)
qed

end
