(* ===== verification/Shutdown.thy ===== *)
theory Shutdown
  imports Encode_Threads
begin

text \<open>
  The four thread functions of \<open>encode.cpp\<close> as whole loops, and their end. Each is a \<open>while\<close> loop
  on the shutdown flag around the round of theory \<open>Encode_Threads\<close>. A script entry holds what
  the loop test reads, the inputs of the round (clock, timer, polls) and what the other threads
  have done to the shared objects in the meantime.
\<close>

section \<open>The loops\<close>

fun thread_loop :: "('e \<Rightarrow> 's \<Rightarrow> 's round) \<Rightarrow> (bool \<times> 'e) list \<Rightarrow> 's \<Rightarrow> 's round" where
  "thread_loop body [] s = Blocked"
| "thread_loop body ((shutdown_requested, e) # script) s =
     (if shutdown_requested then Exit s
      else (case body e s of Next s' \<Rightarrow> thread_loop body script s' | r \<Rightarrow> r))"

type_synonym process_state = "RenderedFrame FrameQueue \<times> process_vars \<times> encode_state"

definition process_body ::
  "(char \<Rightarrow> glyph \<Rightarrow> int \<times> glyph) \<Rightarrow> av_env \<Rightarrow>
   clock_time \<times> u64 \<times> (RenderedFrame FrameQueue \<times> encode_state \<Rightarrow> RenderedFrame FrameQueue \<times> encode_state) \<Rightarrow>
   process_state \<Rightarrow> process_state round" where
  "process_body load env = (\<lambda>(now, ms, others) (q, v, s).
     (let (q0, s0) = others (q, s)
      in case process_frame_round load env now ms q0 (v, s0) of
           (q', Next (v', s')) \<Rightarrow> Next (q', v', s')
         | (q', Exit (v', s')) \<Rightarrow> Exit (q', v', s')
         | (q', Throws e (v', s')) \<Rightarrow> Throws e (q', v', s')
         | (q', Blocked) \<Rightarrow> Blocked))"

definition process_frame_thread where
  "process_frame_thread load env = thread_loop (process_body load env)"

definition send_body ::
  "av_env \<Rightarrow> av_send_fun \<Rightarrow> u64 \<times> (send_state \<Rightarrow> send_state) \<Rightarrow> send_vars \<times> send_state \<Rightarrow>
   (send_vars \<times> send_state) round" where
  "send_body env av_send = (\<lambda>(ms, others) (v, s). send_frame_round env av_send ms (v, others s))"

definition send_frame_thread where
  "send_frame_thread env av_send = thread_loop (send_body env av_send)"

text \<open>
  The first component of the state is whether this thread itself has set the flag, which its
  next loop test reads.
\<close>

definition receive_body ::
  "(connection_hdl \<Rightarrow> bool) \<Rightarrow>
   bool \<times> (bool \<times> (AVCodecContext \<Rightarrow> int \<times> AVPacket \<times> AVCodecContext)) list
     \<times> (AVCodecContextManager \<times> WebSocketServer \<Rightarrow> AVCodecContextManager \<times> WebSocketServer) \<Rightarrow>
   bool \<times> AVCodecContextManager \<times> WebSocketServer \<Rightarrow> (bool \<times> AVCodecContextManager \<times> WebSocketServer) round" where
  "receive_body send_ok = (\<lambda>(packet_alloc, polls, others) (set_flag, cs).
     (if set_flag then Exit (set_flag, cs)
      else receive_packet_round packet_alloc send_ok polls (others cs)))"

definition receive_packet_thread where
  "receive_packet_thread send_ok = thread_loop (receive_body send_ok)"

definition stats_body :: "u64 \<times> u64 \<Rightarrow> stats_vars \<Rightarrow> stats_vars round" where
  "stats_body = (\<lambda>(index_left, index_right) v. Next (encode_stats_round index_left index_right v))"

definition encode_stats_thread where
  "encode_stats_thread = thread_loop stats_body"

section \<open>Loops whose rounds end\<close>

text \<open>How a loop ends: by returning or by an exception.\<close>

fun ended :: "'s round \<Rightarrow> bool" where
  "ended (Exit s) = True"
| "ended (Throws e s) = True"
| "ended _ = False"

text \<open>
  The contract of a loop body: on the entries of the script that keep \<open>fair\<close>, a round does not
  wait for ever.
\<close>

locale ending_body =
  fixes body :: "'e \<Rightarrow> 's \<Rightarrow> 's round" and fair :: "'e \<Rightarrow> bool"
  assumes round_ends: "fair e \<Longrightarrow> body e s \<noteq> Blocked"
begin

lemma loop_ends:
  "list_all (\<lambda>p. fair (snd p)) script \<Longrightarrow> list_ex fst script \<Longrightarrow> ended (thread_loop body script s)"
proof (induction script arbitrary: s)
  case (Cons p script)
  obtain sd e where p: "p = (sd, e)" by fastforce
  then show ?case
    using Cons round_ends[of e s] by (cases "body e s") auto
qed simp

text \<open>The state in which the loop is left is that of the rounds before the flag was seen.\<close>

lemma loop_state:
  assumes "\<And>e s. e \<in> set es \<Longrightarrow> \<exists>s'. body e s = Next s'"
  shows "thread_loop body (map (Pair False) es @ (True, e') # script) s =
    Exit (fold (\<lambda>e s. case body e s of Next s' \<Rightarrow> s' | _ \<Rightarrow> s) es s)"
  using assms
proof (induction es arbitrary: s)
  case (Cons e es)
  obtain s' where "body e s = Next s'" using Cons.prems[of e s] by auto
  then show ?case using Cons by simp
qed simp

end

lemma process_round_ends: "snd (process_frame_round load env now ms q vs) \<noteq> Blocked"
proof -
  have "process_finish load env now ms f vs \<noteq> Blocked" for f
    unfolding process_finish_def split_beta
    by (auto simp: Let_def split: sum.splits prod.splits if_splits)
  then show ?thesis by (simp add: process_frame_round_def split: sum.splits prod.splits)
qed

interpretation process_loop: ending_body "process_body load env" "\<lambda>_. True"
  by unfold_locales
    (auto simp: process_body_def split_beta Let_def split: round.splits dest: process_round_ends[THEN notE, rotated])

lemma send_round_ends: "send_frame_round env av_send ms vs \<noteq> Blocked"
proof -
  have "send_finish env av_send ms f vs \<noteq> Blocked" for f vs
    unfolding send_finish_def split_beta
    by (auto simp: Let_def split: sum.splits prod.splits)
  then show ?thesis
    by (auto simp: send_frame_round_def split_beta split: sum.splits prod.splits error.splits)
qed

interpretation send_loop: ending_body "send_body env av_send" "\<lambda>_. True"
  by unfold_locales (auto simp: send_body_def split_beta dest: send_round_ends[THEN notE, rotated])

text \<open>A sequence of polls that sees the flag, or gets an answer of the encoder.\<close>

definition answered :: "(bool \<times> (AVCodecContext \<Rightarrow> int \<times> AVPacket \<times> AVCodecContext)) list \<Rightarrow> bool" where
  "answered polls = list_ex (\<lambda>(sd, av_recv). sd \<or> (\<forall>ctx. fst (av_recv ctx) \<noteq> AVERROR_EAGAIN)) polls"

lemma handler_ends: "answered polls \<Longrightarrow> receive_packet_handler send_ok polls (codec, srv) \<noteq> None"
proof (induction polls arbitrary: codec)
  case (Cons p polls)
  obtain sd av_recv where p: "p = (sd, av_recv)" by fastforce
  show ?case
  proof (cases "m_ctx codec")
    case None
    then show ?thesis by (simp add: p receive_packet_def)
  next
    case (Some ctx)
    obtain ret pkt ctx' where a: "av_recv ctx = (ret, pkt, ctx')" by (metis prod_cases3)
    have "answered polls" if "\<not> sd" "ret = AVERROR_EAGAIN"
    proof -
      have "\<not> (\<forall>ctx. fst (av_recv ctx) \<noteq> AVERROR_EAGAIN)" using a that(2) by (metis fst_conv)
      then show ?thesis using Cons.prems that(1) by (auto simp: answered_def p)
    qed
    then show ?thesis
      using Cons.IH a Some by (auto simp: p receive_packet_def Let_def split: prod.splits sum.splits)
  qed
qed (simp add: answered_def)

interpretation receive_loop: ending_body "receive_body send_ok" "\<lambda>(packet_alloc, polls, others). answered polls"
proof
  fix e :: "bool \<times> (bool \<times> (AVCodecContext \<Rightarrow> int \<times> AVPacket \<times> AVCodecContext)) list
      \<times> (AVCodecContextManager \<times> WebSocketServer \<Rightarrow> AVCodecContextManager \<times> WebSocketServer)"
    and s :: "bool \<times> AVCodecContextManager \<times> WebSocketServer"
  assume f: "case e of (packet_alloc, polls, others) \<Rightarrow> answered polls"
  obtain al polls others set_flag cs where e: "e = (al, polls, others)" "s = (set_flag, cs)" by (metis prod_cases3 surj_pair)
  obtain codec srv where o: "others cs = (codec, srv)" by fastforce
  have "receive_packet_handler send_ok polls (codec, srv) \<noteq> None" using f e handler_ends by auto
  then show "receive_body send_ok e s \<noteq> Blocked"
    by (auto simp: receive_body_def receive_packet_round_def e o split: option.splits sum.splits prod.splits error.splits)
qed

interpretation stats_loop: ending_body stats_body "\<lambda>_. True"
  by unfold_locales (simp add: stats_body_def split_beta)

section \<open>Properties\<close>

text \<open>
  C29. Shutdown. Once the flag is seen, every thread of \<open>encode.cpp\<close> ends, whatever its rounds and
  the other threads did before: no round of the processing and sending threads waits for
  ever, and the packet thread ends as long as each of its rounds of polls sees the flag or an
  answer of the encoder. The statistics thread always returns normally, with the reports of the rounds
  before.
\<close>

theorem threads_stop:
  "(list_ex fst ps \<longrightarrow> ended (process_frame_thread load env ps a))
   \<and> (list_ex fst ss \<longrightarrow> ended (send_frame_thread env av_send ss b))
   \<and> (list_ex fst rs \<and> list_all (\<lambda>(sd, al, polls, others). answered polls) rs \<longrightarrow>
        ended (receive_packet_thread send_ok rs c))
   \<and> encode_stats_thread (map (Pair False) samples @ (True, sample) # later) v =
        Exit (fold (\<lambda>(l, r). encode_stats_round l r) samples v)"
proof (intro conjI impI)
  show "ended (process_frame_thread load env ps a)" if "list_ex fst ps"
    using process_loop.loop_ends[of ps load env a] that by (simp add: process_frame_thread_def list_all_iff)
  show "ended (send_frame_thread env av_send ss b)" if "list_ex fst ss"
    using send_loop.loop_ends[of ss env av_send b] that by (simp add: send_frame_thread_def list_all_iff)
  show "ended (receive_packet_thread send_ok rs c)"
    if "list_ex fst rs \<and> list_all (\<lambda>(sd, al, polls, others). answered polls) rs"
    using receive_loop.loop_ends[of rs send_ok c] that
    by (simp add: receive_packet_thread_def list_all_iff split_beta)
  have "(\<lambda>e s. case stats_body e s of Next s' \<Rightarrow> s' | _ \<Rightarrow> s) = (\<lambda>(l, r). encode_stats_round l r)"
    by (auto simp: stats_body_def fun_eq_iff)
  then show "encode_stats_thread (map (Pair False) samples @ (True, sample) # later) v =
      Exit (fold (\<lambda>(l, r). encode_stats_round l r) samples v)"
    using stats_loop.loop_state[of samples sample later v]
    by (simp add: encode_stats_thread_def stats_body_def split_beta)
qed

definition demo_polls :: "(bool \<times> (AVCodecContext \<Rightarrow> int \<times> AVPacket \<times> AVCodecContext)) list" where
  "demo_polls = [(False, \<lambda>ctx. (AVERROR_EAGAIN, \<lparr>pkt_data = [], pkt_flags = 0\<rparr>, ctx)),
     (True, \<lambda>ctx. (0, \<lparr>pkt_data = [0], pkt_flags = 0\<rparr>, ctx))]"

theorem threads_stop_witness:
  "ended (process_frame_thread (\<lambda>ch g. (0, demo_glyph)) demo_av [(False, demo_clock, 4, id), (True, demo_clock, 0, id)]
        (FrameQueue_new, \<lparr>p_index = 0, p_elapsed = 0, p_logged = []\<rparr>, demo_encode))
   \<and> ended (send_frame_thread demo_av (\<lambda>ctx fr. (0, ctx)) [(False, 3, id), (True, 0, id)] demo_send)
   \<and> ended (receive_packet_thread (\<lambda>_. True) [(False, True, demo_polls, id), (True, True, demo_polls, id)]
        (False, demo_codec, WebSocketServer_new ''scene'' 9999))"
  using threads_stop[of "[(False, demo_clock, 4, id), (True, demo_clock, 0, id)]" "\<lambda>ch g. (0, demo_glyph)" demo_av
      "(FrameQueue_new, \<lparr>p_index = 0, p_elapsed = 0, p_logged = []\<rparr>, demo_encode)"
      "[(False, 3, id), (True, 0, id)]" "\<lambda>ctx fr. (0, ctx)" demo_send
      "[(False, True, demo_polls, id), (True, True, demo_polls, id)]" "\<lambda>_. True"
      "(False, demo_codec, WebSocketServer_new ''scene'' 9999)" "[]" "(0, 0)" "[]" stats_start]
  by (simp add: answered_def demo_polls_def)

end
