(* ===== verification/Codec_Memory.thy ===== *)
theory Codec_Memory
  imports Codec "HOL-Library.AList"
begin

text \<open>
  The objects of libav behind \<open>AVCodecContextManager\<close>, \<open>AVDictionaryManager\<close> and \<open>AVPacketManager\<close>
  (\<open>type_managers.h\<close>, \<open>type_managers.cc\<close>): what their constructors allocate and their destructors
  release, on explicit stores of codec contexts, option dictionaries and packets. Address 0 is
  the null pointer. The operations of theory \<open>Codec\<close> are these operations with the memory left
  out.

  Of \<open>avcodec_open2\<close> the documentation says that on return the options it did not use are left in
  the caller's dictionary; which these are is the parameter \<open>unused\<close>, \<open>None\<close> standing for a dictionary
  that has been freed and set to null.
\<close>

section \<open>Stores\<close>

record 'a store =
  objs :: "nat \<rightharpoonup> 'a"
  next_obj :: nat

definition store_ok :: "'a store \<Rightarrow> bool" where
  "store_ok st = (0 < next_obj st \<and> objs st 0 = None \<and> (\<forall>p \<ge> next_obj st. objs st p = None))"

definition store_empty :: "'a store" where
  "store_empty = \<lparr>objs = Map.empty, next_obj = 1\<rparr>"

definition store_new :: "'a \<Rightarrow> 'a store \<Rightarrow> nat \<times> 'a store" where
  "store_new x st = (next_obj st, st\<lparr>objs := (objs st)(next_obj st \<mapsto> x), next_obj := Suc (next_obj st)\<rparr>)"

text \<open>libav's functions for freeing do nothing on a null pointer.\<close>

definition store_free :: "nat \<Rightarrow> 'a store \<Rightarrow> 'a store res" where
  "store_free p st =
     (if p = 0 then Inr st
      else if objs st p = None then Inl (InvalidFree p)
      else Inr (st\<lparr>objs := (objs st)(p := None)\<rparr>))"

section \<open>AVDictionaryManager\<close>

type_synonym dictionary = "(string \<times> string) list"

record AVDictionaryManager =
  m_dict :: nat

definition AVDictionaryManager_new :: AVDictionaryManager where
  "AVDictionaryManager_new = \<lparr>m_dict = 0\<rparr>"

text \<open>\<open>operator()\<close> returns the pointer by value.\<close>

definition AVDictionaryManager_get :: "AVDictionaryManager \<Rightarrow> nat" where
  "AVDictionaryManager_get d = m_dict d"

definition AVDictionaryManager_delete :: "AVDictionaryManager \<Rightarrow> dictionary store \<Rightarrow> dictionary store res" where
  "AVDictionaryManager_delete d st = store_free (m_dict d) st"

text \<open>\<open>av_dict_set\<close> without flags: allocates when it gets a null pointer, overwrites an entry.\<close>

definition av_dict_set :: "nat \<Rightarrow> string \<Rightarrow> string \<Rightarrow> dictionary store \<Rightarrow> nat \<times> dictionary store" where
  "av_dict_set p k v st =
     (case objs st p of
        None \<Rightarrow> store_new [(k, v)] st
      | Some xs \<Rightarrow> (p, st\<lparr>objs := (objs st)(p \<mapsto> AList.update k v xs)\<rparr>))"

section \<open>AVCodecContextManager\<close>

record av_memory =
  contexts :: "AVCodecContext store"
  dictionaries :: "dictionary store"

record codec_object =
  o_ctx :: nat
  o_info :: CodecInitInfo
  o_opened :: bool

type_synonym unused_options = "AVCodecContext \<Rightarrow> dictionary \<Rightarrow> dictionary option"

text \<open>The block that opens the context: the dictionary manager lives in its scope.\<close>

definition open_with_options ::
  "codec_env \<Rightarrow> unused_options \<Rightarrow> CodecInitInfo \<Rightarrow> AVCodecContext \<Rightarrow> dictionary store \<Rightarrow> int res \<times> dictionary store" where
  "open_with_options env unused info ctx st =
     (let dict = AVDictionaryManager_new;
          options = AVDictionaryManager_get dict;
          (options, st1) = av_dict_set options ''preset'' (x264_encode_preset info) st;
          (options, st2) = av_dict_set options ''tune'' (x264_encode_tune info) st1;
          given = the (objs st2 options);
          ret = open2 env ctx given;
          st3 = st2\<lparr>objs := (objs st2)(options := unused ctx given)\<rparr>
      in case AVDictionaryManager_delete dict st3 of
           Inl e \<Rightarrow> (Inl e, st3)
         | Inr st4 \<Rightarrow> (Inr ret, st4))"

definition codec_ctx_init_mem ::
  "codec_env \<Rightarrow> unused_options \<Rightarrow> codec_object \<times> av_memory \<Rightarrow> unit res \<times> codec_object \<times> av_memory" where
  "codec_ctx_init_mem env unused = (\<lambda>(m0, mem0).
     (case (if o_opened m0 then store_free (o_ctx m0) (contexts mem0) else Inr (contexts mem0)) of
        Inl e \<Rightarrow> (Inl e, m0, mem0)
      | Inr cs \<Rightarrow>
          (let m = (if o_opened m0 then m0\<lparr>o_ctx := 0\<rparr> else m0);
               mem = mem0\<lparr>contexts := cs\<rparr>;
               info = o_info m
           in if \<not> find_encoder env (codec_id info)
              then (Inl (RuntimeError ''Failed to find encoder.''), m, mem)
              else if \<not> alloc_context3 env
              then (Inl (RuntimeError ''Failed to allocate codec context.''), m\<lparr>o_ctx := 0\<rparr>, mem)
              else
                (let ctx = configure info; (p, cs1) = store_new ctx cs;
                     (r, ds) = open_with_options env unused info ctx (dictionaries mem);
                     m1 = m\<lparr>o_ctx := p\<rparr>; mem1 = \<lparr>contexts = cs1, dictionaries = ds\<rparr>
                 in case r of
                      Inl e \<Rightarrow> (Inl e, m1, mem1)
                    | Inr ret \<Rightarrow>
                        (if ret < 0
                         then (Inl (RuntimeError (''Failed to open codec: '' @ averror_explain (strerror env) ret)), m1, mem1)
                         else (Inr (), m1\<lparr>o_opened := True\<rparr>,
                               mem1\<lparr>contexts := cs1\<lparr>objs := (objs cs1)(p \<mapsto> ctx\<lparr>ctx_open := True\<rparr>)\<rparr>\<rparr>))))))"

text \<open>
  The constructor leaves \<open>m_ctx\<close> uninitialised: \<open>garbage\<close> is what happens to be there. When it
  throws there is no object and no destructor runs.
\<close>

definition AVCodecContextManager_new_mem ::
  "codec_env \<Rightarrow> unused_options \<Rightarrow> nat \<Rightarrow> CodecInitInfo \<Rightarrow> av_memory \<Rightarrow> codec_object res \<times> av_memory" where
  "AVCodecContextManager_new_mem env unused garbage info mem =
     (case codec_ctx_init_mem env unused (\<lparr>o_ctx = garbage, o_info = info, o_opened = False\<rparr>, mem) of
        (Inl e, m, mem') \<Rightarrow> (Inl e, mem')
      | (Inr _, m, mem') \<Rightarrow> (Inr m, mem'))"

definition change_resolution_mem ::
  "codec_env \<Rightarrow> unused_options \<Rightarrow> u32 \<Rightarrow> u32 \<Rightarrow> codec_object \<times> av_memory \<Rightarrow>
   unit res \<times> codec_object \<times> av_memory" where
  "change_resolution_mem env unused width height = (\<lambda>(m, mem).
     codec_ctx_init_mem env unused
       (m\<lparr>o_info := (o_info m)\<lparr>info_width := width, info_height := height\<rparr>\<rparr>, mem))"

definition AVCodecContextManager_delete :: "codec_object \<times> av_memory \<Rightarrow> av_memory res" where
  "AVCodecContextManager_delete = (\<lambda>(m, mem).
     bindE (store_free (o_ctx m) (contexts mem)) (\<lambda>cs. Inr (mem\<lparr>contexts := cs\<rparr>)))"

section \<open>AVPacketManager\<close>

record AVPacketManager =
  m_packet :: nat

definition AVPacketManager_new :: "bool \<Rightarrow> 'p \<Rightarrow> 'p store \<Rightarrow> AVPacketManager res \<times> 'p store" where
  "AVPacketManager_new packet_alloc blank st =
     (if packet_alloc
      then (let (p, st') = store_new blank st in (Inr \<lparr>m_packet = p\<rparr>, st'))
      else (Inl (RuntimeError ''Failed to allocate AVPacket.''), st))"

definition AVPacketManager_get :: "AVPacketManager \<Rightarrow> nat" where
  "AVPacketManager_get pkt = m_packet pkt"

definition AVPacketManager_delete :: "AVPacketManager \<Rightarrow> 'p store \<Rightarrow> 'p store res" where
  "AVPacketManager_delete pkt st = store_free (m_packet pkt) st"

lemmas memory_defs [op_defs] =
  AVDictionaryManager_new_def AVDictionaryManager_get_def AVDictionaryManager_delete_def av_dict_set_def
  codec_ctx_init_mem_def AVCodecContextManager_new_mem_def change_resolution_mem_def
  AVCodecContextManager_delete_def AVPacketManager_new_def AVPacketManager_get_def AVPacketManager_delete_def

section \<open>Lemmas\<close>

lemma store_empty_ok [simp]: "store_ok store_empty"
  by (simp add: store_ok_def store_empty_def)

lemma store_fresh: "store_ok st \<Longrightarrow> objs st (next_obj st) = None" "store_ok st \<Longrightarrow> objs st 0 = None"
  "store_ok st \<Longrightarrow> 0 < next_obj st"
  by (simp_all add: store_ok_def)

lemma store_ok_updates [simp]:
  "store_ok (st\<lparr>objs := f\<rparr>) = (0 < next_obj st \<and> f 0 = None \<and> (\<forall>p \<ge> next_obj st. f p = None))"
  "store_ok (st\<lparr>objs := f, next_obj := n\<rparr>) = (0 < n \<and> f 0 = None \<and> (\<forall>p \<ge> n. f p = None))"
  "store_ok (st\<lparr>next_obj := n, objs := f\<rparr>) = (0 < n \<and> f 0 = None \<and> (\<forall>p \<ge> n. f p = None))"
  by (simp_all add: store_ok_def)

lemma store_beyond: "store_ok st \<Longrightarrow> next_obj st \<le> p \<Longrightarrow> objs st p = None"
  by (simp add: store_ok_def)

lemma store_ok_finite: "store_ok st \<Longrightarrow> finite (dom (objs st))"
  by (rule finite_subset[of _ "{..<next_obj st}"]) (auto simp: store_ok_def not_less[symmetric])

text \<open>
  The dictionary the options are collected in is not the manager's: the pointer the manager
  keeps stays null, and what \<open>avcodec_open2\<close> leaves is never freed.
\<close>

definition store_leak :: "'a option \<Rightarrow> 'a store \<Rightarrow> 'a store" where
  "store_leak x st = st\<lparr>objs := (objs st)(next_obj st := x), next_obj := Suc (next_obj st)\<rparr>"

lemma store_leak_ok [simp]: "store_ok st \<Longrightarrow> store_ok (store_leak x st)"
  by (auto simp: store_leak_def store_fresh store_beyond dest: store_fresh(3))

lemma card_store_leak:
  "store_ok st \<Longrightarrow> card (dom (objs (store_leak x st))) = card (dom (objs st)) + (if x = None then 0 else 1)"
  using store_fresh(1)[of st]
  by (cases x) (auto simp: store_leak_def card_insert_if store_ok_finite domIff fun_upd_idem)

lemma open_with_options_result:
  assumes "store_ok st"
  shows "open_with_options env unused info ctx st =
    (Inr (open2 env ctx (codec_options info)), store_leak (unused ctx (codec_options info)) st)"
  using store_fresh[OF assms]
  by (cases st) (simp add: open_with_options_def memory_defs store_new_def store_free_def codec_options_def store_leak_def Let_def)

definition memory_ok :: "av_memory \<Rightarrow> bool" where
  "memory_ok mem = (store_ok (contexts mem) \<and> store_ok (dictionaries mem))"

text \<open>The manager's pointer is null or leads to a live context.\<close>

definition holds :: "codec_object \<Rightarrow> av_memory \<Rightarrow> bool" where
  "holds m mem = (o_opened m \<and> (o_ctx m = 0 \<or> objs (contexts mem) (o_ctx m) \<noteq> None))"

text \<open>The manager without its memory.\<close>

definition codec_abs :: "codec_object \<Rightarrow> av_memory \<Rightarrow> AVCodecContextManager" where
  "codec_abs m mem = \<lparr>m_ctx = objs (contexts mem) (o_ctx m), m_info = o_info m, m_opened = o_opened m\<rparr>"

text \<open>The contexts that are not the manager's.\<close>

definition other_contexts :: "codec_object \<Rightarrow> av_memory \<Rightarrow> nat \<rightharpoonup> AVCodecContext" where
  "other_contexts m mem = objs (contexts mem) |` (- {o_ctx m})"

text \<open>Whether an initialisation gets to open the encoder, and leaves options behind.\<close>

definition leaves_options :: "codec_env \<Rightarrow> unused_options \<Rightarrow> CodecInitInfo \<Rightarrow> bool" where
  "leaves_options env unused info = (find_encoder env (codec_id info) \<and> alloc_context3 env
     \<and> unused (configure info) (codec_options info) \<noteq> None)"

lemma codec_ctx_init_mem_reinit:
  assumes ok: "memory_ok mem" and h: "holds m mem"
    and init: "codec_ctx_init_mem env unused (m, mem) = (r, m', mem')"
  shows "codec_ctx_init env (codec_abs m mem) = (r, codec_abs m' mem') \<and> memory_ok mem' \<and> holds m' mem'
    \<and> other_contexts m' mem' = other_contexts m mem
    \<and> card (dom (objs (dictionaries mem'))) =
        card (dom (objs (dictionaries mem))) + (if leaves_options env unused (o_info m) then 1 else 0)"
proof -
  let ?cs = "(contexts mem)\<lparr>objs := (objs (contexts mem))(o_ctx m := None)\<rparr>"
  have st: "store_ok (contexts mem)" "store_ok (dictionaries mem)" using ok by (simp_all add: memory_ok_def)
  have open': "o_opened m" using h by (simp add: holds_def)
  have null: "objs (contexts mem) 0 = None" using st(1) by (rule store_fresh)
  then have free: "store_free (o_ctx m) (contexts mem) = Inr ?cs"
    using h by (auto simp: store_free_def holds_def fun_upd_idem)
  have fresh: "o_ctx m \<noteq> next_obj (contexts mem)" "objs (contexts mem) (next_obj (contexts mem)) = None" "0 < next_obj (contexts mem)"
    using h st(1) by (auto simp: holds_def store_ok_def)
  have beyond: "next_obj (contexts mem) \<le> p \<Longrightarrow> objs (contexts mem) p = None" for p by (rule store_beyond[OF st(1)])
  note defs = codec_ctx_init_mem_def codec_ctx_init_def free open' open_with_options_result[OF st(2)] store_new_def
    codec_abs_def other_contexts_def memory_ok_def holds_def leaves_options_def
  consider (find) "\<not> find_encoder env (codec_id (o_info m))"
    | (alloc) "find_encoder env (codec_id (o_info m))" "\<not> alloc_context3 env"
    | (opens) "find_encoder env (codec_id (o_info m))" "alloc_context3 env" by blast
  then show ?thesis
  proof cases
    case find
    then show ?thesis using init st by (auto simp: defs null beyond fresh restrict_map_def fun_eq_iff)
  next
    case alloc
    then show ?thesis using init st by (auto simp: defs null beyond fresh restrict_map_def fun_eq_iff)
  next
    case opens
    then show ?thesis
      using init st fresh null
      by (cases "open2 env (configure (o_info m)) (codec_options (o_info m)) < 0")
        (auto simp: defs Let_def beyond restrict_map_def fun_eq_iff card_store_leak)
  qed
qed

lemma AVCodecContextManager_new_mem_result:
  assumes ok: "memory_ok mem" and new: "AVCodecContextManager_new_mem env unused garbage info mem = (r, mem')"
  shows "memory_ok mem' \<and> AVCodecContextManager_new env info = map_sum id (\<lambda>m. codec_abs m mem') r
    \<and> card (dom (objs (dictionaries mem'))) =
        card (dom (objs (dictionaries mem))) + (if leaves_options env unused info then 1 else 0)
    \<and> (case r of
         Inr m \<Rightarrow> holds m mem' \<and> o_info m = info \<and> other_contexts m mem' = objs (contexts mem)
       | Inl e \<Rightarrow> card (dom (objs (contexts mem'))) = card (dom (objs (contexts mem))) +
           (if find_encoder env (codec_id info) \<and> alloc_context3 env then 1 else 0))"
proof -
  have st: "store_ok (contexts mem)" "store_ok (dictionaries mem)" using ok by (simp_all add: memory_ok_def)
  have fresh: "objs (contexts mem) (next_obj (contexts mem)) = None" "0 < next_obj (contexts mem)"
    using st(1) by (auto intro: store_fresh)
  have c: "card (dom ((objs (contexts mem))(next_obj (contexts mem) \<mapsto> x))) = Suc (card (dom (objs (contexts mem))))" for x
    using fresh(1) by (simp add: card_insert_if store_ok_finite[OF st(1)] domIff)
  have beyond: "next_obj (contexts mem) \<le> p \<Longrightarrow> objs (contexts mem) p = None" for p by (rule store_beyond[OF st(1)])
  note defs = AVCodecContextManager_new_mem_def AVCodecContextManager_new_def codec_ctx_init_mem_def codec_ctx_init_def
    open_with_options_result[OF st(2)] store_new_def codec_abs_def other_contexts_def memory_ok_def holds_def leaves_options_def
  consider (fails) "\<not> (find_encoder env (codec_id info) \<and> alloc_context3 env)"
    | (opens) "find_encoder env (codec_id info)" "alloc_context3 env" by blast
  then show ?thesis
  proof cases
    case fails
    then show ?thesis
      using new st by (cases "find_encoder env (codec_id info)") (auto simp: defs Let_def)
  next
    case opens
    then show ?thesis
      using new st fresh c store_fresh(2)[OF st(1)]
      by (cases "open2 env (configure info) (codec_options info) < 0")
        (auto simp: defs Let_def beyond restrict_map_def fun_eq_iff card_store_leak)
  qed
qed

lemma AVCodecContextManager_delete_result:
  assumes "memory_ok mem" "holds m mem"
  shows "\<exists>mem'. AVCodecContextManager_delete (m, mem) = Inr mem' \<and> memory_ok mem'
    \<and> objs (contexts mem') = other_contexts m mem \<and> dictionaries mem' = dictionaries mem"
proof -
  have st: "store_ok (contexts mem)" using assms(1) by (simp add: memory_ok_def)
  show ?thesis
    using assms store_fresh(2,3)[OF st] store_beyond[OF st]
    by (auto simp: AVCodecContextManager_delete_def store_free_def memory_ok_def holds_def other_contexts_def
        restrict_map_def fun_eq_iff)
qed

text \<open>A life of a manager: any calls of \<open>change_resolution\<close>, whether they return or throw.\<close>

type_synonym resolution_call = "codec_env \<times> u32 \<times> u32"

fun codec_life :: "unused_options \<Rightarrow> resolution_call list \<Rightarrow> codec_object \<times> av_memory \<Rightarrow> codec_object \<times> av_memory" where
  "codec_life unused [] s = s"
| "codec_life unused ((env, w, h) # calls) s = codec_life unused calls (snd (change_resolution_mem env unused w h s))"

definition with_size :: "u32 \<Rightarrow> u32 \<Rightarrow> CodecInitInfo \<Rightarrow> CodecInitInfo" where
  "with_size w h info = info\<lparr>info_width := w, info_height := h\<rparr>"

lemma with_size_twice [simp]: "with_size w h (with_size w' h' info) = with_size w h info"
  by (simp add: with_size_def)

lemma codec_ctx_init_mem_info: "o_info (fst (snd (codec_ctx_init_mem env unused (m, mem)))) = o_info m"
  by (simp add: codec_ctx_init_mem_def Let_def split_beta split: sum.splits)

lemma change_resolution_mem_result:
  assumes "memory_ok mem" "holds m mem" "change_resolution_mem env unused w h (m, mem) = (r, m', mem')"
  shows "change_resolution env w h (codec_abs m mem) = (r, codec_abs m' mem') \<and> memory_ok mem' \<and> holds m' mem'
    \<and> other_contexts m' mem' = other_contexts m mem \<and> o_info m' = with_size w h (o_info m)
    \<and> card (dom (objs (dictionaries mem'))) =
        card (dom (objs (dictionaries mem))) + (if leaves_options env unused (with_size w h (o_info m)) then 1 else 0)"
proof -
  let ?m = "m\<lparr>o_info := with_size w h (o_info m)\<rparr>"
  have init: "codec_ctx_init_mem env unused (?m, mem) = (r, m', mem')"
    using assms(3) by (simp add: change_resolution_mem_def with_size_def)
  have "holds ?m mem" using assms(2) by (simp add: holds_def)
  note res = codec_ctx_init_mem_reinit[OF assms(1) this init]
  have "change_resolution env w h (codec_abs m mem) = codec_ctx_init env (codec_abs ?m mem)"
    by (simp add: change_resolution_def codec_abs_def with_size_def)
  then show ?thesis
    using res codec_ctx_init_mem_info[of env unused ?m mem] init by (simp add: other_contexts_def)
qed

lemma codec_life_result:
  assumes "memory_ok mem" "holds m mem" "codec_life unused calls (m, mem) = (m', mem')"
  shows "codec_abs m' mem' = fold (\<lambda>(env, w, h) c. snd (change_resolution env w h c)) calls (codec_abs m mem)
    \<and> memory_ok mem' \<and> holds m' mem' \<and> other_contexts m' mem' = other_contexts m mem
    \<and> card (dom (objs (dictionaries mem'))) = card (dom (objs (dictionaries mem))) +
        length (filter (\<lambda>(env, w, h). leaves_options env unused (with_size w h (o_info m))) calls)"
  using assms
proof (induction calls arbitrary: m mem)
  case (Cons call calls)
  obtain env w h where call: "call = (env, w, h)" by (cases call)
  obtain r n mem1 where c: "change_resolution_mem env unused w h (m, mem) = (r, n, mem1)" by (metis prod_cases3)
  note res = change_resolution_mem_result[OF Cons.prems(1,2) c]
  have "codec_life unused calls (n, mem1) = (m', mem')" using Cons.prems(3) call c by simp
  from Cons.IH[OF _ _ this] res show ?case
    by (simp add: call split_beta)
qed simp

section \<open>Properties\<close>

text \<open>
  C13. The memory of an encoder. Whatever calls of \<open>change_resolution\<close> a manager sees between its
  construction and its destruction, and whichever of them throw, it owns at most one codec
  context, never touches another one, and its destructor gives back every context it ever
  allocated. What the calls do to the manager itself is what theory \<open>Codec\<close> says. The dictionary of
  options is never freed: each initialisation that gets to open the encoder leaks one if
  \<open>avcodec_open2\<close> leaves options in it.
\<close>

theorem codec_memory_balance:
  assumes "memory_ok mem" and "AVCodecContextManager_new_mem env unused garbage info mem = (Inr m, mem1)"
    and "codec_life unused calls (m, mem1) = (m2, mem2)"
  shows "\<exists>c mem3. AVCodecContextManager_new env info = Inr c
    \<and> codec_abs m2 mem2 = fold (\<lambda>(env, w, h) c. snd (change_resolution env w h c)) calls c
    \<and> AVCodecContextManager_delete (m2, mem2) = Inr mem3 \<and> objs (contexts mem3) = objs (contexts mem)
    \<and> card (dom (objs (dictionaries mem3))) = card (dom (objs (dictionaries mem)))
        + (if leaves_options env unused info then 1 else 0)
        + length (filter (\<lambda>(env, w, h). leaves_options env unused (with_size w h info)) calls)"
proof -
  note new = AVCodecContextManager_new_mem_result[OF assms(1,2)]
  then have m: "memory_ok mem1" "holds m mem1" "o_info m = info" "other_contexts m mem1 = objs (contexts mem)" by simp_all
  note life = codec_life_result[OF m(1,2) assms(3)]
  then obtain mem3 where "AVCodecContextManager_delete (m2, mem2) = Inr mem3"
    "objs (contexts mem3) = other_contexts m2 mem2" "dictionaries mem3 = dictionaries mem2"
    using AVCodecContextManager_delete_result by blast
  then show ?thesis using new life m by simp
qed

text \<open>An encoder that knows the options of x264 but not \<open>tune\<close>, and a resolution it refuses.\<close>

definition demo_unused :: unused_options where
  "demo_unused = (\<lambda>ctx opts. case filter (\<lambda>p. fst p = ''tune'') opts of [] \<Rightarrow> None | left \<Rightarrow> Some left)"

definition demo_memory :: av_memory where
  "demo_memory = \<lparr>contexts = store_empty, dictionaries = store_empty\<rparr>"

lemma demo_memory_ok: "memory_ok demo_memory"
  by (simp add: memory_ok_def demo_memory_def)

lemma demo_leaves: "leaves_options demo_env demo_unused (with_size w h demo_info)" "leaves_options demo_env demo_unused demo_info"
  by (simp_all add: leaves_options_def demo_env_def demo_unused_def codec_options_def with_size_def demo_info_def)

lemma demo_new_mem: "\<exists>m mem. AVCodecContextManager_new_mem demo_env demo_unused 77 demo_info demo_memory = (Inr m, mem)"
  by (simp add: AVCodecContextManager_new_mem_def codec_ctx_init_mem_def Let_def split_beta demo_env_def demo_info_def
      open_with_options_result demo_memory_def configure_def)

theorem codec_memory_balance_witness:
  "\<exists>m mem1 m2 mem2 mem3. AVCodecContextManager_new_mem demo_env demo_unused 77 demo_info demo_memory = (Inr m, mem1)
    \<and> codec_life demo_unused [(demo_env, 640, 480), (demo_env, 0, 480)] (m, mem1) = (m2, mem2)
    \<and> AVCodecContextManager_delete (m2, mem2) = Inr mem3 \<and> objs (contexts mem3) = Map.empty
    \<and> card (dom (objs (dictionaries mem3))) = 3"
proof -
  obtain m mem1 where m: "AVCodecContextManager_new_mem demo_env demo_unused 77 demo_info demo_memory = (Inr m, mem1)"
    using demo_new_mem by blast
  obtain m2 mem2 where l: "codec_life demo_unused [(demo_env, 640, 480), (demo_env, 0, 480)] (m, mem1) = (m2, mem2)"
    by fastforce
  show ?thesis
    using codec_memory_balance[OF demo_memory_ok m l] m l demo_leaves
    by (auto simp: demo_memory_def store_empty_def)
qed

end
