(* ===== verification/Connection_Walk.thy ===== *)
theory Connection_Walk
  imports Servers
begin

text \<open>
  The loops of \<open>WebSocketServer\<close> over its connection set, interleaved with the handlers that change
  the set. \<open>send_to_all\<close> runs in a packet thread and \<open>stop\<close> in the main thread, while the open and close
  handlers run in the server's own thread; nothing locks \<open>m_connections\<close>. The model takes every
  single access to the set as atomic, so what goes wrong here goes wrong even then.

  A range-based \<open>for\<close> holds an iterator: it copies the handle the iterator leads to, runs the
  body on the copy and moves the iterator on. Inserting into a \<open>std::set\<close> keeps iterators valid,
  erasing an element invalidates the iterators to it, and reading or moving such an iterator
  is undefined behaviour.
\<close>

section \<open>The interleaved loop\<close>

datatype cursor =
    Begin
  | At connection_hdl
  | Copied connection_hdl
  | Visited connection_hdl
  | End
  | Stopped error
  | Undefined

text \<open>
  \<open>w_lost\<close>: the element the iterator leads to has been erased; \<open>w_events\<close>: what the handlers did since
  the loop was entered.
\<close>

record walk =
  w_server :: WebSocketServer
  w_cursor :: cursor
  w_lost :: bool
  w_events :: "ws_event list"

fun cursor_at :: "connection_hdl list \<Rightarrow> cursor" where
  "cursor_at [] = End"
| "cursor_at (c # cs) = At c"

text \<open>The element the iterator leads to.\<close>

fun current :: "cursor \<Rightarrow> connection_hdl option" where
  "current (At h) = Some h"
| "current (Copied h) = Some h"
| "current (Visited h) = Some h"
| "current _ = None"

text \<open>The bodies of the two loops, for a call on websocketpp that succeeds or throws.\<close>

definition send_one :: "u8 list \<Rightarrow> bool \<Rightarrow> connection_hdl \<Rightarrow> WebSocketServer \<Rightarrow> unit res \<times> WebSocketServer" where
  "send_one data ok it s =
     (if ok then (Inr (), s\<lparr>outbox := outbox s @ [(it, data)]\<rparr>)
      else (Inl (WebsocketException ''send''), s))"

definition close_one :: "bool \<Rightarrow> connection_hdl \<Rightarrow> WebSocketServer \<Rightarrow> unit res \<times> WebSocketServer" where
  "close_one ok it s =
     (if ok then (Inr (), s\<lparr>closing := closing s @ [it]\<rparr>)
      else (Inl (WebsocketException ''close''), s))"

inductive walk_step ::
  "(bool \<Rightarrow> connection_hdl \<Rightarrow> WebSocketServer \<Rightarrow> unit res \<times> WebSocketServer) \<Rightarrow> walk \<Rightarrow> walk \<Rightarrow> bool"
  for visit :: "bool \<Rightarrow> connection_hdl \<Rightarrow> WebSocketServer \<Rightarrow> unit res \<times> WebSocketServer" where
  enter: "w_cursor w = Begin \<Longrightarrow>
    walk_step visit w (w\<lparr>w_cursor := cursor_at (m_connections (w_server w))\<rparr>)"
| copy: "w_cursor w = At h \<Longrightarrow>
    walk_step visit w (w\<lparr>w_cursor := if w_lost w then Undefined else Copied h\<rparr>)"
| body: "w_cursor w = Copied h \<Longrightarrow> visit ok h (w_server w) = (Inr u, s') \<Longrightarrow>
    walk_step visit w (w\<lparr>w_server := s', w_cursor := Visited h\<rparr>)"
| body_throws: "w_cursor w = Copied h \<Longrightarrow> visit ok h (w_server w) = (Inl e, s') \<Longrightarrow>
    walk_step visit w (w\<lparr>w_server := s', w_cursor := Stopped e\<rparr>)"
| advance: "w_cursor w = Visited h \<Longrightarrow>
    walk_step visit w (w\<lparr>w_cursor := if w_lost w then Undefined
      else cursor_at (filter (\<lambda>c. h < c) (m_connections (w_server w)))\<rparr>)"
| opened: "walk_step visit w (w\<lparr>w_server := open_handler h (w_server w), w_events := w_events w @ [Opened h]\<rparr>)"
| closed: "walk_step visit w (w\<lparr>w_server := close_handler h (w_server w), w_events := w_events w @ [Closed h],
    w_lost := w_lost w \<or> current (w_cursor w) = Some h\<rparr>)"

definition walk_start :: "WebSocketServer \<Rightarrow> walk" where
  "walk_start s = \<lparr>w_server = s, w_cursor = Begin, w_lost = False, w_events = []\<rparr>"

abbreviation walk_reach ::
  "(bool \<Rightarrow> connection_hdl \<Rightarrow> WebSocketServer \<Rightarrow> unit res \<times> WebSocketServer) \<Rightarrow> WebSocketServer \<Rightarrow> walk \<Rightarrow> bool" where
  "walk_reach visit s \<equiv> reach (\<lambda>w. w = walk_start s) (walk_step visit)"

section \<open>What every such loop does\<close>

text \<open>A client that was there when the loop began and has not left since.\<close>

definition stayed :: "WebSocketServer \<Rightarrow> ws_event list \<Rightarrow> connection_hdl \<Rightarrow> bool" where
  "stayed s es c = (c \<in> set (m_connections s) \<and> Closed c \<notin> set es)"

text \<open>A client that was connected at some time during the loop.\<close>

definition seen :: "WebSocketServer \<Rightarrow> ws_event list \<Rightarrow> connection_hdl \<Rightarrow> bool" where
  "seen s es c = (c \<in> set (m_connections s) \<or> Opened c \<in> set es)"

lemma ws_run_append: "ws_run (es @ fs) s = ws_run fs (ws_run es s)"
  by (induction es s rule: ws_run.induct) simp_all

lemma connected_stayed: "b \<Longrightarrow> Closed c \<notin> set es \<Longrightarrow> connected b es c"
  by (induction b es c rule: connected.induct) auto

lemma connected_seen: "connected b es c \<Longrightarrow> b \<or> Opened c \<in> set es"
  by (induction b es c rule: connected.induct) auto

lemma stayed_connected: "stayed s es c \<Longrightarrow> c \<in> set (m_connections (ws_run es s))"
  by (simp add: stayed_def ws_run_connections connected_stayed)

lemma seen_connected: "c \<in> set (m_connections (ws_run es s)) \<Longrightarrow> seen s es c"
  using connected_seen by (fastforce simp: seen_def ws_run_connections)

text \<open>Where the iterator stands says which clients have been visited.\<close>

fun cursor_ok :: "WebSocketServer \<Rightarrow> ws_event list \<Rightarrow> connection_hdl list \<Rightarrow> cursor \<Rightarrow> bool" where
  "cursor_ok s es new Begin = (new = [])"
| "cursor_ok s es new (At h) = ((\<forall>c \<in> set new. c < h) \<and> (\<forall>c. stayed s es c \<and> c < h \<longrightarrow> c \<in> set new))"
| "cursor_ok s es new (Copied h) = ((\<forall>c \<in> set new. c < h) \<and> (\<forall>c. stayed s es c \<and> c < h \<longrightarrow> c \<in> set new))"
| "cursor_ok s es new (Visited h) = ((\<forall>c \<in> set new. c \<le> h) \<and> (\<forall>c. stayed s es c \<and> c \<le> h \<longrightarrow> c \<in> set new))"
| "cursor_ok s es new End = (\<forall>c. stayed s es c \<longrightarrow> c \<in> set new)"
| "cursor_ok s es new (Stopped e) = True"
| "cursor_ok s es new Undefined = (\<exists>c. Closed c \<in> set es)"

definition walk_ok :: "WebSocketServer \<Rightarrow> connection_hdl list \<Rightarrow> walk \<Rightarrow> bool" where
  "walk_ok s new w =
     (m_connections (w_server w) = m_connections (ws_run (w_events w) s)
      \<and> sorted_wrt (<) new \<and> (\<forall>c \<in> set new. seen s (w_events w) c)
      \<and> cursor_ok s (w_events w) new (w_cursor w)
      \<and> (\<forall>h. current (w_cursor w) = Some h \<longrightarrow> seen s (w_events w) h)
      \<and> (w_lost w \<longrightarrow> (\<exists>c. Closed c \<in> set (w_events w))))"

lemma stayed_more: "stayed s (es @ fs) c \<Longrightarrow> stayed s es c"
  by (simp add: stayed_def)

lemma seen_more: "seen s es c \<Longrightarrow> seen s (es @ fs) c"
  by (auto simp: seen_def)

lemma cursor_ok_more: "cursor_ok s es new cur \<Longrightarrow> cursor_ok s (es @ fs) new cur"
  by (cases cur) (auto dest: stayed_more intro: disjI1)

lemma handler_more:
  "m_connections t = m_connections t' \<Longrightarrow> m_connections (open_handler h t) = m_connections (open_handler h t')"
  "m_connections t = m_connections t' \<Longrightarrow> m_connections (close_handler h t) = m_connections (close_handler h t')"
  by (simp_all add: open_handler_def close_handler_def)

text \<open>Moving to the first element of the set, or to the first beyond the current one.\<close>

lemma cursor_ok_first:
  assumes "connections_ok s" "xs = m_connections (ws_run es s)"
  shows "cursor_ok s es [] (cursor_at xs)"
proof (cases xs)
  case Nil
  then show ?thesis using stayed_connected assms(2) by fastforce
next
  case (Cons c cs)
  then have "\<forall>x \<in> set xs. c \<le> x" using ws_run_ok[OF assms(1), of es] assms(2) by (auto simp: connections_ok_def)
  then show ?thesis using stayed_connected[of s es] assms(2) Cons by fastforce
qed

lemma cursor_ok_next:
  assumes "connections_ok s" "xs = m_connections (ws_run es s)" "cursor_ok s es new (Visited h)"
  shows "cursor_ok s es new (cursor_at (filter (\<lambda>c. h < c) xs))"
proof (cases "filter (\<lambda>c. h < c) xs")
  case Nil
  then have "\<forall>c \<in> set xs. c \<le> h" by (auto simp: filter_empty_conv not_less)
  then show ?thesis using Nil assms stayed_connected[of s es] by auto
next
  case (Cons d ds)
  have "sorted (filter (\<lambda>c. h < c) xs)"
    using ws_run_ok[OF assms(1), of es] assms(2) by (simp add: connections_ok_def sorted_wrt_filter)
  then have "\<forall>c \<in> set (filter (\<lambda>c. h < c) xs). d \<le> c" using Cons by auto
  then have "\<forall>c \<in> set xs. c < d \<longrightarrow> c \<le> h" by (auto simp: not_le[symmetric])
  moreover have "h < d" using Cons by (metis filter_eq_ConsD)
  ultimately show ?thesis using Cons assms stayed_connected[of s es] by fastforce
qed

lemma current_first: "current (cursor_at xs) = Some h \<Longrightarrow> h \<in> set xs"
  by (cases xs) auto

text \<open>
  The contract of a loop body: it records the visit of its client, and when it throws it changes
  nothing.
\<close>

locale connection_loop =
  fixes visit :: "bool \<Rightarrow> connection_hdl \<Rightarrow> WebSocketServer \<Rightarrow> unit res \<times> WebSocketServer"
    and record_of :: "WebSocketServer \<Rightarrow> 'a list"
    and mark :: "connection_hdl \<Rightarrow> 'a"
  assumes visit_returns: "visit ok h s = (Inr u, s') \<Longrightarrow>
      record_of s' = record_of s @ [mark h] \<and> m_connections s' = m_connections s"
    and visit_throws: "visit ok h s = (Inl e, s') \<Longrightarrow> s' = s"
    and visit_can_return: "\<exists>s'. visit True h s = (Inr (), s')"
    and handlers_keep: "record_of (open_handler h s) = record_of s" "record_of (close_handler h s) = record_of s"
begin

definition walked :: "WebSocketServer \<Rightarrow> walk \<Rightarrow> bool" where
  "walked s w = (\<exists>new. record_of (w_server w) = record_of s @ map mark new \<and> walk_ok s new w)"

lemma walked_step:
  assumes ok: "connections_ok s" and step: "walk_step visit w w'" and inv: "walked s w"
  shows "walked s w'"
proof -
  obtain new where rec: "record_of (w_server w) = record_of s @ map mark new" and w: "walk_ok s new w"
    using inv by (auto simp: walked_def)
  note conns = w[unfolded walk_ok_def, THEN conjunct1]
  have cseen: "c \<in> set (m_connections (w_server w)) \<Longrightarrow> seen s (w_events w) c" for c
    using seen_connected conns by simp
  show ?thesis
    using step
  proof (cases rule: walk_step.cases)
    case enter
    then show ?thesis
      using rec w cursor_ok_first[OF ok conns] current_first cseen
      by (auto simp: walked_def walk_ok_def intro!: exI[of _ new])
  next
    case (copy h)
    then show ?thesis using rec w by (auto simp: walked_def walk_ok_def intro!: exI[of _ new])
  next
    case (body h ok u s')
    have "sorted_wrt (<) (new @ [h])" "\<forall>c \<in> set (new @ [h]). seen s (w_events w) c"
      using w body by (auto simp: walk_ok_def sorted_wrt_append)
    moreover have "cursor_ok s (w_events w) (new @ [h]) (Visited h)"
      using w body by (auto simp: walk_ok_def le_less)
    ultimately show ?thesis
      using rec w body visit_returns[OF body(3)]
      by (auto simp: walked_def walk_ok_def intro!: exI[of _ "new @ [h]"])
  next
    case (body_throws h ok e s')
    then show ?thesis
      using rec w visit_throws[OF body_throws(3)] by (auto simp: walked_def walk_ok_def intro!: exI[of _ new])
  next
    case (advance h)
    let ?at = "cursor_at (filter (\<lambda>c. h < c) (m_connections (w_server w)))"
    have "cursor_ok s (w_events w) new ?at"
      using cursor_ok_next[OF ok conns] w advance by (simp add: walk_ok_def)
    moreover have "current ?at = Some c \<Longrightarrow> seen s (w_events w) c" for c
      using current_first[of _ c] cseen by fastforce
    ultimately have "walk_ok s new w'" using w advance by (simp add: walk_ok_def)
    then show ?thesis using rec advance by (auto simp: walked_def)
  next
    case (opened h)
    then show ?thesis
      using rec w handlers_keep(1) handler_more(1)[OF conns] cursor_ok_more[of s "w_events w" new] seen_more[of s "w_events w"]
      by (auto simp: walked_def walk_ok_def ws_run_append intro!: exI[of _ new])
  next
    case (closed h)
    then show ?thesis
      using rec w handlers_keep(2) handler_more(2)[OF conns] cursor_ok_more[of s "w_events w" new] seen_more[of s "w_events w"]
      by (auto simp: walked_def walk_ok_def ws_run_append intro!: exI[of _ new])
  qed
qed

lemma walked_reach:
  assumes "connections_ok s" "walk_reach visit s w"
  shows "walked s w"
proof -
  have "step_invariant (\<lambda>w. w = walk_start s) (walk_step visit) (walked s)"
  proof
    have "walk_ok s [] (walk_start s)" by (simp add: walk_ok_def walk_start_def)
    moreover have "record_of (w_server (walk_start s)) = record_of s @ map mark []" by (simp add: walk_start_def)
    ultimately have "walked s (walk_start s)" unfolding walked_def by blast
    then show "walked s w" if "w = walk_start s" for w using that by blast
  qed (rule walked_step[OF assms(1)])
  then show ?thesis using assms(2) by (rule step_invariant.inv_reach)
qed

text \<open>Left alone, the loop gets to every client; a client that leaves then takes the iterator along.\<close>

abbreviation untouched :: "WebSocketServer \<Rightarrow> cursor \<Rightarrow> bool" where
  "untouched s cur \<equiv> \<exists>w. walk_reach visit s w \<and> w_cursor w = cur \<and> \<not> w_lost w \<and> w_events w = []
    \<and> m_connections (w_server w) = m_connections s"

lemma untouched_next:
  assumes "untouched s (At x)"
  shows "untouched s (cursor_at (filter (\<lambda>c. x < c) (m_connections s)))"
proof -
  obtain w where w: "walk_reach visit s w" "w_cursor w = At x" "\<not> w_lost w" "w_events w = []"
    "m_connections (w_server w) = m_connections s" using assms by blast
  obtain s' where v: "visit True x (w_server w) = (Inr (), s')" using visit_can_return by blast
  let ?c = "w\<lparr>w_cursor := Copied x\<rparr>" and ?v = "w\<lparr>w_server := s', w_cursor := Visited x\<rparr>"
  let ?n = "w\<lparr>w_server := s', w_cursor := cursor_at (filter (\<lambda>c. x < c) (m_connections s))\<rparr>"
  have "walk_step visit w ?c" using walk_step.copy[of w x visit] w by simp
  with w(1) have c: "walk_reach visit s ?c" by (rule reach_step)
  have "walk_step visit ?c ?v" using walk_step.body[of ?c x visit True "()" s'] v by simp
  with c have b: "walk_reach visit s ?v" by (rule reach_step)
  have conns: "m_connections s' = m_connections s" using visit_returns[OF v] w(5) by simp
  then have "walk_step visit ?v ?n" using walk_step.advance[of ?v x visit] w by simp
  with b have "walk_reach visit s ?n" by (rule reach_step)
  then show ?thesis using w conns by (intro exI[of _ ?n]) simp
qed

lemma undisturbed:
  assumes ok: "connections_ok s" and "m_connections s = xs @ ys"
  shows "untouched s (cursor_at ys)"
  using assms(2)
proof (induction xs arbitrary: ys rule: rev_induct)
  case Nil
  have "walk_reach visit s ((walk_start s)\<lparr>w_cursor := cursor_at (m_connections s)\<rparr>)"
    using walk_step.enter[of "walk_start s" visit] by (auto simp: walk_start_def intro: reach.intros)
  then show ?case using Nil by (intro exI[of _ "(walk_start s)\<lparr>w_cursor := cursor_at (m_connections s)\<rparr>"])
      (simp add: walk_start_def)
next
  case (snoc x xs)
  have "filter (\<lambda>c. x < c) (m_connections s) = ys"
    using ok snoc.prems
    by (auto simp: connections_ok_def sorted_append filter_empty_conv not_less le_less intro!: filter_True)
  then show ?case using untouched_next[of s x] snoc.IH[of "x # ys"] snoc.prems by simp
qed

lemma leaving_client:
  assumes "connections_ok s" "h \<in> set (m_connections s)"
  shows "\<exists>w. walk_reach visit s w \<and> w_cursor w = Undefined \<and> w_events w = [Closed h]"
proof -
  obtain xs ys where "m_connections s = xs @ h # ys" using assms(2) by (meson split_list)
  then obtain w where w: "walk_reach visit s w" "w_cursor w = At h" "w_events w = []"
    using undisturbed[OF assms(1), of xs "h # ys"] by auto
  let ?c = "w\<lparr>w_server := close_handler h (w_server w), w_events := w_events w @ [Closed h],
    w_lost := w_lost w \<or> current (w_cursor w) = Some h\<rparr>"
  have c: "walk_reach visit s ?c" by (rule reach_step[OF w(1)], rule walk_step.closed)
  have "walk_step visit ?c (?c\<lparr>w_cursor := Undefined\<rparr>)"
    using walk_step.copy[of ?c h visit] w(2) by simp
  with c have "walk_reach visit s (?c\<lparr>w_cursor := Undefined\<rparr>)" by (rule reach_step)
  then show ?thesis using w(3) by (intro exI[of _ "?c\<lparr>w_cursor := Undefined\<rparr>"]) simp
qed

end

interpretation sending: connection_loop "send_one data" outbox "\<lambda>c. (c, data)"
  by unfold_locales (auto simp: send_one_def open_handler_def close_handler_def split: if_splits)

interpretation stopping: connection_loop close_one closing "\<lambda>c. c"
  by unfold_locales (auto simp: close_one_def open_handler_def close_handler_def split: if_splits)

section \<open>Properties\<close>

text \<open>
  C20. Broadcasting while clients come and go. Whatever the handlers do during the loop, the data
  is handed to a client at most once and only to clients connected at some time during the
  loop; a loop that runs to its end has reached every client that was there from the beginning
  and stayed; and the iterator can only be lost to a client that leaves meanwhile. Without
  any handler in between the loop is \<open>send_to_all\<close>.
\<close>

theorem broadcast_concurrent:
  assumes "walk_reach (send_one data) s w" and "connections_ok s" and "m_running s"
  shows "\<exists>new. outbox (w_server w) = outbox s @ map (\<lambda>c. (c, data)) new \<and> distinct new
    \<and> (\<forall>c \<in> set new. seen s (w_events w) c)
    \<and> (w_cursor w = End \<longrightarrow> (\<forall>c. stayed s (w_events w) c \<longrightarrow> c \<in> set new))
    \<and> (w_cursor w = Undefined \<longrightarrow> (\<exists>c. Closed c \<in> set (w_events w)))
    \<and> (w_cursor w = End \<and> w_events w = [] \<longrightarrow>
         (Inr (), outbox (w_server w)) = map_prod id outbox (send_to_all (\<lambda>_. True) data s))"
proof -
  obtain new where rec: "outbox (w_server w) = outbox s @ map (\<lambda>c. (c, data)) new" and w: "walk_ok s new w"
    using sending.walked_reach[OF assms(2,1)] by (auto simp: sending.walked_def)
  have d: "distinct new" "sorted_wrt (<) new" using w by (auto simp: walk_ok_def strict_sorted_iff)
  have all: "new = m_connections s" if "w_cursor w = End" "w_events w = []"
  proof -
    have "set new = set (m_connections s)" using w that by (auto simp: walk_ok_def stayed_def seen_def)
    then show ?thesis
      using d assms(2) by (simp add: connections_ok_def strict_sorted_equal strict_sorted_iff)
  qed
  have seq: "send_to_all (\<lambda>_. True) data s = (Inr (), s\<lparr>outbox := outbox s @ map (\<lambda>c. (c, data)) (m_connections s)\<rparr>)"
    using assms(3) by (simp add: send_to_all_def send_each_result takeWhile_list_all list.pred_True)
  show ?thesis
    using rec w d(1) all seq by (intro exI[of _ new]) (auto simp: walk_ok_def)
qed

definition demo_walk_server :: WebSocketServer where
  "demo_walk_server = (WebSocketServer_new ''scene'' 9999)\<lparr>m_running := True, m_connections := [3, 8]\<rparr>"

lemma demo_walk_server_ok: "connections_ok demo_walk_server" "m_running demo_walk_server"
  "m_connections demo_walk_server = [3, 8]" "outbox demo_walk_server = []"
  by (simp_all add: demo_walk_server_def WebSocketServer_new_def connections_ok_def)

theorem broadcast_concurrent_witness:
  "\<exists>w. walk_reach (send_one [1, 2]) demo_walk_server w \<and> w_cursor w = End
     \<and> outbox (w_server w) = [(3, [1, 2]), (8, [1, 2])]"
proof -
  obtain w where w: "walk_reach (send_one [1, 2]) demo_walk_server w" "w_cursor w = End" "w_events w = []"
    using sending.undisturbed[of demo_walk_server "[3, 8]" "[]" "[1, 2]"] demo_walk_server_ok by auto
  then show ?thesis
    using broadcast_concurrent[OF w(1) demo_walk_server_ok(1,2)]
    by (auto simp: send_to_all_def demo_walk_server_ok)
qed

text \<open>
  C21. A client that leaves while it is being served. For every connected client there is an
  interleaving, with no other event than the closing of that client, in which \<open>send_to_all\<close> goes on
  with an iterator to the erased element, and one in which the loop of \<open>stop\<close> does.
\<close>

theorem connection_loop_race:
  assumes "connections_ok s" and "h \<in> set (m_connections s)"
  shows "(\<exists>w. walk_reach (send_one data) s w \<and> w_cursor w = Undefined \<and> w_events w = [Closed h])
    \<and> (\<exists>w. walk_reach close_one s w \<and> w_cursor w = Undefined \<and> w_events w = [Closed h])"
  using sending.leaving_client[OF assms] stopping.leaving_client[OF assms] by blast

theorem connection_loop_race_witness:
  "\<exists>w. walk_reach close_one demo_walk_server w \<and> w_cursor w = Undefined \<and> w_events w = [Closed 8]"
  using connection_loop_race[of demo_walk_server 8] demo_walk_server_ok by simp

end
