(* ===== verification/Packet_Stream.thy ===== *)
theory Packet_Stream
  imports Shutdown Codec_Memory Connection_Walk
begin

text \<open>
  The way out of the program: what the clients of a packet server get over many rounds of
  \<open>receive_packet_thread\<close> (\<open>encode.cpp\<close>), while clients come and go and the encoder is fed, and the
  packet every round allocates through \<open>AVPacketManager\<close>.
\<close>

section \<open>Rounds with their packet\<close>

text \<open>
  The packet lives from the beginning of a round to its end, also when the round is left by
  \<open>break\<close>. An exception that is not caught terminates the program inside the round.
\<close>

definition receive_packet_round_mem ::
  "bool \<Rightarrow> (connection_hdl \<Rightarrow> bool) \<Rightarrow> (bool \<times> (AVCodecContext \<Rightarrow> int \<times> AVPacket \<times> AVCodecContext)) list \<Rightarrow>
   (AVCodecContextManager \<times> WebSocketServer) \<times> unit store \<Rightarrow>
   ((bool \<times> AVCodecContextManager \<times> WebSocketServer) \<times> unit store) round" where
  "receive_packet_round_mem packet_alloc send_ok polls = (\<lambda>(cs, st).
     (case AVPacketManager_new packet_alloc () st of
        (Inl e, st1) \<Rightarrow> Throws e ((False, cs), st1)
      | (Inr pkt, st1) \<Rightarrow>
          (let leave = (\<lambda>out x. case AVPacketManager_delete pkt st1 of
                  Inl e \<Rightarrow> Throws e (x, st1)
                | Inr st2 \<Rightarrow> out (x, st2))
           in case receive_packet_round True send_ok polls cs of
                Next x \<Rightarrow> leave Next x
              | Exit x \<Rightarrow> leave Exit x
              | Throws e x \<Rightarrow> Throws e (x, st1)
              | Blocked \<Rightarrow> Blocked)))"

definition receive_body_mem ::
  "(connection_hdl \<Rightarrow> bool) \<Rightarrow>
   bool \<times> (bool \<times> (AVCodecContext \<Rightarrow> int \<times> AVPacket \<times> AVCodecContext)) list
     \<times> (AVCodecContextManager \<times> WebSocketServer \<Rightarrow> AVCodecContextManager \<times> WebSocketServer) \<Rightarrow>
   (bool \<times> AVCodecContextManager \<times> WebSocketServer) \<times> unit store \<Rightarrow>
   ((bool \<times> AVCodecContextManager \<times> WebSocketServer) \<times> unit store) round" where
  "receive_body_mem send_ok = (\<lambda>(packet_alloc, polls, others) ((set_flag, cs), st).
     (if set_flag then Exit ((set_flag, cs), st)
      else receive_packet_round_mem packet_alloc send_ok polls (others cs, st)))"

definition receive_packet_thread_mem where
  "receive_packet_thread_mem send_ok = thread_loop (receive_body_mem send_ok)"

text \<open>The packet store after a round: the next address has moved on, nothing new is live.\<close>

definition packet_used :: "unit store \<Rightarrow> unit store" where
  "packet_used st = st\<lparr>next_obj := Suc (next_obj st)\<rparr>"

lemma packet_used_ok [simp]: "store_ok st \<Longrightarrow> store_ok (packet_used st)" "objs (packet_used st) = objs st"
  by (auto simp: packet_used_def store_ok_def)

lemma receive_packet_round_mem_result:
  assumes "store_ok st"
  shows "receive_packet_round_mem packet_alloc send_ok polls (cs, st) =
    (case receive_packet_round packet_alloc send_ok polls cs of
       Next x \<Rightarrow> Next (x, packet_used st)
     | Exit x \<Rightarrow> Exit (x, packet_used st)
     | Throws e x \<Rightarrow> Throws e (x, if packet_alloc then snd (store_new () st) else st)
     | Blocked \<Rightarrow> Blocked)"
proof (cases packet_alloc)
  case True
  have "AVPacketManager_delete \<lparr>m_packet = next_obj st\<rparr> (snd (store_new () st)) = Inr (packet_used st)"
    using store_fresh[OF assms]
    by (cases st) (simp add: AVPacketManager_delete_def store_free_def store_new_def packet_used_def fun_upd_idem)
  then show ?thesis
    using True by (simp add: receive_packet_round_mem_def AVPacketManager_new_def Let_def store_new_def split: round.splits)
qed (simp add: receive_packet_round_mem_def AVPacketManager_new_def receive_packet_round_def)

section \<open>What a client gets\<close>

text \<open>
  One round as the clients see it: the clients that came and went before it, what the other
  threads did to the encoder, polls that found nothing, and the packet that came out.
\<close>

record stream_round =
  sr_events :: "ws_event list"
  sr_feed :: "AVCodecContextManager \<Rightarrow> AVCodecContextManager"
  sr_polls :: "(bool \<times> (AVCodecContext \<Rightarrow> int \<times> AVPacket \<times> AVCodecContext)) list"
  sr_after :: "AVCodecContext \<Rightarrow> AVCodecContext"
  sr_packet :: AVPacket

definition round_entry where
  "round_entry r = (False, True, sr_polls r @ [(False, \<lambda>ctx. (0, sr_packet r, sr_after r ctx))],
     \<lambda>(codec, srv). (sr_feed r codec, ws_run (sr_events r) srv))"

definition round_sound :: "stream_round \<Rightarrow> bool" where
  "round_sound r = (idle_polls (sr_polls r) \<and> pkt_data (sr_packet r) \<noteq> []
     \<and> (\<forall>codec. m_ctx codec \<noteq> None \<longrightarrow> m_ctx (sr_feed r codec) \<noteq> None))"

definition marked :: "AVPacket \<Rightarrow> u8 list" where
  "marked pkt = (if pkt_flags pkt = AV_PKT_FLAG_KEY then 0 else 1) # tl (pkt_data pkt)"

definition received :: "connection_hdl \<Rightarrow> WebSocketServer \<Rightarrow> u8 list list" where
  "received c srv = map snd (filter (\<lambda>p. fst p = c) (outbox srv))"

text \<open>The packets of the rounds at which the client is connected.\<close>

fun entitled :: "connection_hdl \<Rightarrow> bool \<Rightarrow> stream_round list \<Rightarrow> u8 list list" where
  "entitled c b [] = []"
| "entitled c b (r # rs) =
     (let b' = connected b (sr_events r) c
      in (if b' then [marked (sr_packet r)] else []) @ entitled c b' rs)"

lemma received_broadcast:
  assumes "distinct (m_connections srv)"
  shows "received c (srv\<lparr>outbox := outbox srv @ map (\<lambda>d. (d, data)) (m_connections srv)\<rparr>) =
    received c srv @ (if c \<in> set (m_connections srv) then [data] else [])"
proof -
  have "filter (\<lambda>d. d = c) xs = (if c \<in> set xs then [c] else [])" if "distinct xs" for xs
    using that by (induction xs) auto
  then show ?thesis
    using assms by (simp add: received_def filter_map o_def)
qed

text \<open>A round that ends in a packet, and one that ends in another answer of the encoder.\<close>

lemma stream_round_result:
  assumes r: "round_sound r" and ctx: "m_ctx codec \<noteq> None" and run: "m_running srv" and ok: "\<forall>c. send_ok c"
    and st: "store_ok st"
  shows "\<exists>codec'. receive_body_mem send_ok (snd (round_entry r)) ((False, codec, srv), st) =
      Next ((False, codec', (ws_run (sr_events r) srv)\<lparr>outbox := outbox srv @
        map (\<lambda>c. (c, marked (sr_packet r))) (m_connections (ws_run (sr_events r) srv))\<rparr>), packet_used st)
    \<and> m_ctx codec' \<noteq> None"
proof -
  obtain c where c: "m_ctx (sr_feed r codec) = Some c" using r ctx by (auto simp: round_sound_def)
  obtain b rest where d: "pkt_data (sr_packet r) = b # rest" using r by (cases "pkt_data (sr_packet r)") (auto simp: round_sound_def)
  let ?srv = "ws_run (sr_events r) srv"
  let ?recv = "\<lambda>ctx. (0 :: int, sr_packet r, sr_after r ctx)"
  have "list_all send_ok (m_connections ?srv)" "m_running ?srv" "idle_polls (sr_polls r)"
    using ok run r by (simp_all add: list_all_iff round_sound_def)
  moreover have "?recv (polled (sr_polls r) c) = (0, sr_packet r, sr_after r (polled (sr_polls r) c))" by simp
  moreover have "(0 :: int) \<noteq> AVERROR_EAGAIN" by (simp add: AVERROR_EAGAIN_def AVERROR_def)
  ultimately have "receive_packet_round True send_ok (sr_polls r @ [(False, ?recv)]) (sr_feed r codec, ?srv) =
    Next (False, (sr_feed r codec)\<lparr>m_ctx := Some (sr_after r (polled (sr_polls r) c))\<rparr>, ?srv\<lparr>outbox := outbox srv @
       map (\<lambda>c. (c, marked (sr_packet r))) (m_connections ?srv)\<rparr>)"
    using receive_packet_outcome[of "sr_polls r" "sr_feed r codec" c ?srv send_ok ?recv 0 "sr_packet r" _ b rest "[]"] c d
    by (simp add: marked_def)
  then show ?thesis
    by (simp add: receive_body_mem_def round_entry_def receive_packet_round_mem_result[OF st])
qed

lemma stream_rounds_result:
  assumes "\<forall>r \<in> set rs. round_sound r" and "m_ctx codec \<noteq> None" and "m_running srv" and "connections_ok srv"
    and ok: "\<forall>c. send_ok c" and "store_ok st"
  shows "\<exists>codec' srv' st'. (\<forall>script. receive_packet_thread_mem send_ok (map round_entry rs @ script) ((False, codec, srv), st) =
      receive_packet_thread_mem send_ok script ((False, codec', srv'), st'))
    \<and> m_ctx codec' \<noteq> None \<and> m_running srv' \<and> connections_ok srv' \<and> store_ok st' \<and> objs st' = objs st
    \<and> (\<forall>c. received c srv' = received c srv @ entitled c (c \<in> set (m_connections srv)) rs)"
  using assms(1-4,6)
proof (induction rs arbitrary: codec srv st)
  case Nil
  then show ?case by auto
next
  case (Cons r rs)
  let ?srv = "ws_run (sr_events r) srv"
  let ?srv1 = "?srv\<lparr>outbox := outbox srv @ map (\<lambda>c. (c, marked (sr_packet r))) (m_connections ?srv)\<rparr>"
  obtain codec1 where step: "receive_body_mem send_ok (snd (round_entry r)) ((False, codec, srv), st) =
      Next ((False, codec1, ?srv1), packet_used st)" and c1: "m_ctx codec1 \<noteq> None"
    using stream_round_result[of r codec srv send_ok st] Cons.prems ok by auto
  have okc: "connections_ok ?srv" using Cons.prems(4) by (rule ws_run_ok)
  have s1: "m_running ?srv1" "connections_ok ?srv1" "store_ok (packet_used st)"
    using Cons.prems okc by (simp_all add: connections_ok_def)
  obtain codec' srv' st' where ih: "\<And>script. receive_packet_thread_mem send_ok (map round_entry rs @ script) ((False, codec1, ?srv1), packet_used st) =
      receive_packet_thread_mem send_ok script ((False, codec', srv'), st')"
    "m_ctx codec' \<noteq> None" "m_running srv'" "connections_ok srv'" "store_ok st'" "objs st' = objs (packet_used st)"
    "\<And>c. received c srv' = received c ?srv1 @ entitled c (c \<in> set (m_connections ?srv1)) rs"
    using Cons.IH[OF _ c1 s1] Cons.prems(1) by (meson list.set_intros(2))
  have "fst (round_entry r) = False" by (simp add: round_entry_def)
  then have "receive_packet_thread_mem send_ok (map round_entry (r # rs) @ script) ((False, codec, srv), st) =
      receive_packet_thread_mem send_ok (map round_entry rs @ script) ((False, codec1, ?srv1), packet_used st)" for script
    using step by (cases "round_entry r") (simp add: receive_packet_thread_mem_def)
  moreover have "received c ?srv1 = received c srv @ (if connected (c \<in> set (m_connections srv)) (sr_events r) c
      then [marked (sr_packet r)] else [])" for c
    using received_broadcast[of ?srv c "marked (sr_packet r)"] okc
    by (simp add: connections_ok_def ws_run_connections received_def)
  ultimately show ?case
    using ih by (intro exI[of _ codec'] exI[of _ srv'] exI[of _ st']) (simp add: ws_run_connections Let_def)
qed

text \<open>An answer that is neither a packet nor a request for input.\<close>

definition refuses :: "(AVCodecContext \<Rightarrow> int \<times> AVPacket \<times> AVCodecContext) \<Rightarrow> bool" where
  "refuses av_recv = (\<forall>ctx. fst (av_recv ctx) \<noteq> 0 \<and> fst (av_recv ctx) \<noteq> AVERROR_EAGAIN)"

lemma stream_round_refused:
  assumes "idle_polls polls" "refuses av_recv" "m_ctx codec = Some ctx" and st: "store_ok st"
  shows "\<exists>codec'. receive_body_mem send_ok (True, polls @ [(False, av_recv)], id) ((False, codec, srv), st) =
      Next ((True, codec', srv), packet_used st)"
proof -
  have "codec\<lparr>m_ctx := Some ctx\<rparr> = codec" using assms(3) by simp
  then have "receive_packet_handler send_ok (polls @ [(False, av_recv)]) (codec, srv) =
      receive_packet_handler send_ok [(False, av_recv)] (codec\<lparr>m_ctx := Some (polled polls ctx)\<rparr>, srv)"
    using handler_idle[OF assms(1), where codec = codec and ctx = ctx and script' = "[(False, av_recv)]"] by simp
  moreover obtain ret pkt ctx' where a: "av_recv (polled polls ctx) = (ret, pkt, ctx')" "ret \<noteq> 0" "ret \<noteq> AVERROR_EAGAIN"
    using assms(2)[unfolded refuses_def, rule_format, of "polled polls ctx"] by (cases "av_recv (polled polls ctx)") auto
  ultimately have "receive_packet_round True send_ok (polls @ [(False, av_recv)]) (codec, srv) =
      Next (True, codec\<lparr>m_ctx := Some ctx'\<rparr>, srv)"
    by (simp add: receive_packet_round_def receive_packet_def)
  then show ?thesis by (simp add: receive_body_mem_def receive_packet_round_mem_result[OF st])
qed

section \<open>Properties\<close>

text \<open>
  C33. What the clients of a packet server get. Over any number of rounds, with clients coming and
  going, the encoder being fed and polls that find nothing, every client gets exactly the
  packets that came out while it was connected, each once, in the encoder's order, marked
  in the first byte and otherwise unchanged; a client that stays gets them all. The thread ends
  at the shutdown flag, or by setting it itself when the encoder answers with an error, and
  no packet stays allocated.
\<close>

theorem client_stream:
  assumes "\<forall>r \<in> set rs. round_sound r" and "m_ctx codec \<noteq> None" and "m_running srv" and "connections_ok srv"
    and "\<forall>c. send_ok c" and "store_ok st" and "idle_polls polls" and "refuses av_recv"
  shows "\<exists>codec' codec'' srv' st' st''.
      receive_packet_thread_mem send_ok (map round_entry rs @ [(True, e)]) ((False, codec, srv), st) =
        Exit ((False, codec', srv'), st')
    \<and> receive_packet_thread_mem send_ok (map round_entry rs @ [(False, True, polls @ [(False, av_recv)], id), (flag, e)])
        ((False, codec, srv), st) = Exit ((True, codec'', srv'), st'')
    \<and> objs st' = objs st \<and> objs st'' = objs st
    \<and> (\<forall>c. received c srv' = received c srv @ entitled c (c \<in> set (m_connections srv)) rs)
    \<and> (\<forall>c \<in> set (m_connections srv). (\<forall>r \<in> set rs. Closed c \<notin> set (sr_events r)) \<longrightarrow>
         received c srv' = received c srv @ map (marked \<circ> sr_packet) rs)"
proof -
  have stays: "entitled c True rs = map (marked \<circ> sr_packet) rs" if "\<forall>r \<in> set rs. Closed c \<notin> set (sr_events r)" for c
    using that connected_stayed[of True c] by (induction rs) (auto simp: Let_def)
  obtain codec' srv' st' where rounds: "\<And>script. receive_packet_thread_mem send_ok (map round_entry rs @ script) ((False, codec, srv), st) =
      receive_packet_thread_mem send_ok script ((False, codec', srv'), st')"
    and res: "m_ctx codec' \<noteq> None" "store_ok st'" "objs st' = objs st"
      "\<forall>c. received c srv' = received c srv @ entitled c (c \<in> set (m_connections srv)) rs"
    using stream_rounds_result[OF assms(1-6)] by blast
  obtain codec'' where "receive_body_mem send_ok (True, polls @ [(False, av_recv)], id) ((False, codec', srv'), st') =
      Next ((True, codec'', srv'), packet_used st')"
    using stream_round_refused[OF assms(7,8)] res by blast
  then have "receive_packet_thread_mem send_ok [(False, True, polls @ [(False, av_recv)], id), (flag, e)]
      ((False, codec', srv'), st') = Exit ((True, codec'', srv'), packet_used st')"
    by (cases e) (simp add: receive_packet_thread_mem_def receive_body_mem_def)
  moreover have "receive_packet_thread_mem send_ok [(True, e)] ((False, codec', srv'), st') = Exit ((False, codec', srv'), st')"
    by (simp add: receive_packet_thread_mem_def)
  ultimately show ?thesis
    using rounds res stays
    by (intro exI[of _ codec'] exI[of _ codec''] exI[of _ srv'] exI[of _ st'] exI[of _ "packet_used st'"]) simp
qed

definition demo_round :: "ws_event list \<Rightarrow> u8 list \<Rightarrow> stream_round" where
  "demo_round es bytes = \<lparr>sr_events = es, sr_feed = id,
     sr_polls = [(False, \<lambda>ctx. (AVERROR_EAGAIN, \<lparr>pkt_data = [], pkt_flags = 0\<rparr>, ctx))],
     sr_after = id, sr_packet = \<lparr>pkt_data = bytes, pkt_flags = 1\<rparr>\<rparr>"

definition demo_stream_server :: WebSocketServer where
  "demo_stream_server = (WebSocketServer_new ''scene'' 9999)\<lparr>m_running := True, m_connections := [4]\<rparr>"

theorem client_stream_witness:
  "\<exists>codec' srv' st'. receive_packet_thread_mem (\<lambda>_. True)
      (map round_entry [demo_round [Opened 9] [7, 1, 2], demo_round [Closed 9] [7, 3]] @ [(True, True, [], id)])
      ((False, demo_codec, demo_stream_server), store_empty) = Exit ((False, codec', srv'), st')
    \<and> received 4 srv' = [[0, 1, 2], [0, 3]] \<and> received 9 srv' = [[0, 1, 2]]"
proof -
  have r: "\<forall>r \<in> set [demo_round [Opened 9] [7, 1, 2], demo_round [Closed 9] [7, 3]]. round_sound r"
    by (simp add: demo_round_def round_sound_def idle_polls_def)
  have s: "m_ctx demo_codec \<noteq> None" "m_running demo_stream_server" "connections_ok demo_stream_server"
    "received 4 demo_stream_server = []" "received 9 demo_stream_server = []" "m_connections demo_stream_server = [4]"
    by (simp_all add: demo_codec_def demo_stream_server_def WebSocketServer_new_def connections_ok_def received_def)
  have x: "refuses (\<lambda>ctx. (-22, \<lparr>pkt_data = [], pkt_flags = 0\<rparr>, ctx))" "idle_polls []"
    by (simp_all add: refuses_def AVERROR_EAGAIN_def AVERROR_def idle_polls_def)
  let ?rs = "[demo_round [Opened 9] [7, 1, 2], demo_round [Closed 9] [7, 3]]"
  obtain codec' codec'' srv' st' st'' where t: "receive_packet_thread_mem (\<lambda>_. True)
      (map round_entry [demo_round [Opened 9] [7, 1, 2], demo_round [Closed 9] [7, 3]] @ [(True, True, [], id)])
      ((False, demo_codec, demo_stream_server), store_empty) = Exit ((False, codec', srv'), st')"
    and c: "\<forall>c. received c srv' = received c demo_stream_server @
        entitled c (c \<in> set (m_connections demo_stream_server)) [demo_round [Opened 9] [7, 1, 2], demo_round [Closed 9] [7, 3]]"
    using client_stream[where rs = ?rs and send_ok = "\<lambda>_. True" and e = "(True, [], id)" and flag = True,
        OF r s(1-3) _ store_empty_ok x(2,1)] by blast
  show ?thesis
    using t c[rule_format, of 4] c[rule_format, of 9] s
    by (auto simp: demo_round_def marked_def AV_PKT_FLAG_KEY_def)
qed

end
