(* ===== verification/Timing.thy ===== *)
theory Timing
  imports Encode_Threads
begin

text \<open>
  \<open>ScopedTimer\<close> (\<open>scoped_timer.h\<close>) and the statistics three of the threads keep with it: the client
  thread (\<open>server.cpp\<close>), the processing thread and the sending thread (\<open>encode.cpp\<close>) each add the
  milliseconds of a round to a counter and log the average of every 100 rounds. A time point of
  \<open>std::chrono::steady_clock\<close> is its number of nanoseconds.
\<close>

section \<open>ScopedTimer\<close>

record ScopedTimer =
  t_start :: int

definition ScopedTimer_new :: "int \<Rightarrow> ScopedTimer" where
  "ScopedTimer_new now = \<lparr>t_start = now\<rparr>"

text \<open>\<open>duration_cast\<close> to milliseconds truncates towards zero.\<close>

definition duration_cast_ms :: "int \<Rightarrow> int" where
  "duration_cast_ms ns = (if ns < 0 then - ((- ns) div 1000000) else ns div 1000000)"

definition elapsed :: "int \<Rightarrow> ScopedTimer \<Rightarrow> int" where
  "elapsed now t = duration_cast_ms (now - t_start t)"

text \<open>\<open>elapsed += timer.elapsed().count()\<close> converts the signed count to \<open>uint64_t\<close>.\<close>

definition reading :: "int \<times> int \<Rightarrow> u64" where
  "reading = (\<lambda>(start, now). word_of_int (elapsed now (ScopedTimer_new start)))"

section \<open>Averages over intervals\<close>

definition interval :: nat where
  "interval = 100"

text \<open>The contract of a statistics step: count, add, and at the hundredth reading log and start anew.\<close>

locale interval_stats =
  fixes step :: "u64 \<Rightarrow> 's \<Rightarrow> 's" and count :: "'s \<Rightarrow> nat" and total :: "'s \<Rightarrow> u64" and logged :: "'s \<Rightarrow> u64 list"
  assumes step_below: "Suc (count s) < interval \<Longrightarrow>
      count (step ms s) = Suc (count s) \<and> total (step ms s) = total s + ms \<and> logged (step ms s) = logged s"
    and step_report: "Suc (count s) = interval \<Longrightarrow>
      count (step ms s) = 0 \<and> total (step ms s) = 0 \<and> logged (step ms s) = logged s @ [(total s + ms) div 100]"
begin

lemma steps_below:
  "count s + length mss < interval \<Longrightarrow> count (fold step mss s) = count s + length mss
     \<and> total (fold step mss s) = total s + sum_list mss \<and> logged (fold step mss s) = logged s"
proof (induction mss arbitrary: s)
  case (Cons ms mss)
  then have "Suc (count s) < interval" by simp
  from step_below[OF this, of ms] Cons show ?case by (simp add: add.assoc)
qed simp

lemma steps_interval:
  assumes "length mss = interval" "count s = 0" "total s = 0"
  shows "count (fold step mss s) = 0 \<and> total (fold step mss s) = 0
    \<and> logged (fold step mss s) = logged s @ [sum_list mss div 100]"
proof -
  obtain xs x where mss: "mss = xs @ [x]" using assms(1) by (metis interval_def length_0_conv numeral_eq_iff rev_exhaust zero_neq_numeral)
  have "count s + length xs < interval" using assms mss by simp
  from steps_below[OF this] have "count (fold step xs s) = length xs" "total (fold step xs s) = sum_list xs"
    "logged (fold step xs s) = logged s" using assms by simp_all
  moreover have "Suc (length xs) = interval" using assms(1) mss by simp
  ultimately show ?thesis using step_report[of "fold step xs s" x] mss by simp
qed

lemma reports:
  assumes "count s = 0" "total s = 0"
  shows "logged (fold step mss s) = logged s @
      map (\<lambda>k. sum_list (take interval (drop (interval * k) mss)) div 100) [0..<length mss div interval]
    \<and> count (fold step mss s) = length mss mod interval"
  using assms
proof (induction "length mss" arbitrary: mss s rule: less_induct)
  case less
  show ?case
  proof (cases "length mss < interval")
    case True
    then show ?thesis using steps_below[of s mss] less.prems by simp
  next
    case False
    let ?hd = "take interval mss" and ?tl = "drop interval mss"
    have len: "length ?hd = interval" "length ?tl < length mss" "length mss = interval + length ?tl"
      using False by (simp_all add: interval_def)
    note first = steps_interval[OF len(1) less.prems]
    have div: "length mss div interval = Suc (length ?tl div interval)" "length mss mod interval = length ?tl mod interval"
      unfolding len(3) by (simp_all add: interval_def)
    have "map (\<lambda>k. sum_list (take interval (drop (interval * k) mss)) div 100) [0..<length mss div interval] =
        (sum_list ?hd div 100) # map (\<lambda>k. sum_list (take interval (drop (interval * k) ?tl)) div 100) [0..<length ?tl div interval]"
      unfolding div(1) by (simp add: upt_conv_Cons map_Suc_upt[symmetric] o_def add.commute del: upt_Suc)
    moreover have "fold step mss s = fold step ?tl (fold step ?hd s)"
      by (metis append_take_drop_id fold_append o_apply)
    ultimately show ?thesis using less.hyps[OF len(2)] first div by simp
  qed
qed

end

text \<open>The counters stay far below the range of their types.\<close>

lemma count_u64:
  fixes n :: u64
  shows "unat n < 99 \<Longrightarrow> unat (n + 1) = Suc (unat n) \<and> n + 1 \<noteq> 100" "unat n = 99 \<Longrightarrow> n + 1 = 100"
  by (auto simp: unat_word_ariths word_unat_eq_iff)

lemma count_u32:
  fixes n :: u32
  shows "unat n < 99 \<Longrightarrow> unat (n + 1) = Suc (unat n) \<and> n + 1 \<noteq> 100" "unat n = 99 \<Longrightarrow> n + 1 = 100"
  by (auto simp: unat_word_ariths word_unat_eq_iff)

interpretation client_times: interval_stats client_stats "\<lambda>c. unat (c_count c)" c_elapsed c_logged
  by unfold_locales
    (simp_all add: client_stats_def interval_def Let_def kLogStatsIntervalFrame_def count_u64)

interpretation process_times: interval_stats process_stats "\<lambda>v. unat (p_index v)" p_elapsed p_logged
  by unfold_locales
    (simp_all add: process_stats_def interval_def Let_def kLogStatsInterval_def count_u32)

interpretation send_times: interval_stats send_stats "\<lambda>v. unat (s_index v)" s_elapsed s_logged
  by unfold_locales
    (simp_all add: send_stats_def interval_def Let_def kLogStatsInterval_def count_u32)

section \<open>Properties\<close>

text \<open>The time in milliseconds between two readings of the clock, and the average of a hundred.\<close>

definition true_ms :: "int \<times> int \<Rightarrow> nat" where
  "true_ms = (\<lambda>(start, now). nat (now - start) div 1000000)"

definition averages :: "(int \<times> int) list \<Rightarrow> nat list" where
  "averages ts = map (\<lambda>k. sum_list (map true_ms (take interval (drop (interval * k) ts))) div interval)
     [0..<length ts div interval]"

lemma reading_true_ms:
  assumes "start \<le> now"
  shows "reading (start, now) = word_of_nat (true_ms (start, now))"
proof -
  have "elapsed now (ScopedTimer_new start) = int (true_ms (start, now))"
    using assms by (simp add: elapsed_def ScopedTimer_new_def duration_cast_ms_def true_ms_def zdiv_int)
  then show ?thesis by (simp add: reading_def)
qed

lemma sum_readings:
  assumes "\<forall>(start, now) \<in> set ts. start \<le> now"
  shows "sum_list (map reading ts) = word_of_nat (sum_list (map true_ms ts))"
  using assms by (induction ts) (auto simp: reading_true_ms)

lemma sum_list_block_le:
  "sum_list (map f (take n (drop m xs))) \<le> (sum_list (map f xs) :: nat)"
proof -
  have "sum_list (map f xs) = sum_list (map f (take m xs)) + sum_list (map f (drop m xs))"
    "sum_list (map f (drop m xs)) = sum_list (map f (take n (drop m xs))) + sum_list (map f (drop n (drop m xs)))"
    by (metis append_take_drop_id map_append sum_list_append)+
  then show ?thesis by simp
qed

lemma word_div_100: "a < 2 ^ 64 \<Longrightarrow> word_of_nat a div 100 = (word_of_nat (a div 100) :: u64)"
  by (simp add: word_arith_nat_div unat_of_nat)

lemma logged_averages:
  assumes "\<forall>(start, now) \<in> set ts. start \<le> now" "sum_list (map true_ms ts) < 2 ^ 64"
  shows "map (\<lambda>k. sum_list (take interval (drop (interval * k) (map reading ts))) div 100) [0..<length (map reading ts) div interval]
    = map word_of_nat (averages ts)"
proof -
  have "sum_list (take interval (drop (interval * k) (map reading ts))) div 100 =
      (word_of_nat (sum_list (map true_ms (take interval (drop (interval * k) ts))) div interval) :: u64)" for k
  proof -
    let ?b = "take interval (drop (interval * k) ts)"
    have "\<forall>(start, now) \<in> set ?b. start \<le> now" using assms(1) by (meson in_set_dropD in_set_takeD)
    from sum_readings[OF this] have s: "sum_list (take interval (drop (interval * k) (map reading ts))) = word_of_nat (sum_list (map true_ms ?b))"
      by (simp add: take_map drop_map)
    have "sum_list (map true_ms ?b) < 2 ^ 64"
      using sum_list_block_le[of true_ms interval "interval * k" ts] assms(2) by simp
    from word_div_100[OF this] show ?thesis by (simp add: s interval_def[symmetric])
  qed
  then show ?thesis by (simp add: averages_def)
qed

text \<open>
  C40. The reports about time. With a clock that never goes back, and less than \<open>2 ^ 64\<close> milliseconds
  in all, each of the three threads logs after every hundred measured rounds the average of
  just these rounds in whole milliseconds, nothing in between, and starts the next hundred
  from zero; every round is measured in whole milliseconds, rounded down.
\<close>

theorem timing_reports:
  assumes "\<forall>(start, now) \<in> set ts. start \<le> now" and "sum_list (map true_ms ts) < 2 ^ 64"
    and "c_count c = 0" "c_elapsed c = 0" and "p_index p = 0" "p_elapsed p = 0" and "s_index s = 0" "s_elapsed s = 0"
  shows "c_logged (fold client_stats (map reading ts) c) = c_logged c @ map word_of_nat (averages ts)
    \<and> p_logged (fold process_stats (map reading ts) p) = p_logged p @ map word_of_nat (averages ts)
    \<and> s_logged (fold send_stats (map reading ts) s) = s_logged s @ map word_of_nat (averages ts)
    \<and> unat (c_count (fold client_stats (map reading ts) c)) = length ts mod 100"
  using client_times.reports[of c "map reading ts"] process_times.reports[of p "map reading ts"]
    send_times.reports[of s "map reading ts"] logged_averages[OF assms(1,2)] assms(3-)
  by (simp add: interval_def)

theorem timing_reports_witness:
  "p_logged (fold process_stats (map reading (replicate 100 (5000000, 12900000)))
     \<lparr>p_index = 0, p_elapsed = 0, p_logged = [3]\<rparr>) = [3, 7]"
proof -
  define ts :: "(int \<times> int) list" where "ts = replicate interval (5000000, 12900000)"
  have ms: "map true_ms ts = replicate interval 7" by (simp add: ts_def true_ms_def map_replicate_const)
  have "averages ts = [7]"
    by (simp add: averages_def ts_def true_ms_def map_replicate_const sum_list_replicate interval_def[symmetric])
      (simp add: interval_def)
  moreover have t: "\<forall>(start, now) \<in> set ts. start \<le> now" by (auto simp: ts_def)
  moreover have "sum_list (map true_ms ts) < 2 ^ 64" by (simp add: ms sum_list_replicate interval_def)
  ultimately have "p_logged (fold process_stats (map reading ts) \<lparr>p_index = 0, p_elapsed = 0, p_logged = [3]\<rparr>) = [3, 7]"
    using timing_reports[of ts "client_start [] []" "\<lparr>p_index = 0, p_elapsed = 0, p_logged = [3]\<rparr>"
        "\<lparr>s_frame_index = 0, s_index = 0, s_elapsed = 0, s_logged = [], s_discarded = []\<rparr>"]
    by (simp add: client_start_def)
  then show ?thesis unfolding ts_def interval_def .
qed

end
