(* ===== verification/Wire_Format.thy ===== *)
theory Wire_Format
  imports Messages
begin

unbundle bit_operations_syntax

text \<open>
  The messages of \<open>proto/nes.proto\<close> on the wire. The serialisers \<open>protoc\<close> generates are parameters
  wherever messages are sent or received; the locale \<open>message_format\<close> states what the program
  relies on, that parsing undoes serialising. This theory holds the encoding the protocol
  buffers language guide documents for these messages (fields in the order of their numbers,
  varints, length-delimited fields, packed floats, default values left out), with the field
  numbers of \<open>nes.proto\<close>, and shows that it meets that contract.
\<close>

section \<open>The contract\<close>

locale message_format =
  fixes encode :: "'m \<Rightarrow> u8 list" and decode :: "u8 list \<Rightarrow> 'm option"
  assumes decode_encode: "decode (encode m) = Some m"
begin

lemma encode_inject: "encode m = encode m' \<longleftrightarrow> m = m'"
  by (metis decode_encode option.inject)

end

section \<open>Varints and fields\<close>

fun varint :: "nat \<Rightarrow> u8 list" where
  "varint n = (if n < 128 then [of_nat n] else of_nat (128 + n mod 128) # varint (n div 128))"

fun get_varint :: "u8 list \<Rightarrow> (nat \<times> u8 list) option" where
  "get_varint [] = None"
| "get_varint (b # bs) =
     (if unat b < 128 then Some (unat b, bs)
      else map_option (\<lambda>(n, rest). (unat b - 128 + 128 * n, rest)) (get_varint bs))"

declare varint.simps [simp del]

lemma varint_steps:
  "n < 128 \<Longrightarrow> varint n = [of_nat n]"
  "\<not> n < 128 \<Longrightarrow> varint n = of_nat (128 + n mod 128) # varint (n div 128)"
  by (simp_all add: varint.simps[of n])

lemma get_varint_varint [simp]: "get_varint (varint n @ rest) = Some (n, rest)"
proof (induction n rule: varint.induct)
  case (1 n)
  show ?case
  proof (cases "n < 128")
    case True
    then show ?thesis by (simp add: varint.simps[of n] unat_of_nat)
  next
    case False
    have "128 + n mod 128 < 2 ^ LENGTH(8)" using mod_less_divisor[of 128 n] by simp
    then have "unat (of_nat (128 + n mod 128) :: u8) = 128 + n mod 128" by (simp only: unsigned_of_nat take_bit_nat_eq_self of_nat_id)
    then show ?thesis using 1 False by (simp add: varint.simps[of n] del: of_nat_add)
  qed
qed

lemma get_varint_shorter: "get_varint bs = Some (n, rest) \<Longrightarrow> length rest < length bs"
  by (induction bs arbitrary: n rest) (auto split: if_splits simp: less_Suc_eq)

text \<open>A field is its number with an integer (wire type 0) or with bytes (wire type 2).\<close>

datatype wire_value = VarInt nat | Delimited "u8 list"

fun encode_field :: "nat \<times> wire_value \<Rightarrow> u8 list" where
  "encode_field (k, VarInt n) = varint (8 * k) @ varint n"
| "encode_field (k, Delimited bs) = varint (8 * k + 2) @ varint (length bs) @ bs"

definition encode_fields :: "(nat \<times> wire_value) list \<Rightarrow> u8 list" where
  "encode_fields fs = concat (map encode_field fs)"

function decode_fields :: "u8 list \<Rightarrow> (nat \<times> wire_value) list option" where
  "decode_fields bs =
     (if bs = [] then Some []
      else (case get_varint bs of
              None \<Rightarrow> None
            | Some (tag, r1) \<Rightarrow>
                (case get_varint r1 of
                   None \<Rightarrow> None
                 | Some (n, r2) \<Rightarrow>
                     (if tag mod 8 = 0
                      then map_option ((#) (tag div 8, VarInt n)) (decode_fields r2)
                      else if tag mod 8 = 2 \<and> n \<le> length r2
                      then map_option ((#) (tag div 8, Delimited (take n r2))) (decode_fields (drop n r2))
                      else None))))"
  by pat_completeness auto

termination
  by (relation "measure length") (auto dest!: get_varint_shorter)

declare decode_fields.simps [simp del]

lemma varint_nonempty [simp]: "varint n \<noteq> []"
  by (simp add: varint.simps[of n])

lemma decode_encode_fields: "decode_fields (encode_fields fs) = Some fs"
proof (induction fs)
  case Nil
  then show ?case by (simp add: encode_fields_def decode_fields.simps)
next
  case (Cons f fs)
  then have ih: "decode_fields (concat (map encode_field fs)) = Some fs" by (simp add: encode_fields_def)
  obtain k v where f: "f = (k, v)" by fastforce
  show ?case
    by (cases v) (simp_all add: f encode_fields_def decode_fields.simps[of "varint _ @ _"] ih del: add_2_eq_Suc add_2_eq_Suc')
qed

text \<open>The last field of a number counts, and a missing one has its default value.\<close>

definition get_int :: "nat \<Rightarrow> (nat \<times> wire_value) list \<Rightarrow> nat" where
  "get_int k fs = foldl (\<lambda>acc (j, v). case v of VarInt n \<Rightarrow> if j = k then n else acc | Delimited bs \<Rightarrow> acc) 0 fs"

definition get_bytes :: "nat \<Rightarrow> (nat \<times> wire_value) list \<Rightarrow> u8 list" where
  "get_bytes k fs = foldl (\<lambda>acc (j, v). case v of Delimited bs \<Rightarrow> if j = k then bs else acc | VarInt n \<Rightarrow> acc) [] fs"

text \<open>A field with its default value is not written.\<close>

definition int_field :: "nat \<Rightarrow> nat \<Rightarrow> (nat \<times> wire_value) list" where
  "int_field k n = (if n = 0 then [] else [(k, VarInt n)])"

definition bytes_field :: "nat \<Rightarrow> u8 list \<Rightarrow> (nat \<times> wire_value) list" where
  "bytes_field k bs = (if bs = [] then [] else [(k, Delimited bs)])"

section \<open>Floats\<close>

definition float_bytes :: "f32 \<Rightarrow> u8 list" where
  "float_bytes f = map (\<lambda>i. ucast (drop_bit (8 * i) f)) [0..<4]"

fun get_floats :: "u8 list \<Rightarrow> f32 list option" where
  "get_floats [] = Some []"
| "get_floats (a # b # c # d # bs) =
     map_option ((#) (ucast a OR push_bit 8 (ucast b) OR push_bit 16 (ucast c) OR push_bit 24 (ucast d))) (get_floats bs)"
| "get_floats _ = None"

lemma bit_byte_at:
  fixes f :: f32
  assumes "i < 32"
  shows "bit (push_bit m (ucast (ucast (drop_bit m f) :: u8)) :: f32) i \<longleftrightarrow> m \<le> i \<and> i < m + 8 \<and> bit f i"
  using assms by (cases "m \<le> i") (auto simp: bit_push_bit_iff bit_ucast_iff bit_drop_bit_eq less_diff_conv2)

lemma float_join:
  "ucast (ucast f :: u8) OR push_bit 8 (ucast (ucast (drop_bit 8 f) :: u8))
     OR push_bit 16 (ucast (ucast (drop_bit 16 f) :: u8)) OR push_bit 24 (ucast (ucast (drop_bit 24 f) :: u8)) = (f :: f32)"
proof (rule bit_word_eqI)
  fix i
  assume i: "i < LENGTH(32)"
  then have i': "i < 32" by simp
  have "bit (ucast (ucast f :: u8) :: f32) i \<longleftrightarrow> i < 8 \<and> bit f i" using bit_byte_at[OF i', of 0 f] by simp
  then show "bit ((ucast (ucast f :: u8) :: f32) OR push_bit 8 (ucast (ucast (drop_bit 8 f) :: u8))
     OR push_bit 16 (ucast (ucast (drop_bit 16 f) :: u8)) OR push_bit 24 (ucast (ucast (drop_bit 24 f) :: u8))) i = bit f i"
    using i' by (simp only: bit_or_iff bit_byte_at[OF i']) arith
qed

lemma get_floats_bytes: "get_floats (concat (map float_bytes fs)) = Some fs"
  by (induction fs) (simp_all add: float_bytes_def upt_rec float_join)

section \<open>The messages\<close>

definition camera_fields :: "Camera \<Rightarrow> (nat \<times> wire_value) list" where
  "camera_fields c = int_field 2 (of_bool (cam_is_left c)) @ int_field 3 (unat (cam_width c))
     @ int_field 4 (unat (cam_height c)) @ bytes_field 12 (concat (map float_bytes (cam_matrix c)))"

definition fields_camera :: "(nat \<times> wire_value) list \<Rightarrow> Camera option" where
  "fields_camera fs = map_option (\<lambda>m. \<lparr>cam_is_left = (get_int 2 fs \<noteq> 0), cam_width = of_nat (get_int 3 fs),
     cam_height = of_nat (get_int 4 fs), cam_matrix = m\<rparr>) (get_floats (get_bytes 12 fs))"

definition encode_camera :: "Camera \<Rightarrow> u8 list" where
  "encode_camera c = encode_fields (camera_fields c)"

definition decode_camera :: "u8 list \<Rightarrow> Camera option" where
  "decode_camera bs = Option.bind (decode_fields bs) fields_camera"

definition request_fields :: "FrameRequest \<Rightarrow> (nat \<times> wire_value) list" where
  "request_fields r = int_field 1 (unat (req_index r)) @ [(2, Delimited (encode_camera (req_camera r)))]
     @ int_field 3 (of_bool (req_is_left r))"

definition fields_request :: "(nat \<times> wire_value) list \<Rightarrow> FrameRequest option" where
  "fields_request fs = map_option (\<lambda>c. \<lparr>req_index = of_nat (get_int 1 fs), req_camera = c,
     req_is_left = (get_int 3 fs \<noteq> 0)\<rparr>) (decode_camera (get_bytes 2 fs))"

definition encode_request :: "FrameRequest \<Rightarrow> u8 list" where
  "encode_request r = encode_fields (request_fields r)"

definition decode_request :: "u8 list \<Rightarrow> FrameRequest option" where
  "decode_request bs = Option.bind (decode_fields bs) fields_request"

definition response_fields :: "FrameResponse \<Rightarrow> (nat \<times> wire_value) list" where
  "response_fields r = int_field 1 (unat (resp_index r)) @ [(2, Delimited (encode_camera (resp_camera r)))]
     @ int_field 3 (of_bool (resp_is_left r)) @ bytes_field 6 (resp_frame r) @ bytes_field 7 (resp_depth r)"

definition fields_response :: "(nat \<times> wire_value) list \<Rightarrow> FrameResponse option" where
  "fields_response fs = map_option (\<lambda>c. \<lparr>resp_index = of_nat (get_int 1 fs), resp_camera = c,
     resp_is_left = (get_int 3 fs \<noteq> 0), resp_frame = get_bytes 6 fs, resp_depth = get_bytes 7 fs\<rparr>)
     (decode_camera (get_bytes 2 fs))"

definition encode_response :: "FrameResponse \<Rightarrow> u8 list" where
  "encode_response r = encode_fields (response_fields r)"

definition decode_response :: "u8 list \<Rightarrow> FrameResponse option" where
  "decode_response bs = Option.bind (decode_fields bs) fields_response"

lemmas field_defs = int_field_def bytes_field_def get_int_def get_bytes_def

lemma decode_encode_camera: "decode_camera (encode_camera c) = Some c"
proof -
  have f: "get_int 2 (camera_fields c) = of_bool (cam_is_left c)" "get_int 3 (camera_fields c) = unat (cam_width c)"
    "get_int 4 (camera_fields c) = unat (cam_height c)"
    "get_bytes 12 (camera_fields c) = concat (map float_bytes (cam_matrix c))"
    by (simp_all add: camera_fields_def field_defs)
  show ?thesis
    by (simp add: decode_camera_def encode_camera_def decode_encode_fields fields_camera_def f get_floats_bytes)
qed

interpretation camera_format: message_format encode_camera decode_camera
  by unfold_locales (rule decode_encode_camera)

interpretation request_format: message_format encode_request decode_request
proof
  fix r
  have f: "get_int 1 (request_fields r) = unat (req_index r)" "get_int 3 (request_fields r) = of_bool (req_is_left r)"
    "get_bytes 2 (request_fields r) = encode_camera (req_camera r)"
    by (simp_all add: request_fields_def field_defs)
  show "decode_request (encode_request r) = Some r"
    by (simp add: decode_request_def encode_request_def decode_encode_fields fields_request_def f decode_encode_camera del: One_nat_def)
qed

interpretation response_format: message_format encode_response decode_response
proof
  fix r
  have f: "get_int 1 (response_fields r) = unat (resp_index r)" "get_int 3 (response_fields r) = of_bool (resp_is_left r)"
    "get_bytes 2 (response_fields r) = encode_camera (resp_camera r)" "get_bytes 6 (response_fields r) = resp_frame r"
    "get_bytes 7 (response_fields r) = resp_depth r"
    by (simp_all add: response_fields_def field_defs)
  show "decode_response (encode_response r) = Some r"
    by (simp add: decode_response_def encode_response_def decode_encode_fields fields_response_def f decode_encode_camera del: One_nat_def)
qed

end
