(* ===== verification/Exchange.thy ===== *)
theory Exchange
  imports Wire_Format Server_Threads
begin

text \<open>
  A conversation between a client thread (\<open>socket_client_thread\<close>, \<open>server.cpp\<close>) and a renderer that
  answers every request: serialising, framing, the socket in both directions, parsing and the
  frame queues, over any number of rounds. The locale \<open>renderer_link\<close> is the contract of the
  generated message code of both sides; the encoding of theory \<open>Wire_Format\<close> meets it.
\<close>

section \<open>The requests of consecutive rounds\<close>

fun requests :: "nat \<Rightarrow> server_state \<Rightarrow> FrameRequest list" where
  "requests 0 s = []"
| "requests (Suc n) s = next_request s # requests n (after_ticket s)"

definition same_tickets :: "server_state \<Rightarrow> server_state \<Rightarrow> bool" where
  "same_tickets s s' = (same_counters s s' \<and> cameramgr s' = cameramgr s)"

lemma same_tickets_next: "same_tickets s s' \<Longrightarrow> next_request s' = next_request s \<and> same_tickets (after_ticket s) (after_ticket s')"
  by (auto simp: same_tickets_def same_counters_def next_request_def fetch_frame_index_def after_ticket_def fetch_is_left_def)

lemma requests_same: "same_tickets s s' \<Longrightarrow> requests n s' = requests n s"
  by (induction n arbitrary: s s') (simp_all add: same_tickets_next)

text \<open>The frames of an eye that wait in its queue, as the renderer sent them.\<close>

definition waiting :: "bool \<Rightarrow> server_state \<Rightarrow> FrameResponse list" where
  "waiting b s = map m_frame_response (m_queue (eye_queue b s))"

lemma enqueued_waiting:
  assumes "enqueued env r s s'"
  shows "waiting b s' = waiting b s @
    (if resp_is_left r = b \<and> length (waiting b s) < kFrameQueueMaxSize then [r] else [])"
  using assms by (cases "resp_is_left r = b") (auto simp: enqueued_def waiting_def Let_def split: if_splits)

text \<open>
  A round of the conversation is described by the timer's reading, what the other threads do to the
  shared state before it, and how many frames of each eye they take from the queues. The processing
  threads pop from the front and release frames; they draw no tickets and set no camera.
\<close>

type_synonym quiet_round = "u64 \<times> (bool \<Rightarrow> nat) \<times> (server_state \<Rightarrow> server_state)"

definition takes_frames :: "(bool \<Rightarrow> nat) \<Rightarrow> (server_state \<Rightarrow> server_state) \<Rightarrow> bool" where
  "takes_frames k others = (\<forall>s. heap_ok (sv_heap s) \<longrightarrow> heap_ok (sv_heap (others s))
     \<and> same_tickets s (others s) \<and> (\<forall>b. waiting b (others s) = drop (k b) (waiting b s)))"

definition quiet :: "quiet_round \<Rightarrow> bool \<times> u64 \<times> (server_state \<Rightarrow> server_state)" where
  "quiet = (\<lambda>(ms, k, others). (False, ms, others))"

definition shutdown :: "bool \<times> u64 \<times> (server_state \<Rightarrow> server_state)" where
  "shutdown = (True, 0, id)"

text \<open>
  What becomes of the frames of an eye: \<open>flow b rounds w\<close> lists those taken out, those left waiting and
  those dropped at a full queue, when \<open>w\<close> wait at first and each round takes some and brings an answer.
\<close>

fun flow :: "bool \<Rightarrow> (nat \<times> FrameResponse) list \<Rightarrow> FrameResponse list \<Rightarrow>
    FrameResponse list \<times> FrameResponse list \<times> FrameResponse list" where
  "flow b [] w = ([], w, [])"
| "flow b ((k, r) # rounds) w =
     (let full = (kFrameQueueMaxSize \<le> length (drop k w));
          (taken, left, dropped) = flow b rounds (drop k w @ (if resp_is_left r = b \<and> \<not> full then [r] else []))
      in (take k w @ taken, left, (if resp_is_left r = b \<and> full then [r] else []) @ dropped))"

text \<open>Frames come out in the order they went in; only those dropped are missing.\<close>

lemma flow_order:
  assumes "flow b rounds w = (taken, left, dropped)"
  shows "subseq (taken @ left) (w @ filter (\<lambda>r. resp_is_left r = b) (map snd rounds))
    \<and> length (taken @ left) + length dropped = length w + length (filter (\<lambda>r. resp_is_left r = b) (map snd rounds))"
  using assms
proof (induction b rounds w arbitrary: taken left dropped rule: flow.induct)
  case (2 b k r rounds w)
  define w' where "w' = drop k w @ (if resp_is_left r = b \<and> length (drop k w) < kFrameQueueMaxSize then [r] else [])"
  obtain t l d where rest: "flow b rounds w' = (t, l, d)" by (metis prod_cases3)
  have parts: "taken = take k w @ t" "left = l"
      "dropped = (if resp_is_left r = b \<and> kFrameQueueMaxSize \<le> length (drop k w) then [r] else []) @ d"
    using 2(2) rest by (simp_all add: w'_def not_le Let_def)
  have ih: "subseq (t @ l) (w' @ filter (\<lambda>r. resp_is_left r = b) (map snd rounds))"
      "length (t @ l) + length d = length w' + length (filter (\<lambda>r. resp_is_left r = b) (map snd rounds))"
    using 2(1)[OF refl, of t l d] rest by (simp_all add: w'_def not_le)
  have "subseq w' (drop k w @ filter (\<lambda>r. resp_is_left r = b) [r])"
    by (auto simp: w'_def list_emb_prefix)
  then have "subseq (t @ l) ((drop k w @ filter (\<lambda>r. resp_is_left r = b) [r]) @ filter (\<lambda>r. resp_is_left r = b) (map snd rounds))"
    using ih(1) by (blast intro: subseq_order.trans list_emb_append_mono)
  then have "subseq (take k w @ t @ l) (take k w @ drop k w @ filter (\<lambda>r. resp_is_left r = b) (map snd ((k, r) # rounds)))"
    by (auto intro: list_emb_append_mono split: if_splits)
  then have "subseq (taken @ left) (w @ filter (\<lambda>r. resp_is_left r = b) (map snd ((k, r) # rounds)))"
    unfolding parts append_assoc append_assoc[of "take k w" "drop k w", symmetric] append_take_drop_id .
  moreover have "length (taken @ left) + length dropped
      = length w + length (filter (\<lambda>r. resp_is_left r = b) (map snd ((k, r) # rounds)))"
    using ih(2) by (cases "resp_is_left r = b"; cases "length (drop k w) < kFrameQueueMaxSize") (simp_all add: parts w'_def)
  ultimately show ?case ..
qed simp

section \<open>The contract of the message code\<close>

locale renderer_link =
  requests: message_format "serialize env" parse_request + responses: message_format serialize_frame "parse_frame env"
  for env :: client_env and parse_request :: "u8 list \<Rightarrow> FrameRequest option" and serialize_frame :: "FrameResponse \<Rightarrow> u8 list"
begin

text \<open>A round in which the renderer answers.\<close>

lemma answered_round:
  assumes "0 \<le> c_ret c" "heap_ok (sv_heap s)"
    and out: "send_live (c_outs c)" "8 + length (serialize env (next_request s)) \<le> rooms (c_outs c)"
    and inp: "recv_live (c_evs c)" "stream (c_evs c) = lpf_frame (serialize_frame r) @ extra"
    and sz: "length (serialize_frame r) < 2 ^ 64" "alloc_ok env (of_nat (length (serialize_frame r)))"
  shows "\<exists>c' s'. socket_client_round env ms (c, s) = Next (c', s') \<and> c_ret c' = 0
    \<and> c_wire c' = c_wire c @ lpf_frame (serialize env (next_request s))
    \<and> send_live (c_outs c') \<and> rooms (c_outs c) \<le> rooms (c_outs c') + 8 + length (serialize env (next_request s))
    \<and> recv_live (c_evs c') \<and> stream (c_evs c') = extra \<and> enqueued env r (after_ticket s) s'"
proof -
  have nn: "\<not> c_ret c < 0" using assms(1) by simp
  obtain outs where o: "socket_send_blocking_lpf (serialize env (next_request s)) (c_outs c) =
      Some (0, lpf_frame (serialize env (next_request s)), outs)" "send_live outs"
      "rooms (c_outs c) \<le> rooms outs + 8 + length (serialize env (next_request s))"
    using send_lpf_completes[OF out] by blast
  obtain evs where e: "socket_receive_blocking_lpf (alloc_ok env) (c_evs c) = Some (Inr (serialize_frame r), evs)"
      "recv_live evs" "stream evs = extra"
    using receive_lpf_completes[OF inp sz(1), of "alloc_ok env"] sz(2) by blast
  obtain s' where s': "enqueue_frame env r (after_ticket s) = Inr s'" "enqueued env r (after_ticket s) s'"
    using enqueue_frame_outcome[of "after_ticket s" env r] assms(2) by auto
  then show ?thesis
    using e o by (simp add: client_round_unfold[OF nn o(1)] responses.decode_encode Let_def)
qed

text \<open>The socket takes enough bytes and delivers the answers one after the other.\<close>

lemma session:
  assumes "0 \<le> c_ret c" "heap_ok (sv_heap s)" "send_live (c_outs c)"
    and "sum_list (map (\<lambda>q. 8 + length (serialize env q)) (requests (length rounds) s)) \<le> rooms (c_outs c)"
    and "recv_live (c_evs c)"
    and "stream (c_evs c) = concat (map (\<lambda>q. lpf_frame (serialize_frame (render q))) (requests (length rounds) s)) @ extra"
    and "\<forall>q \<in> set (requests (length rounds) s). length (serialize_frame (render q)) < 2 ^ 64
      \<and> alloc_ok env (of_nat (length (serialize_frame (render q))))"
    and "\<forall>(ms, k, others) \<in> set rounds. takes_frames k others"
  shows "\<exists>c' s'. socket_client_thread env (map quiet rounds @ [shutdown]) (c, s) = Exit (c', s')
    \<and> c_wire c' = c_wire c @ concat (map (\<lambda>q. lpf_frame (serialize env q)) (requests (length rounds) s))
    \<and> stream (c_evs c') = extra \<and> \<not> c_open c'
    \<and> (\<forall>b. waiting b s' = fst (snd (flow b
        (zip (map (\<lambda>(ms, k, others). k b) rounds) (map render (requests (length rounds) s))) (waiting b s))))"
  using assms
proof (induction rounds arbitrary: c s)
  case Nil
  then show ?case by (auto simp: shutdown_def)
next
  case (Cons rd rounds)
  obtain ms k others where rd: "rd = (ms, k, others)" by (cases rd)
  let ?s = "others s"
  have own: "heap_ok (sv_heap ?s)" "same_tickets s ?s" "\<And>b. waiting b ?s = drop (k b) (waiting b s)"
    using Cons.prems(2,8) by (auto simp: rd takes_frames_def)
  let ?q = "next_request ?s" and ?qs = "requests (length rounds) (after_ticket ?s)"
  have all: "requests (length (rd # rounds)) s = ?q # ?qs" using requests_same[OF own(2), of "Suc (length rounds)"] by simp
  obtain c1 s1 where step: "socket_client_round env ms (c, ?s) = Next (c1, s1)" and c1: "c_ret c1 = 0"
    "c_wire c1 = c_wire c @ lpf_frame (serialize env ?q)" "send_live (c_outs c1)"
    "rooms (c_outs c) \<le> rooms (c_outs c1) + 8 + length (serialize env ?q)" "recv_live (c_evs c1)"
    "stream (c_evs c1) = concat (map (\<lambda>q. lpf_frame (serialize_frame (render q))) ?qs) @ extra"
    and enq: "enqueued env (render ?q) (after_ticket ?s) s1"
    using answered_round[of c ?s "render ?q" "concat (map (\<lambda>q. lpf_frame (serialize_frame (render q))) ?qs) @ extra" ms]
      Cons.prems(1,3-7) own(1) unfolding all by auto
  have same: "same_tickets (after_ticket ?s) s1" and heap: "heap_ok (sv_heap s1)"
    using enq by (auto simp: enqueued_def same_tickets_def Let_def)
  have qs: "requests (length rounds) s1 = ?qs" using requests_same[OF same] .
  have budget: "sum_list (map (\<lambda>q. 8 + length (serialize env q)) (requests (length rounds) s1)) \<le> rooms (c_outs c1)"
    using Cons.prems(4) c1(4) unfolding qs all by simp
  have sizes: "\<forall>q \<in> set (requests (length rounds) s1). length (serialize_frame (render q)) < 2 ^ 64
      \<and> alloc_ok env (of_nat (length (serialize_frame (render q))))"
    using Cons.prems(7) unfolding qs all by simp
  have w: "waiting b s1 = drop (k b) (waiting b s) @
      (if resp_is_left (render ?q) = b \<and> \<not> kFrameQueueMaxSize \<le> length (drop (k b) (waiting b s)) then [render ?q] else [])" for b
    using enqueued_waiting[OF enq, of b] own(3)[of b] by (simp only: not_le) (simp add: waiting_def flip: length_map)
  obtain c' s' where ih: "socket_client_thread env (map quiet rounds @ [shutdown]) (c1, s1) = Exit (c', s')"
    "c_wire c' = c_wire c1 @ concat (map (\<lambda>q. lpf_frame (serialize env q)) ?qs)"
    "stream (c_evs c') = extra" "\<not> c_open c'"
    "\<forall>b. waiting b s' = fst (snd (flow b (zip (map (\<lambda>(ms, k, others). k b) rounds) (map render ?qs)) (waiting b s1)))"
    using Cons.IH[OF _ heap c1(3) budget c1(5) _ sizes] c1(1,6) Cons.prems(8) unfolding qs by auto
  moreover have "socket_client_thread env (map quiet (rd # rounds) @ [shutdown]) (c, s) =
      socket_client_thread env (map quiet rounds @ [shutdown]) (c1, s1)"
    using step by (simp add: quiet_def rd Let_def)
  ultimately show ?case unfolding all
    using c1(2) by (intro exI[of _ c'] exI[of _ s']) (simp add: w rd Let_def split: prod.split)
qed

end

section \<open>The documented encoding\<close>

definition wire_env :: "client_env \<Rightarrow> client_env" where
  "wire_env env = env\<lparr>serialize := encode_request, parse_frame := decode_response\<rparr>"

interpretation wire: renderer_link "wire_env env" decode_request encode_response
  by unfold_locales (simp_all add: wire_env_def request_format.decode_encode response_format.decode_encode)

section \<open>Properties\<close>

text \<open>
  C27. A conversation with a renderer that answers every request, over any number of rounds, however
  the kernel cuts the bytes in both directions, while other threads take any number of frames from
  the queues between the rounds (no other client thread draws a ticket and no camera is set
  meanwhile). If the message code parses what it serialises: the wire carries exactly the requests of
  the tickets drawn, framed and in order, each of which the renderer can parse back; every answer is
  read; each queue holds in the end what \<open>flow\<close> leaves there: the answers that name its eye pass
  through it in the order of the tickets, and one is dropped just when it meets a queue of a hundred
  frames, so that none is missing if there always is room. Then the thread ends at the shutdown
  flag with its socket closed.
\<close>

theorem renderer_conversation:
  assumes "\<forall>q. parse_request (serialize env q) = Some q" and "\<forall>r. parse_frame env (serialize_frame r) = Some r"
    and "0 \<le> c_ret c" and "heap_ok (sv_heap s)" and "send_live (c_outs c)"
    and "sum_list (map (\<lambda>q. 8 + length (serialize env q)) (requests (length rounds) s)) \<le> rooms (c_outs c)"
    and "recv_live (c_evs c)"
    and "stream (c_evs c) = concat (map (\<lambda>q. lpf_frame (serialize_frame (render q))) (requests (length rounds) s)) @ extra"
    and "\<forall>q \<in> set (requests (length rounds) s). length (serialize_frame (render q)) < 2 ^ 64
      \<and> alloc_ok env (of_nat (length (serialize_frame (render q))))"
    and "\<forall>(ms, k, others) \<in> set rounds. takes_frames k others"
  shows "\<exists>c' s'. socket_client_thread env (map quiet rounds @ [shutdown]) (c, s) = Exit (c', s')
    \<and> c_wire c' = c_wire c @ concat (map (\<lambda>q. lpf_frame (serialize env q)) (requests (length rounds) s))
    \<and> map (parse_request \<circ> serialize env) (requests (length rounds) s) = map Some (requests (length rounds) s)
    \<and> stream (c_evs c') = extra \<and> \<not> c_open c'
    \<and> (\<forall>b. let answers = map render (requests (length rounds) s);
             (taken, left, dropped) = flow b (zip (map (\<lambda>(ms, k, others). k b) rounds) answers) (waiting b s);
             all = waiting b s @ filter (\<lambda>r. resp_is_left r = b) answers
         in waiting b s' = left \<and> subseq (taken @ left) all
           \<and> length (taken @ left) + length dropped = length all \<and> (dropped = [] \<longrightarrow> taken @ left = all))"
proof -
  have "renderer_link env parse_request serialize_frame" by unfold_locales (use assms(1,2) in auto)
  note run = renderer_link.session[OF this assms(3-)]
  have "length (requests n s) = n" for n s by (induction n arbitrary: s) auto
  then have answers: "map snd (zip (map (\<lambda>(ms, k, others). k b) rounds) (map render (requests (length rounds) s)))
      = map render (requests (length rounds) s)" for b by simp
  have flows: "let (taken, left, dropped) = flow b (zip (map (\<lambda>(ms, k, others). k b) rounds) (map render (requests (length rounds) s))) w;
      all = w @ filter (\<lambda>r. resp_is_left r = b) (map render (requests (length rounds) s))
    in subseq (taken @ left) all \<and> length (taken @ left) + length dropped = length all \<and> (dropped = [] \<longrightarrow> taken @ left = all)" for b w
    using flow_order[of b "zip (map (\<lambda>(ms, k, others). k b) rounds) (map render (requests (length rounds) s))" w, unfolded answers]
    by (auto simp: Let_def split: prod.split intro: subseq_same_length)
  obtain c' s' where r: "socket_client_thread env (map quiet rounds @ [shutdown]) (c, s) = Exit (c', s')"
    "c_wire c' = c_wire c @ concat (map (\<lambda>q. lpf_frame (serialize env q)) (requests (length rounds) s))"
    "stream (c_evs c') = extra" "\<not> c_open c'"
    "\<And>b. waiting b s' = fst (snd (flow b
        (zip (map (\<lambda>(ms, k, others). k b) rounds) (map render (requests (length rounds) s))) (waiting b s)))"
    using run by blast
  show ?thesis
    using r flows assms(1) by (intro exI[of _ c'] exI[of _ s']) (simp add: Let_def split_beta)
qed

definition demo_render :: "FrameRequest \<Rightarrow> FrameResponse" where
  "demo_render q = \<lparr>resp_index = req_index q, resp_camera = req_camera q, resp_is_left = req_is_left q,
     resp_frame = [1, 2, 3], resp_depth = [4]\<rparr>"

definition demo_talk_server :: server_state where
  "demo_talk_server = demo_server\<lparr>cameramgr := demo_manager
     \<lparr>m_camera_left := Camera_default\<lparr>cam_width := 300\<rparr>, m_camera_right := Camera_default\<rparr>\<rparr>"

definition demo_talk_env :: client_env where
  "demo_talk_env = wire_env (demo_client_env\<lparr>alloc_ok := \<lambda>_. True\<rparr>)"

lemma demo_requests: "requests 2 demo_talk_server =
    [\<lparr>req_index = 0, req_camera = Camera_default, req_is_left = False\<rparr>,
     \<lparr>req_index = 0, req_camera = Camera_default\<lparr>cam_width := 300\<rparr>, req_is_left = True\<rparr>]"
  by (simp add: numeral_2_eq_2 demo_talk_server_def demo_server_def next_request_def make_request_def fetch_frame_index_def
      after_ticket_def fetch_is_left_def get_camera_left_def get_camera_right_def)

lemma demo_answer_sizes: "q \<in> set (requests 2 demo_talk_server) \<Longrightarrow> length (encode_response (demo_render q)) < 2 ^ 64"
  unfolding demo_requests
  by (auto simp: demo_render_def encode_response_def response_fields_def encode_camera_def camera_fields_def Camera_default_def
      encode_fields_def int_field_def bytes_field_def varint_steps)

text \<open>The right processing thread takes a frame, if there is one.\<close>

definition demo_take :: "server_state \<Rightarrow> server_state" where
  "demo_take s = (case FrameQueue_pop (frame_queue_right s) of
     Inr (f, q) \<Rightarrow> s\<lparr>frame_queue_right := q\<rparr> | Inl e \<Rightarrow> s)"

definition demo_rounds :: "quiet_round list" where
  "demo_rounds = [(3, \<lambda>b. 0, id), (5, \<lambda>b. if b then 0 else 1, demo_take)]"

lemma demo_rounds_take: "\<forall>(ms, k, others) \<in> set demo_rounds. takes_frames k others"
proof -
  have "takes_frames (\<lambda>b. if b then 0 else 1) demo_take"
    by (auto simp: takes_frames_def demo_take_def same_tickets_def same_counters_def waiting_def eye_queue_def
        FrameQueue_pop_def drop_Suc map_tl split: list.splits)
  moreover have "takes_frames (\<lambda>b. 0) id" by (simp add: takes_frames_def same_tickets_def same_counters_def)
  ultimately show ?thesis by (simp add: demo_rounds_def)
qed

theorem renderer_conversation_witness:
  "\<exists>outs evs c' s'. socket_client_thread demo_talk_env (map quiet demo_rounds @ [shutdown]) (client_start outs evs, demo_talk_server)
      = Exit (c', s') \<and> waiting False s' = [] \<and> waiting True s' =
      [demo_render \<lparr>req_index = 0, req_camera = Camera_default\<lparr>cam_width := 300\<rparr>, req_is_left = True\<rparr>]"
proof -
  let ?qs = "requests (length demo_rounds) demo_talk_server"
  define n where "n = sum_list (map (\<lambda>q. 8 + length (serialize demo_talk_env q)) ?qs)"
  define bytes where "bytes = concat (map (\<lambda>q. lpf_frame (encode_response (demo_render q))) ?qs)"
  have live: "send_live (replicate n (Room 1))" "rooms (replicate n (Room 1)) = n" by (induction n) simp_all
  have qs: "?qs = requests 2 demo_talk_server" by (simp add: numeral_2_eq_2 demo_rounds_def)
  have "bytes \<noteq> []" unfolding bytes_def qs demo_requests by (simp add: lpf_frame_def size_bytes_def)
  then have recv: "recv_live [Seg bytes]" "stream [Seg bytes] = bytes @ []" by simp_all
  have env: "serialize demo_talk_env = encode_request" "parse_frame demo_talk_env = decode_response" "alloc_ok demo_talk_env = (\<lambda>_. True)"
    by (simp_all add: demo_talk_env_def wire_env_def)
  have w: "waiting b demo_talk_server = []" for b
    by (simp add: waiting_def eye_queue_def demo_talk_server_def demo_server_def FrameQueue_new_def)
  let ?c = "client_start (replicate n (Room 1)) [Seg bytes]"
  have c: "c_ret ?c = 0" "c_outs ?c = replicate n (Room 1)" "c_evs ?c = [Seg bytes]" by (simp_all add: client_start_def)
  have heap: "heap_ok (sv_heap demo_talk_server)" by (simp add: demo_talk_server_def demo_server_def)
  have sizes: "\<forall>q \<in> set ?qs. length (encode_response (demo_render q)) < 2 ^ 64
      \<and> alloc_ok demo_talk_env (of_nat (length (encode_response (demo_render q))))"
    using demo_answer_sizes unfolding qs env(3) by simp
  have laws: "\<forall>q. decode_request (serialize demo_talk_env q) = Some q" "\<forall>r. parse_frame demo_talk_env (encode_response r) = Some r"
    by (simp_all add: env request_format.decode_encode response_format.decode_encode)
  obtain c' s' where r: "socket_client_thread demo_talk_env (map quiet demo_rounds @ [shutdown]) (?c, demo_talk_server) = Exit (c', s')"
    "\<And>b. waiting b s' = fst (snd (flow b (zip (map (\<lambda>(ms, k, others). k b) demo_rounds) (map demo_render ?qs)) []))"
    using renderer_conversation[where rounds = demo_rounds and c = ?c and extra = "[]", OF laws _ heap _ _ _ _ sizes demo_rounds_take] live recv
    unfolding c n_def[symmetric] bytes_def[symmetric] w by (fastforce simp: Let_def split_beta)
  have "waiting False s' = []"
    "waiting True s' = [demo_render \<lparr>req_index = 0, req_camera = Camera_default\<lparr>cam_width := 300\<rparr>, req_is_left = True\<rparr>]"
    unfolding r(2) qs demo_requests by (simp_all add: demo_rounds_def demo_render_def kFrameQueueMaxSize_def Let_def)
  then show ?thesis using r(1)
    by (intro exI[of _ "replicate n (Room 1)"] exI[of _ "[Seg bytes]"] exI[of _ c'] exI[of _ s']) simp
qed

end
