(* ===== verification/Camera_Path.thy ===== *)
theory Camera_Path
  imports Exchange Servers
begin

text \<open>
  From the viewer to the renderer: camera messages that reach \<open>CameraControlServer\<close> change the cameras
  and encoders of \<open>CameraManager\<close>, and the client threads put these cameras into their requests. The
  camera server and the client threads hold the same manager.
\<close>

section \<open>A sequence of messages\<close>

text \<open>
  Each message comes with what libavcodec answers in the calls it leads to. An exception leaves
  the handler and ends the sequence.
\<close>

type_synonym 'm camera_call = "codec_env \<times> codec_env \<times> 'm"

fun camera_messages ::
  "(u8 list \<Rightarrow> Camera option) \<Rightarrow> u8 list camera_call list \<Rightarrow> CameraControlServer \<Rightarrow> unit res \<times> CameraControlServer" where
  "camera_messages parse [] srv = (Inr (), srv)"
| "camera_messages parse ((es, ed, payload) # msgs) srv =
     (case message_handler parse es ed payload srv of
        (Inl e, logged, srv') \<Rightarrow> (Inl e, srv')
      | (Inr _, logged, srv') \<Rightarrow> camera_messages parse msgs srv')"

definition eye_camera :: "bool \<Rightarrow> CameraManager \<Rightarrow> Camera" where
  "eye_camera b cm = (if b then m_camera_left cm else m_camera_right cm)"

definition even_size :: "Camera \<Rightarrow> bool" where
  "even_size c = (even (unat (cam_width c)) \<and> even (unat (cam_height c)))"

text \<open>The last camera sent for an eye.\<close>

definition last_camera :: "bool \<Rightarrow> Camera camera_call list \<Rightarrow> Camera option" where
  "last_camera b msgs = find (\<lambda>c. cam_is_left c = b) (rev (map (snd \<circ> snd) msgs))"

text \<open>Cameras and encoders in step, both sizes even.\<close>

definition cameras_ok :: "CameraManager \<Rightarrow> bool" where
  "cameras_ok cm = (camera_sync cm \<and> (\<forall>b. even_size (eye_camera b cm)))"

lemma find_append: "find P (xs @ ys) = (case find P xs of None \<Rightarrow> find P ys | Some x \<Rightarrow> Some x)"
  by (induction xs) simp_all

lemma last_camera_Cons:
  "last_camera b ((es, ed, c) # msgs) =
     (case last_camera b msgs of None \<Rightarrow> if cam_is_left c = b then Some c else None | Some d \<Rightarrow> Some d)"
  by (auto simp: last_camera_def find_append split: option.splits)

lemma even_size_make_even: "even_size (make_even c)"
  by (simp add: even_size_def even_make_even)

lemma message_handler_camera:
  assumes "parse payload = Some c" "message_handler parse es ed payload srv = (Inr u, logged, srv')"
    and ok: "cameras_ok (m_camera_manager srv)"
  shows "cameras_ok (m_camera_manager srv') \<and> (\<forall>b. eye_camera b (m_camera_manager srv') =
    (if cam_is_left c = b then make_even c else eye_camera b (m_camera_manager srv)))"
proof -
  let ?cm = "m_camera_manager srv" and ?cm' = "m_camera_manager srv'"
  have set: "(if cam_is_left c then set_camera_left es ed c ?cm else set_camera_right es ed c ?cm) = (Inr (), ?cm')"
    using assms(1,2) by (auto simp: message_handler_def Let_def split: prod.splits sum.splits if_splits)
  then have sync: "camera_sync ?cm'" using camera_sync_set ok by (metis cameras_ok_def)
  have even: "cam_width (eye_camera b ?cm) = cam_width c \<Longrightarrow> cam_height (eye_camera b ?cm) = cam_height c \<Longrightarrow> make_even c = c" for b
    using ok make_even_id[of c] by (auto simp: cameras_ok_def even_size_def dest: spec[of _ b])
  have cams: "eye_camera b ?cm' = (if cam_is_left c = b then make_even c else eye_camera b ?cm)" for b
  proof (cases "cam_is_left c")
    case True
    then have l: "set_camera_left es ed c ?cm = (Inr (), ?cm')" using set by simp
    show ?thesis
      using left_eye.set_success[OF l] left_eye.other_eye[OF l] even[of True] True by (cases b) (auto simp: eye_camera_def)
  next
    case False
    then have r: "set_camera_right es ed c ?cm = (Inr (), ?cm')" using set by simp
    show ?thesis
      using right_eye.set_success[OF r] right_eye.other_eye[OF r] even[of False] False by (cases b) (auto simp: eye_camera_def)
  qed
  then have "even_size (eye_camera b ?cm')" for b
    using ok even_size_make_even by (simp add: cameras_ok_def)
  then show ?thesis using sync cams by (simp add: cameras_ok_def)
qed

lemma camera_messages_cameras:
  assumes "\<forall>c. parse (encode c) = Some c" "cameras_ok (m_camera_manager srv)"
    and "camera_messages parse (map (\<lambda>(es, ed, c). (es, ed, encode c)) msgs) srv = (Inr u, srv')"
  shows "cameras_ok (m_camera_manager srv') \<and> (\<forall>b. eye_camera b (m_camera_manager srv') =
    (case last_camera b msgs of None \<Rightarrow> eye_camera b (m_camera_manager srv) | Some c \<Rightarrow> make_even c))"
  using assms(2,3)
proof (induction msgs arbitrary: srv)
  case Nil
  then show ?case by (simp add: last_camera_def)
next
  case (Cons m msgs)
  obtain es ed c where m: "m = (es, ed, c)" by (cases m)
  obtain u1 logged srv1 where h: "message_handler parse es ed (encode c) srv = (Inr u1, logged, srv1)"
    and rest: "camera_messages parse (map (\<lambda>(es, ed, c). (es, ed, encode c)) msgs) srv1 = (Inr u, srv')"
    using Cons.prems(2) m by (auto split: prod.splits sum.splits)
  note one = message_handler_camera[OF _ h Cons.prems(1), of c]
  then have "cameras_ok (m_camera_manager srv1)" using assms(1) by simp
  from Cons.IH[OF this rest] one assms(1) show ?case
    by (auto simp: m last_camera_Cons split: option.splits)
qed

lemma requests_tickets:
  "map (\<lambda>q. (req_index q, req_is_left q)) (requests n (s\<lparr>cameramgr := cm\<rparr>)) = map (\<lambda>q. (req_index q, req_is_left q)) (requests n s)"
proof (induction n arbitrary: s)
  case (Suc n)
  have "after_ticket (s\<lparr>cameramgr := cm\<rparr>) = (after_ticket s)\<lparr>cameramgr := cm\<rparr>"
    by (simp add: after_ticket_def fetch_frame_index_def fetch_is_left_def)
  then show ?case using Suc[of "after_ticket s"] by (simp add: next_request_def make_request_def fetch_frame_index_def)
qed simp

lemma requests_camera: "q \<in> set (requests n s) \<Longrightarrow> req_camera q = eye_camera (req_is_left q) (cameramgr s)"
  by (induction n arbitrary: s)
    (auto simp: next_request_def make_request_def eye_camera_def get_camera_left_def get_camera_right_def)

section \<open>Properties\<close>

text \<open>
  C19. The viewer's camera reaches the renderer. Whatever camera messages for both eyes are handled
  without an exception, starting with cameras and encoders in step and even sizes: every
  later request for an eye carries the last camera sent for that eye, with the size rounded
  down to even, or the old one if none was sent; cameras and encoders are in step again, so
  the encoders of the eye have just the size that is asked for; and the tickets are untouched.
\<close>

theorem camera_reaches_requests:
  assumes "\<forall>c. parse (encode c) = Some c" and "m_camera_manager srv = cameramgr s" and "cameras_ok (cameramgr s)"
    and "camera_messages parse (map (\<lambda>(es, ed, c). (es, ed, encode c)) msgs) srv = (Inr u, srv')"
    and "s' = s\<lparr>cameramgr := m_camera_manager srv'\<rparr>"
  shows "(\<forall>q \<in> set (requests n s'). req_camera q =
      (case last_camera (req_is_left q) msgs of None \<Rightarrow> eye_camera (req_is_left q) (cameramgr s) | Some c \<Rightarrow> make_even c))
    \<and> cameras_ok (cameramgr s')
    \<and> map (\<lambda>q. (req_index q, req_is_left q)) (requests n s') = map (\<lambda>q. (req_index q, req_is_left q)) (requests n s)"
proof -
  have ok: "cameras_ok (m_camera_manager srv)" using assms(2,3) by simp
  have cm: "cameramgr s' = m_camera_manager srv'" using assms(5) by simp
  note res = camera_messages_cameras[OF assms(1) ok assms(4)]
  have "req_camera q = (case last_camera (req_is_left q) msgs of None \<Rightarrow> eye_camera (req_is_left q) (cameramgr s)
      | Some c \<Rightarrow> make_even c)" if "q \<in> set (requests n s')" for q
    using requests_camera[OF that] res unfolding cm assms(2) by metis
  then show ?thesis using res cm assms(5) requests_tickets by simp
qed

definition demo_camera_state :: "CameraManager \<Rightarrow> server_state" where
  "demo_camera_state cm = demo_server\<lparr>sv_is_left := 1, cameramgr := cm\<rparr>"

lemma demo_cameras_ok: "cameras_ok demo_manager"
  using demo_manager_sync
  by (simp add: cameras_ok_def even_size_def eye_camera_def demo_manager_def CameraManager_new_def Camera_default_def)

theorem camera_reaches_requests_witness:
  "\<exists>srv'. camera_messages decode_camera [(demo_env, demo_env, encode_camera demo_camera)]
       (CameraControlServer_new demo_manager 9998) = (Inr (), srv')
    \<and> req_is_left (next_request (demo_camera_state (m_camera_manager srv')))
    \<and> req_camera (next_request (demo_camera_state (m_camera_manager srv'))) = make_even demo_camera"
proof -
  let ?srv = "CameraControlServer_new demo_manager 9998"
  obtain cm where "set_camera_left demo_env demo_env demo_camera demo_manager = (Inr (), cm)"
    using demo_set_camera_left by blast
  then have "\<exists>srv'. camera_messages decode_camera [(demo_env, demo_env, encode_camera demo_camera)] ?srv = (Inr (), srv')"
    by (simp add: message_handler_def decode_encode_camera demo_camera_def CameraControlServer_new_def Let_def)
  then obtain srv' where run: "camera_messages decode_camera
      (map (\<lambda>(es, ed, c). (es, ed, encode_camera c)) [(demo_env, demo_env, demo_camera)]) ?srv = (Inr (), srv')" by auto
  let ?q = "next_request (demo_camera_state (m_camera_manager srv'))"
  have s: "demo_camera_state (m_camera_manager srv') = (demo_camera_state demo_manager)\<lparr>cameramgr := m_camera_manager srv'\<rparr>"
    by (simp add: demo_camera_state_def)
  have left: "req_is_left ?q"
    by (simp add: demo_camera_state_def demo_server_def next_request_def make_request_def fetch_frame_index_def)
  have "?q \<in> set (requests 1 (demo_camera_state (m_camera_manager srv')))" by simp
  moreover have "m_camera_manager ?srv = cameramgr (demo_camera_state demo_manager)" "cameras_ok (cameramgr (demo_camera_state demo_manager))"
    by (simp_all add: CameraControlServer_new_def demo_camera_state_def demo_cameras_ok)
  ultimately have "req_camera ?q = make_even demo_camera"
    using camera_reaches_requests[OF _ _ _ run s, of 1] left decode_encode_camera
    by (auto simp: last_camera_def demo_camera_def)
  then show ?thesis using run left by auto
qed

end
