(* ===== verification/Text_Lock.thy ===== *)
theory Text_Lock
  imports Encode_Threads Monitor
begin

text \<open>
  \<open>RenderTextContext\<close> is shared by the processing threads of both eyes. \<open>render_string_to_frame\<close> runs under
  \<open>m_mutex\<close>, with a \<open>wait\<close> whose predicate is always true: an instance of the monitor that never sleeps.
  The overlays of frames that are drawn at the same time do not mix, although all of them go
  through the one glyph slot of the face.
\<close>

section \<open>The calls\<close>

datatype text_op = Draw FrameManager RenderPosition string

fun op_image :: "text_op \<Rightarrow> ptr" where
  "op_image (Draw fm opt content) = data0 (m_data fm)"

type_synonym text_state = "RenderTextContext \<times> heap"

definition text_guard :: "text_op \<Rightarrow> text_state \<Rightarrow> bool" where
  "text_guard op st = True"

text \<open>The call under the lock; a call that fails (an access outside a buffer) leaves its result.\<close>

fun text_body :: "(char \<Rightarrow> glyph \<Rightarrow> int \<times> glyph) \<Rightarrow> text_op \<Rightarrow> text_state \<Rightarrow> text_state \<times> unit res" where
  "text_body load (Draw fm opt content) st =
     (case draw_text load fm opt content st of Inl e \<Rightarrow> (st, Inl e) | Inr st' \<Rightarrow> (st', Inr ()))"

text \<open>Nothing is notified.\<close>

definition text_wakes :: "text_op \<Rightarrow> wake" where
  "text_wakes op = WakeOne"

definition text_wakeset :: "text_op \<Rightarrow> text_op \<Rightarrow> bool" where
  "text_wakeset op op' = False"

definition text_step ::
  "(char \<Rightarrow> glyph \<Rightarrow> int \<times> glyph) \<Rightarrow> (text_state, text_op, unit res) monitor \<Rightarrow>
   (text_state, text_op, unit res) monitor \<Rightarrow> bool" where
  "text_step load = mon_step text_guard (text_body load) text_wakes text_wakeset"

definition text_reach ::
  "(char \<Rightarrow> glyph \<Rightarrow> int \<times> glyph) \<Rightarrow> text_state \<Rightarrow> (text_state, text_op, unit res) monitor \<Rightarrow> bool" where
  "text_reach load st0 = reach (\<lambda>m. m = monitor_init st0) (text_step load)"

text \<open>The calls of a processing thread for one frame, in the order of the source.\<close>

definition overlay_ops :: "clock_time \<Rightarrow> RenderedFrame \<Rightarrow> text_op list" where
  "overlay_ops now f =
     (let src = m_source_avframe_scene f in
      [Draw src RENDER_POSITION_CENTER (cam_matrix_text (cam_matrix (get_cam f))),
       Draw src RENDER_POSITION_LEFT_BOTTOM (index_text (frame_index f)),
       Draw src RENDER_POSITION_LEFT_TOP (timestamp now),
       Draw src RENDER_POSITION_RIGHT_TOP (direction_text (frame_is_left f))])"

text \<open>Calls one after the other, up to the first that fails.\<close>

fun draw_all :: "(char \<Rightarrow> glyph \<Rightarrow> int \<times> glyph) \<Rightarrow> text_op list \<Rightarrow> text_state \<Rightarrow> text_state res" where
  "draw_all load [] st = Inr st"
| "draw_all load (Draw fm opt content # ops) st =
     bindE (draw_text load fm opt content st) (draw_all load ops)"

lemma overlay_draw_all: "overlay load now f st = draw_all load (overlay_ops now f) st"
proof -
  have unit: "bindE r Inr = r" for r :: "text_state res" by (cases r) simp_all
  have "draw_all load [] = Inr"
    "draw_all load (Draw fm opt content # ops) = (\<lambda>st. bindE (draw_text load fm opt content st) (draw_all load ops))"
    for fm opt content ops by (rule ext, simp)+
  then show ?thesis by (simp add: overlay_def overlay_ops_def Let_def unit)
qed

section \<open>The life of the FreeType library\<close>

text \<open>
  Constructor and destructor with the number of FreeType libraries that are not given back:
  \<open>FT_Init_FreeType\<close> makes one when it returns 0, \<open>FT_Done_FreeType\<close> releases it. After a failed
  initialisation, which the constructor does not notice, \<open>_library\<close> was never set.
\<close>

definition RenderTextContext_new_lib :: "ft_env \<Rightarrow> string \<Rightarrow> nat \<Rightarrow> RenderTextContext res \<times> nat" where
  "RenderTextContext_new_lib ft font_location live =
     (RenderTextContext_new ft font_location, if FT_Init_FreeType ft = 0 then Suc live else live)"

definition RenderTextContext_delete :: "ft_env \<Rightarrow> nat \<Rightarrow> nat res" where
  "RenderTextContext_delete ft live = (if FT_Init_FreeType ft = 0 then Inr (live - 1) else Inl (InvalidFree 0))"

text \<open>
  An object that was built gives its library back; a constructor that throws after the
  initialisation loses it, since no destructor runs; a positive error code of the initialisation is
  only felt in the destructor.
\<close>

lemma text_library_balance:
  assumes "RenderTextContext_new_lib ft font live = (r, live')"
  shows "case r of
      Inr ctx \<Rightarrow> 0 \<le> FT_Init_FreeType ft
        \<and> RenderTextContext_delete ft live' = (if FT_Init_FreeType ft = 0 then Inr live else Inl (InvalidFree 0))
    | Inl e \<Rightarrow> live' = (if FT_Init_FreeType ft = 0 then Suc live else live)"
  using assms
  by (auto simp: RenderTextContext_new_lib_def RenderTextContext_delete_def RenderTextContext_new_def split: sum.splits if_splits)

section \<open>The monitor\<close>

interpretation text_mon: monitor_data text_guard "text_body load" text_wakes text_wakeset st0 "\<lambda>_. True"
  by unfold_locales simp_all

lemma text_reach_mon: "text_reach load st0 = text_mon.mreach load st0"
  by (simp add: text_reach_def text_step_def)

text \<open>Nobody waits for anything but the mutex.\<close>

lemma text_no_sleeper: "text_reach load st0 m \<Longrightarrow> phases m t \<noteq> Sleeping op"
proof -
  have step: "mon_step text_guard (text_body load) text_wakes text_wakeset m m' \<Longrightarrow>
      \<forall>t op. phases m t \<noteq> Sleeping op \<Longrightarrow> \<forall>t op. phases m' t \<noteq> Sleeping op" for m m'
  proof (induction rule: mon_step.induct)
    case (pass m t op b d' r ph)
    then show ?case using notify_not_sleeping[OF pass(4)] by auto
  qed (auto simp: text_guard_def)
  have "text_reach load st0 m \<Longrightarrow> \<forall>t op. phases m t \<noteq> Sleeping op"
    unfolding text_reach_def text_step_def
    by (induction rule: reach.induct) (use step in \<open>auto simp: monitor_init_def\<close>)
  then show "text_reach load st0 m \<Longrightarrow> phases m t \<noteq> Sleeping op" by blast
qed

section \<open>Frames do not mix\<close>

text \<open>\<open>FT_Load_Char\<close> replaces what the slot held.\<close>

definition replaces_slot :: "(char \<Rightarrow> glyph \<Rightarrow> int \<times> glyph) \<Rightarrow> bool" where
  "replaces_slot load = (\<forall>ch slot slot'. snd (load ch slot) = snd (load ch slot'))"

lemma surface_render_chars:
  assumes "replaces_slot load"
  shows "surface_of (render_chars load width height line_x pen_x pen_y slot content s)
    = surface_of (render_chars load width height line_x pen_x pen_y slot' content s)"
proof (cases "\<exists>ch \<in> set content. ch \<noteq> CHR 0x0A")
  case True
  then show ?thesis
  proof (induction content arbitrary: line_x pen_x pen_y)
    case (Cons ch content)
    have "snd (load ch slot) = snd (load ch slot')" using assms by (simp add: replaces_slot_def)
    then show ?case using Cons by (cases "ch = CHR 0x0A") (simp_all add: Let_def)
  qed simp
next
  case False
  then show ?thesis by (induction content arbitrary: pen_x pen_y) (simp_all add: surface_of_def)
qed

text \<open>Two states that agree on one image, and on whether there is a face.\<close>

definition agree :: "ptr \<Rightarrow> text_state \<Rightarrow> text_state \<Rightarrow> bool" where
  "agree p = (\<lambda>(ctx, h) (ctx', h'). cells h p = cells h' p \<and> (face ctx = None \<longleftrightarrow> face ctx' = None))"

lemma draw_text_cases:
  "draw_text load fm opt content (ctx, h) =
     (case (cells h (data0 (m_data fm)), face ctx) of
        (Some s, Some slot) \<Rightarrow>
          bindE (render_chars load (fc_width (m_context fm)) (fc_height (m_context fm))
              (fst (pen_start opt (fc_width (m_context fm)) (fc_height (m_context fm))))
              (fst (pen_start opt (fc_width (m_context fm)) (fc_height (m_context fm))))
              (snd (pen_start opt (fc_width (m_context fm)) (fc_height (m_context fm)))) slot content s)
            (\<lambda>(slot', t). Inr (ctx\<lparr>face := Some slot'\<rparr>, h\<lparr>cells := (cells h)(data0 (m_data fm) \<mapsto> t)\<rparr>))
      | _ \<Rightarrow> Inl NullPointer)"
  by (auto simp: draw_text_def render_string_to_frame_def Let_def bindE_def split: option.splits sum.splits prod.splits)

text \<open>A call on another image changes nothing that matters here.\<close>

lemma draw_other:
  assumes "draw_text load fm opt content st = Inr st'" "data0 (m_data fm) \<noteq> p"
  shows "agree p st st'"
  using assms by (cases st) (auto simp: draw_text_cases agree_def bindE_Inr_iff split: option.splits)

lemma draw_same:
  assumes "replaces_slot load" "agree p st st0" "draw_text load fm opt content st = Inr st'" "data0 (m_data fm) = p"
  shows "\<exists>st0'. draw_text load fm opt content st0 = Inr st0' \<and> agree p st' st0'"
proof -
  obtain ctx h ctx0 h0 where st: "st = (ctx, h)" "st0 = (ctx0, h0)" by fastforce
  obtain s slot slot0 where s: "cells h p = Some s" "face ctx = Some slot" "face ctx0 = Some slot0" "cells h0 p = Some s"
    using assms(2-4) st by (auto simp: draw_text_cases agree_def split: option.splits)
  let ?W = "fc_width (m_context fm)" and ?H = "fc_height (m_context fm)"
  let ?pen = "pen_start opt ?W ?H"
  let ?r = "\<lambda>slot. render_chars load ?W ?H (fst ?pen) (fst ?pen) (snd ?pen) slot content s"
  obtain slot' t where r: "?r slot = Inr (slot', t)" and st': "st' = (ctx\<lparr>face := Some slot'\<rparr>, h\<lparr>cells := (cells h)(p \<mapsto> t)\<rparr>)"
    using assms(3,4) st s by (auto simp: draw_text_cases bindE_Inr_iff)
  have "surface_of (?r slot0) = Inr t" using surface_render_chars[OF assms(1)] r by (metis surface_of_simps(1))
  then obtain slot0' where "?r slot0 = Inr (slot0', t)" by (auto simp: surface_of_def bindE_Inr_iff)
  then show ?thesis using st st' s assms(4) by (auto simp: draw_text_cases agree_def)
qed

lemma agree_trans: "agree p a b \<Longrightarrow> agree p b c \<Longrightarrow> agree p a c"
  by (auto simp: agree_def split: prod.splits)

lemma agree_sym: "agree p a b \<Longrightarrow> agree p b a"
  by (auto simp: agree_def split: prod.splits)

lemma own_calls:
  assumes "replaces_slot load" "agree p st st0" "draw_all load ops st = Inr st'"
  shows "\<exists>st0'. draw_all load (filter (\<lambda>op. op_image op = p) ops) st0 = Inr st0' \<and> agree p st' st0'"
  using assms(2,3)
proof (induction ops arbitrary: st st0)
  case (Cons op ops)
  obtain fm opt content where op: "op = Draw fm opt content" by (cases op)
  obtain st1 where st1: "draw_text load fm opt content st = Inr st1" "draw_all load ops st1 = Inr st'"
    using Cons.prems(2) by (auto simp: op bindE_Inr_iff)
  show ?case
  proof (cases "op_image op = p")
    case True
    then show ?thesis using draw_same[OF assms(1) Cons.prems(1) st1(1)] Cons.IH[OF _ st1(2)] by (auto simp: op)
  next
    case False
    then have "agree p st1 st0"
      using draw_other[OF st1(1)] Cons.prems(1) agree_trans agree_sym by (metis op op_image.simps)
    then show ?thesis using Cons.IH[OF _ st1(2)] False by simp
  qed
qed auto

text \<open>Calls that did not fail, as the monitor completes them.\<close>

definition all_drawn :: "(text_op \<times> unit res res) list \<Rightarrow> bool" where
  "all_drawn hist = list_all (\<lambda>c. snd c = Inr (Inr ())) hist"

lemma run_atomic_draw_all:
  assumes "run_atomic text_guard (text_body load) ops st = (st', rs)" "list_all (\<lambda>r. r = Inr (Inr ())) rs"
  shows "draw_all load ops st = Inr st'"
  using assms
proof (induction ops arbitrary: st rs)
  case (Cons op ops)
  obtain fm opt content where op: "op = Draw fm opt content" by (cases op)
  show ?case
    using Cons.prems Cons.IH
    by (auto simp: op exec_atomic_def text_guard_def Let_def split: prod.splits sum.splits)
qed simp

lemma text_reach_draw_all:
  assumes "text_reach load st0 m" "all_drawn (history m)"
  shows "draw_all load (map fst (history m)) st0 = Inr (shared m)"
proof -
  have "run_atomic text_guard (text_body load) (map fst (history m)) st0 = (shared m, map snd (history m))"
    using text_mon.atomic_reach[of st0 load m] assms(1) by (simp add: text_reach_mon atomic_from_def)
  then show ?thesis by (rule run_atomic_draw_all) (use assms(2) in \<open>simp add: all_drawn_def list_all_iff\<close>)
qed

section \<open>Properties\<close>

text \<open>
  C23. Overlays do not mix. Whatever calls of other threads come between the four calls a processing
  thread makes for a frame, the image of the frame is the one that the four texts of this frame
  alone leave on it; at most one thread is drawing at any time, and none waits for more than
  the mutex.
\<close>

theorem overlay_unmixed:
  assumes "text_reach load st0 m" and "all_drawn (history m)" and "replaces_slot load"
    and "p = data0 (m_data (m_source_avframe_scene f))"
    and "filter (\<lambda>op. op_image op = p) (map fst (history m)) = overlay_ops now f"
  shows "(\<exists>ctx h. overlay load now f st0 = Inr (ctx, h) \<and> cells (snd (shared m)) p = cells h p)
    \<and> (testing (phases m t) \<and> testing (phases m u) \<longrightarrow> t = u) \<and> phases m t \<noteq> Sleeping op"
proof -
  have "agree p st0 st0" by (simp add: agree_def split: prod.splits)
  from own_calls[OF assms(3) this text_reach_draw_all[OF assms(1,2)]]
  obtain st where "overlay load now f st0 = Inr st" "agree p (shared m) st"
    by (auto simp: assms(5) overlay_draw_all)
  then have "\<exists>ctx h. overlay load now f st0 = Inr (ctx, h) \<and> cells (snd (shared m)) p = cells h p"
    by (cases st) (auto simp: agree_def split: prod.splits)
  then show ?thesis
    using text_mon.one_owner[of st0 load m t u] text_no_sleeper[OF assms(1)] assms(1) by (simp add: text_reach_mon)
qed

text \<open>Calls that succeed one after the other are a run of the monitor, each by a thread of its own.\<close>

lemma draw_all_append: "draw_all load (ops @ ops') st = bindE (draw_all load ops st) (draw_all load ops')"
  by (induction load ops st rule: draw_all.induct) (auto simp: bindE_def split: sum.splits)

lemma text_reach_calls:
  "draw_all load ops st0 = Inr st \<Longrightarrow> \<exists>m. text_reach load st0 m \<and> map fst (history m) = ops \<and> all_drawn (history m)
     \<and> shared m = st \<and> owner m = None \<and> (\<forall>t \<ge> length ops. phases m t = Idle)"
proof (induction ops arbitrary: st rule: rev_induct)
  case Nil
  have "text_reach load st0 (monitor_init st0)" by (simp add: text_reach_def reach_start)
  then show ?case
    using Nil by (intro exI[of _ "monitor_init st0"]) (simp add: monitor_init_def all_drawn_def)
next
  case (snoc op ops)
  obtain fm opt content where op: "op = Draw fm opt content" by (cases op)
  obtain st1 where st1: "draw_all load ops st0 = Inr st1" "draw_text load fm opt content st1 = Inr st"
    using snoc.prems by (auto simp: draw_all_append op bindE_Inr_iff)
  obtain m where m: "text_reach load st0 m" "map fst (history m) = ops" "all_drawn (history m)" "shared m = st1"
      "owner m = None" "\<forall>t \<ge> length ops. phases m t = Idle"
    using snoc.IH[OF st1(1)] by blast
  let ?t = "length ops"
  let ?m = "m\<lparr>shared := st, owner := None, phases := (phases m)(?t := Returned op (Inr (Inr ()))),
      history := history m @ [(op, Inr (Inr ()))]\<rparr>"
  have b: "text_body load op (shared m) = (st, Inr ())" using st1(2) m(4) by (simp add: op)
  have "phases m ?t = Idle" using m(6) by blast
  from solo_pass[OF m(1)[unfolded text_reach_def text_step_def] this m(5) text_no_sleeper[OF m(1)] _ b]
  have "text_reach load st0 ?m" by (simp add: text_reach_def text_step_def text_guard_def)
  then show ?case using m(2,3,6) by (intro exI[of _ ?m]) (simp add: all_drawn_def)
qed

definition demo_image :: "ptr \<Rightarrow> FrameManager" where
  "demo_image i = (m_source_avframe_scene (fst demo_text_frame))
     \<lparr>m_data := (m_data (m_source_avframe_scene (fst demo_text_frame)))\<lparr>data0 := i\<rparr>\<rparr>"

definition demo_images :: heap where
  "demo_images = heap_empty\<lparr>cells := [1 \<mapsto> replicate 12 0, 2 \<mapsto> replicate 12 0]\<rparr>"

lemma demo_image_draws:
  assumes "face ctx \<noteq> None" "image_fits h (demo_image 1)" "image_fits h (demo_image 2)" "i = 1 \<or> i = 2" "length content \<le> 16384"
  shows "\<exists>ctx' h'. draw_text (\<lambda>ch g. (0, demo_glyph)) (demo_image i) opt content (ctx, h) = Inr (ctx', h')
    \<and> face ctx' \<noteq> None \<and> image_fits h' (demo_image 1) \<and> image_fits h' (demo_image 2)"
proof -
  have g: "\<forall>ch slot. glyph_small (snd ((\<lambda>ch g. (0 :: int, demo_glyph)) (ch :: char) (slot :: glyph)))"
    by (simp add: demo_glyph_def glyph_small_def glyph_ok_def)
  have d: "drawable (demo_image i)" using demo_text_frame_facts(4) by (simp add: drawable_def demo_image_def)
  have fits: "image_fits h (demo_image i)" using assms(2-4) by auto
  obtain ctx' h' where r: "draw_text (\<lambda>ch g. (0, demo_glyph)) (demo_image i) opt content (ctx, h) = Inr (ctx', h')"
      "face ctx' \<noteq> None" "image_fits h' (demo_image i)"
    using draw_text_ok[OF assms(1) fits d assms(5) g] by blast
  have "image_fits h' (demo_image j)" if "j \<noteq> i" "j = 1 \<or> j = 2" for j
    using draw_other[OF r(1), of j] that assms(2,3) by (auto simp: agree_def image_fits_def demo_image_def)
  then show ?thesis using r assms(4) by (cases "i = 1") auto
qed

fun demo_op :: "text_op \<Rightarrow> bool" where
  "demo_op (Draw fm opt content) = ((fm = demo_image 1 \<or> fm = demo_image 2) \<and> length content \<le> 16384)"

lemma demo_draws:
  assumes "face ctx \<noteq> None" "image_fits h (demo_image 1)" "image_fits h (demo_image 2)"
    and "list_all demo_op ops"
  shows "\<exists>st. draw_all (\<lambda>ch g. (0, demo_glyph)) ops (ctx, h) = Inr st"
  using assms
proof (induction ops arbitrary: ctx h)
  case (Cons op ops)
  then obtain i opt content where op: "op = Draw (demo_image i) opt content" "i = 1 \<or> i = 2" "length content \<le> 16384"
    by (cases op) auto
  obtain ctx' h' where "draw_text (\<lambda>ch g. (0, demo_glyph)) (demo_image i) opt content (ctx, h) = Inr (ctx', h')"
      "face ctx' \<noteq> None" "image_fits h' (demo_image 1)" "image_fits h' (demo_image 2)"
    using demo_image_draws[OF Cons.prems(1-3) op(2,3)] by blast
  then show ?case using Cons by (simp add: op)
qed simp

definition demo_unmixed_frame :: RenderedFrame where
  "demo_unmixed_frame = (fst demo_text_frame)\<lparr>m_source_avframe_scene := demo_image 1\<rparr>"

theorem overlay_unmixed_witness:
  "\<exists>m ctx h. text_reach (\<lambda>ch g. (0, demo_glyph)) (demo_text, demo_images) m \<and> length (history m) = 6
     \<and> overlay (\<lambda>ch g. (0, demo_glyph)) demo_clock demo_unmixed_frame (demo_text, demo_images) = Inr (ctx, h)
     \<and> cells (snd (shared m)) 1 = cells h 1"
proof -
  let ?load = "\<lambda>ch g. (0, demo_glyph)" and ?f = demo_unmixed_frame
  let ?own = "overlay_ops demo_clock ?f" and ?other = "Draw (demo_image 2) RENDER_POSITION_CENTER ''other''"
  define ops where "ops = [?own ! 0, ?other, ?own ! 1, ?own ! 2, ?other, ?own ! 3]"
  have img: "data0 (m_data (demo_image i)) = i" for i by (simp add: demo_image_def)
  have src: "m_source_avframe_scene ?f = demo_image 1" by (simp add: demo_unmixed_frame_def)
  have fits: "image_fits demo_images (demo_image i)" if "i = 1 \<or> i = 2" for i
    using demo_text_frame_facts(3) demo_source_size that by (auto simp: image_fits_def demo_images_def demo_image_def)
  have cam: "length (cam_matrix (get_cam ?f)) \<le> 300"
    using demo_text_frame_facts(5) by (simp add: demo_unmixed_frame_def get_cam_def)
  have short: "list_all demo_op ops"
    using overlay_texts_short[OF cam, of demo_clock] by (simp add: ops_def overlay_ops_def src Let_def demo_clock_def)
  have "face demo_text \<noteq> None" by (simp add: demo_text_def)
  from demo_draws[OF this fits fits short] obtain st where "draw_all ?load ops (demo_text, demo_images) = Inr st" by auto
  from text_reach_calls[OF this] obtain m where m: "text_reach ?load (demo_text, demo_images) m" "map fst (history m) = ops"
    "all_drawn (history m)" by blast
  have own: "filter (\<lambda>op. op_image op = 1) (map fst (history m)) = ?own"
    unfolding m(2) by (simp add: ops_def overlay_ops_def src img Let_def)
  have "1 = data0 (m_data (m_source_avframe_scene ?f))" by (simp add: src demo_image_def)
  moreover have "replaces_slot ?load" by (simp add: replaces_slot_def)
  moreover have "length (history m) = 6" using arg_cong[OF m(2), of length] by (simp add: ops_def)
  ultimately show ?thesis using overlay_unmixed[OF m(1,3) _ _ own] m(1) by blast
qed

end
