(* ===== verification/Program_Run.thy ===== *)
theory Program_Run
  imports Main_Config Shutdown
begin

text \<open>
  The program between the start of its threads and the last \<open>join\<close>: every thread of \<open>main_threads\<close> with
  the thread function, the objects and the script it runs on, and \<open>main\<close> with these threads.
  When the program ends after a shutdown request, and when it does not.
\<close>

section \<open>The threads with their objects\<close>

text \<open>
  What the threads meet: for each a script of its loop (the shutdown flag as its loop tests
  read it, its inputs, and what the other threads do to the shared objects in between), and the
  clients that come (\<open>True\<close>) and go (\<open>False\<close>) at a server: at a packet server after its packet thread
  has returned, at the camera server during the whole run.
\<close>

record scripts =
  manage_script :: "string \<Rightarrow> (bool \<times> attempt) list"
  process_script :: "bool \<Rightarrow> (bool \<times> clock_time \<times> u64
     \<times> (RenderedFrame FrameQueue \<times> encode_state \<Rightarrow> RenderedFrame FrameQueue \<times> encode_state)) list"
  receive_script :: "stream \<Rightarrow> (bool \<times> bool \<times> (bool \<times> (AVCodecContext \<Rightarrow> int \<times> AVPacket \<times> AVCodecContext)) list
     \<times> (AVCodecContextManager \<times> WebSocketServer \<Rightarrow> AVCodecContextManager \<times> WebSocketServer)) list"
  send_script :: "bool \<Rightarrow> (bool \<times> u64 \<times> (send_state \<Rightarrow> send_state)) list"
  stats_script :: "(bool \<times> u64 \<times> u64) list"
  late_clients :: "stream \<Rightarrow> (bool \<times> connection_hdl) list"
  camera_clients :: "(bool \<times> connection_hdl) list"

record libraries =
  client_lib :: client_env
  inet_addr_lib :: "string \<Rightarrow> u32"
  load_lib :: "char \<Rightarrow> glyph \<Rightarrow> int \<times> glyph"
  av_send_lib :: av_send_fun
  send_ok_lib :: "connection_hdl \<Rightarrow> bool"

fun stream_index :: "stream \<Rightarrow> nat" where
  "stream_index SceneLeft = 0"
| "stream_index DepthLeft = 1"
| "stream_index SceneRight = 2"
| "stream_index DepthRight = 3"

definition process_start :: process_vars where
  "process_start = \<lparr>p_index = 0, p_elapsed = 0, p_logged = []\<rparr>"

definition send_start :: send_vars where
  "send_start = \<lparr>s_frame_index = 0, s_index = 0, s_elapsed = 0, s_logged = [], s_discarded = []\<rparr>"

fun forget :: "'s round \<Rightarrow> unit round" where
  "forget (Next s) = Next ()"
| "forget (Exit s) = Exit ()"
| "forget (Throws e s) = Throws e ()"
| "forget Blocked = Blocked"

text \<open>How a thread ends.\<close>

fun thread_result :: "libraries \<Rightarrow> scripts \<Rightarrow> program \<Rightarrow> thread \<Rightarrow> unit round" where
  "thread_result lib sc p (SocketMain renderers scene depth) =
     socket_main_thread (\<lambda>renderer.
       socket_manage_thread (socket_env (SocketMain renderers scene depth) (client_lib lib)) (inet_addr_lib lib)
         renderer (manage_script sc renderer) (manager_start, frame_state p)) renderers"
| "thread_result lib sc p (ProcessFrame codec q m) =
     forget (process_frame_thread (load_lib lib) (av (client_lib lib)) (process_script sc q)
       (eye_queue q (frame_state p), process_start,
        \<lparr>enc_map = frame_maps p m, enc_text = etctx p, enc_heap = sv_heap (frame_state p)\<rparr>))"
| "thread_result lib sc p (ReceivePacket codec server) =
     forget (receive_packet_thread (send_ok_lib lib) (receive_script sc codec)
       (False, codec_of codec (m_codecs (cameramgr (frame_state p))), packet_servers p ! stream_index server))"
| "thread_result lib sc p (SendFrame scene depth m) =
     forget (send_frame_thread (av (client_lib lib)) (av_send_lib lib) (send_script sc m)
       (send_start, \<lparr>snd_scene = codec_of scene (m_codecs (cameramgr (frame_state p))),
          snd_depth = codec_of depth (m_codecs (cameramgr (frame_state p))),
          snd_map = frame_maps p m, snd_heap = sv_heap (frame_state p)\<rparr>))"
| "thread_result lib sc p EncodeStats = forget (encode_stats_thread (stats_script sc) stats_start)"

text \<open>
  The program's servers after the joins: a packet server as its packet thread has left it and the
  clients have changed it since, and the camera server as its clients have. The other objects are only
  destroyed.
\<close>

definition client_events :: "(bool \<times> connection_hdl) list \<Rightarrow> WebSocketServer \<Rightarrow> WebSocketServer" where
  "client_events = fold (\<lambda>(comes, hdl). if comes then open_handler hdl else close_handler hdl)"

definition packet_server_after :: "libraries \<Rightarrow> scripts \<Rightarrow> program \<Rightarrow> stream \<Rightarrow> WebSocketServer" where
  "packet_server_after lib sc p c =
     (let start = packet_servers p ! stream_index c in
      case receive_packet_thread (send_ok_lib lib) (receive_script sc c)
             (False, codec_of c (m_codecs (cameramgr (frame_state p))), start) of
        Exit (_, _, server) \<Rightarrow> client_events (late_clients sc c) server
      | _ \<Rightarrow> start)"

definition objects_after :: "libraries \<Rightarrow> scripts \<Rightarrow> program \<Rightarrow> program" where
  "objects_after lib sc p =
     p\<lparr>packet_servers := map (packet_server_after lib sc p) main_streams,
       ccsvr := (ccsvr p)\<lparr>cc_server := client_events (camera_clients sc) (cc_server (ccsvr p))\<rparr>\<rparr>"

text \<open>The joins at the end of \<open>main\<close>.\<close>

definition run_threads :: "libraries \<Rightarrow> scripts \<Rightarrow> thread list \<Rightarrow> program \<Rightarrow> program round" where
  "run_threads lib sc threads p =
     (case join_threads (thread_result lib sc p) threads of
        Exit _ \<Rightarrow> Exit (objects_after lib sc p)
      | Throws e _ \<Rightarrow> Throws e (objects_after lib sc p)
      | _ \<Rightarrow> Blocked)"

section \<open>Connections that end\<close>

text \<open>A connection that is closed at some time, in both directions.\<close>

fun hard_failure :: "send_event \<Rightarrow> bool" where
  "hard_failure (Room n) = False"
| "hard_failure (SendFail e e') = (e \<noteq> EAGAIN)"

definition closing :: "send_event list \<Rightarrow> recv_event list \<Rightarrow> bool" where
  "closing outs evs = (list_ex hard_failure outs \<and> Eof \<in> set evs)"

lemma send_loop_closing:
  "list_ex hard_failure outs \<Longrightarrow> \<exists>r wire rest. socket_send_loop buf sent outs = Some (r, wire, rest)
     \<and> (r < 0 \<or> list_ex hard_failure rest)"
proof (induction buf sent outs rule: socket_send_loop.induct)
  case (2 buf sent ev outs)
  show ?case
  proof (cases ev)
    case (Room n)
    then show ?thesis
      using "2.IH"(1)[OF _ Room refl] "2.prems" by (cases "sent < length buf") (auto simp: Let_def)
  next
    case (SendFail e e')
    then show ?thesis
      using "2.IH"(2)[OF _ SendFail] "2.prems" by (cases "sent < length buf"; cases "e = EAGAIN") auto
  qed
qed simp

lemma receive_loop_closing:
  "Eof \<in> set evs \<Longrightarrow> \<exists>r data rest. socket_receive_loop sz got evs = Some (r, data, rest) \<and> Eof \<in> set rest"
  by (induction sz got evs rule: socket_receive_loop.induct) (auto simp: Let_def split: recv_event.splits)

lemma send_lpf_closing:
  assumes "list_ex hard_failure outs"
  shows "\<exists>r wire rest. socket_send_blocking_lpf buf outs = Some (r, wire, rest) \<and> (r < 0 \<or> list_ex hard_failure rest)"
proof -
  obtain r wire rest where 1: "socket_send_blocking (size_bytes (of_nat (length buf))) outs = Some (r, wire, rest)"
      "r < 0 \<or> list_ex hard_failure rest"
    using send_loop_closing[OF assms] unfolding socket_send_blocking_def by blast
  show ?thesis
  proof (cases "r < 0")
    case False
    then show ?thesis
      using 1 send_loop_closing[of rest buf 0] by (auto simp: socket_send_blocking_lpf_def socket_send_blocking_def)
  qed (use 1 in \<open>simp add: socket_send_blocking_lpf_def\<close>)
qed

lemma receive_lpf_closing:
  assumes "Eof \<in> set evs"
  shows "\<exists>r rest. socket_receive_blocking_lpf alloc evs = Some (r, rest) \<and> Eof \<in> set rest"
proof -
  obtain r data rest where 1: "socket_receive_blocking 8 evs = Some (r, data, rest)" "Eof \<in> set rest"
    using receive_loop_closing[OF assms] unfolding socket_receive_blocking_def by blast
  obtain r' data' rest' where "socket_receive_blocking (unat (bytes_size data)) rest = Some (r', data', rest')" "Eof \<in> set rest'"
    using receive_loop_closing[OF 1(2)] unfolding socket_receive_blocking_def by blast
  then show ?thesis using 1 by (auto simp: socket_receive_blocking_lpf_def Let_def)
qed

definition client_closing :: "client \<Rightarrow> bool" where
  "client_closing c = ((c_ret c < 0 \<or> list_ex hard_failure (c_outs c)) \<and> Eof \<in> set (c_evs c))"

lemma client_round_closing:
  assumes "client_closing c"
  shows "case socket_client_round env ms (c, s) of Next (c', s') \<Rightarrow> client_closing c' | Blocked \<Rightarrow> False | _ \<Rightarrow> True"
proof (cases "c_ret c < 0")
  case True
  then show ?thesis by (simp add: socket_client_round_def)
next
  case False
  then have h: "list_ex hard_failure (c_outs c)" "Eof \<in> set (c_evs c)" using assms by (auto simp: client_closing_def)
  obtain r wire rest where w: "socket_send_blocking_lpf (serialize env (next_request s)) (c_outs c) = Some (r, wire, rest)"
      "r < 0 \<or> list_ex hard_failure rest"
    using send_lpf_closing[OF h(1)] by blast
  obtain res evs where e: "socket_receive_blocking_lpf (alloc_ok env) (c_evs c) = Some (res, evs)" "Eof \<in> set evs"
    using receive_lpf_closing[OF h(2)] by blast
  show ?thesis
    unfolding client_round_unfold[OF False w(1)]
    using w(2) h(2) e by (auto simp: client_closing_def Let_def split: sum.splits error.splits option.splits)
qed

lemma client_thread_closing:
  "client_closing c \<Longrightarrow> list_ex fst script \<Longrightarrow> ended (socket_client_thread env script (c, s))"
proof (induction script arbitrary: c s)
  case (Cons e script)
  obtain sd ms others where e: "e = (sd, ms, others)" by (cases e)
  show ?case
  proof (cases sd)
    case False
    note r = client_round_closing[OF Cons.prems(1), of env ms "others s"]
    show ?thesis
      using r Cons.IH Cons.prems(2) False
      by (cases "socket_client_round env ms (c, others s)") (auto simp: e Let_def)
  qed (simp add: e)
qed simp

fun attempt_ends :: "attempt \<Rightarrow> bool" where
  "attempt_ends (Connects outs evs script) = (closing outs evs \<and> list_ex fst script)"
| "attempt_ends _ = True"

lemma manage_round_ends:
  assumes "attempt_ends att"
  shows "socket_manage_round env inet renderer att ms \<noteq> Blocked"
proof (cases att)
  case (Connects outs evs script)
  have "client_closing (client_start outs evs)"
    using assms Connects by (simp add: client_closing_def client_start_def closing_def)
  from client_thread_closing[OF this, of script env "snd ms"] assms Connects show ?thesis
    by (cases ms; cases "parse_renderer renderer"; cases "socket_client_thread env script (client_start outs evs, snd ms)")
      (auto simp: socket_manage_round_def Let_def)
next
  case SocketFails
  then show ?thesis by (cases ms; cases "parse_renderer renderer") (auto simp: socket_manage_round_def Let_def)
next
  case ConnectFails
  then show ?thesis
    by (cases ms; cases "parse_renderer renderer") (auto simp: socket_manage_round_def Let_def split: if_splits)
qed

lemma manage_thread_loop:
  "socket_manage_thread env inet renderer script ms = thread_loop (socket_manage_round env inet renderer) script ms"
proof (induction script arbitrary: ms)
  case (Cons e script)
  then show ?case by (cases e) (simp split: round.splits)
qed simp

interpretation manage_loop: ending_body "socket_manage_round env inet renderer" attempt_ends
  by unfold_locales (rule manage_round_ends)

section \<open>Renderers that fall silent\<close>

lemma receive_loop_blocks:
  "recv_live evs \<Longrightarrow> length got + length (stream evs) < sz \<Longrightarrow> socket_receive_loop sz got evs = None"
  by (induction sz got evs rule: socket_receive_loop.induct) (auto simp: Let_def split: recv_event.splits)

lemma receive_lpf_blocks:
  assumes "recv_live evs" "strict_prefix (stream evs) (lpf_frame msg)" "length msg < 2 ^ 64" "alloc (of_nat (length msg))"
  shows "socket_receive_blocking_lpf alloc evs = None"
proof (cases "length (stream evs) < 8")
  case True
  then show ?thesis
    using receive_loop_blocks[OF assms(1), of "[]" 8] by (simp add: socket_receive_blocking_lpf_def socket_receive_blocking_def)
next
  case False
  obtain tl where tl: "lpf_frame msg = stream evs @ tl" "tl \<noteq> []"
    using assms(2) by (auto simp: strict_prefix_def prefix_def)
  have hd: "take 8 (stream evs) = size_bytes (of_nat (length msg))"
    using False arg_cong[OF tl(1), of "take 8"] by (simp add: lpf_frame_def)
  obtain rest where r: "socket_receive_loop 8 [] evs = Some (0, take 8 (stream evs), rest)" "recv_live rest"
      "stream rest = drop 8 (stream evs)"
    using receive_loop_completes[OF assms(1), of "[]" 8] False by auto
  have "length (stream evs) < 8 + length msg"
    using arg_cong[OF tl(1), of length] tl(2) by (cases tl) (simp_all add: lpf_frame_def)
  then have "length (stream rest) < unat (of_nat (length msg) :: u64)"
    using False assms(3) r(3) by (simp add: unat_of_nat)
  then have "socket_receive_loop (unat (of_nat (length msg) :: u64)) [] rest = None"
    using receive_loop_blocks[OF r(2), of "[]"] by simp
  then show ?thesis
    using r(1) assms(4) by (simp add: socket_receive_blocking_lpf_def socket_receive_blocking_def hd)
qed

text \<open>The client thread sent its request and waits for the rest of an answer that does not come.\<close>

definition falls_silent :: "client_env \<Rightarrow> server_state \<Rightarrow> send_event list \<Rightarrow> recv_event list \<Rightarrow> bool" where
  "falls_silent env s outs evs = (send_live outs \<and> 8 + length (serialize env (next_request s)) \<le> rooms outs \<and> recv_live evs
     \<and> (\<exists>msg. strict_prefix (stream evs) (lpf_frame msg) \<and> length msg < 2 ^ 64 \<and> alloc_ok env (of_nat (length msg))))"

lemma silent_client_blocks:
  assumes "falls_silent env (others s) outs evs"
  shows "socket_client_thread env ((False, ms, others) # script) (client_start outs evs, s) = Blocked"
proof -
  obtain rest where w: "socket_send_blocking_lpf (serialize env (next_request (others s))) outs
      = Some (0, lpf_frame (serialize env (next_request (others s))), rest)"
    using send_lpf_completes[of outs] assms unfolding falls_silent_def by blast
  have "socket_receive_blocking_lpf (alloc_ok env) evs = None"
    using receive_lpf_blocks assms unfolding falls_silent_def by blast
  then have "socket_client_round env ms (client_start outs evs, others s) = Blocked"
    using client_round_unfold[of "client_start outs evs" env "others s"] w by (simp add: client_start_def Let_def)
  then show ?thesis by (simp add: Let_def)
qed

section \<open>Shutdown of the whole program\<close>

definition seen :: "(bool \<times> 'e) list \<Rightarrow> bool" where
  "seen script = list_ex fst script"

text \<open>Every loop test sequence gets to see the flag, and nothing outside is waited for for ever.\<close>

definition shutdown_reaches :: "scripts \<Rightarrow> string list \<Rightarrow> bool" where
  "shutdown_reaches sc renderers =
     ((\<forall>r \<in> set renderers. seen (manage_script sc r) \<and> list_all (attempt_ends \<circ> snd) (manage_script sc r))
      \<and> (\<forall>b. seen (process_script sc b) \<and> seen (send_script sc b))
      \<and> (\<forall>c. seen (receive_script sc c) \<and> list_all (\<lambda>x. case snd x of (al, polls, others) \<Rightarrow> answered polls) (receive_script sc c))
      \<and> seen (stats_script sc))"

lemma ended_forget [simp]: "ended (forget r) = ended r"
  by (cases r) simp_all

lemma join_ended: "(\<forall>t \<in> set ts. ended (result t)) \<Longrightarrow> ended (join_threads result ts)"
proof (induction ts)
  case (Cons t ts)
  then show ?case by (cases "result t") auto
qed simp

lemma thread_result_ended:
  assumes "shutdown_reaches sc (renderer_addr_flag opts)" "t \<in> set (main_threads opts)"
  shows "ended (thread_result lib sc p t)"
proof (cases t)
  case (SocketMain renderers scene depth)
  then have r: "renderers = renderer_addr_flag opts" using assms(2) by (auto simp: main_threads_def)
  show ?thesis
    using assms(1) unfolding SocketMain thread_result.simps socket_main_thread_def r manage_thread_loop
    by (intro join_ended ballI manage_loop.loop_ends) (auto simp: shutdown_reaches_def seen_def comp_def)
next
  case (ProcessFrame codec q m)
  then show ?thesis using assms(1) process_loop.loop_ends by (simp add: shutdown_reaches_def seen_def process_frame_thread_def list.pred_True)
next
  case (ReceivePacket codec server)
  have "list_all (\<lambda>x. case snd x of (al, polls, others) \<Rightarrow> answered polls) (receive_script sc codec)"
    using assms(1) by (simp add: shutdown_reaches_def)
  then show ?thesis using assms(1) receive_loop.loop_ends ReceivePacket by (simp add: shutdown_reaches_def seen_def receive_packet_thread_def)
next
  case (SendFrame scene depth m)
  then show ?thesis using assms(1) send_loop.loop_ends by (simp add: shutdown_reaches_def seen_def send_frame_thread_def list.pred_True)
next
  case EncodeStats
  then show ?thesis using assms(1) stats_loop.loop_ends by (simp add: shutdown_reaches_def seen_def encode_stats_thread_def list.pred_True)
qed

lemma main_run:
  assumes "\<not> version_flag opts" "bootstrap env opts = (Inr p, ss)"
  shows "main env (run_threads lib sc) (Parsed opts) =
    (case join_threads (thread_result lib sc p) (main_threads opts) of
       Exit _ \<Rightarrow> leave_scope (snd (stop_all (close_ok env)
         (packet_servers (objects_after lib sc p) @ [cc_server (ccsvr (objects_after lib sc p))])))
     | Throws e _ \<Rightarrow> Abort
     | _ \<Rightarrow> Running)"
  using assms by (simp add: main_def run_threads_def split: round.split)

text \<open>Clients come and go without stopping a server.\<close>

lemma client_events_keep [simp]: "serving (client_events evs s) = serving s"
proof -
  have "serving (open_handler hdl s) = serving s" "serving (close_handler hdl s) = serving s" for hdl s
    by (simp_all add: open_handler_def close_handler_def serving_def)
  then show ?thesis by (induction evs arbitrary: s) (simp_all add: client_events_def split_beta)
qed

section \<open>Properties\<close>

text \<open>
  C38. A shutdown request ends the program. When every thread gets to see the flag, every connection to
  a renderer is closed at some time and every encoder that is polled gives an answer or the flag is
  seen first, then \<open>main\<close> does not wait for ever at any \<open>join\<close>; and when in addition no exception leaves a
  thread, the servers still run and their connections can be closed, \<open>main\<close> returns 0.
\<close>

theorem program_ends:
  assumes "\<not> version_flag opts" and "bootstrap env opts = (Inr p, ss)"
    and "shutdown_reaches sc (renderer_addr_flag opts)"
    and "servers = packet_servers (objects_after lib sc p) @ [cc_server (ccsvr (objects_after lib sc p))]"
  shows "main env (run_threads lib sc) (Parsed opts) \<noteq> Running
    \<and> (list_all (\<lambda>t. \<nexists>e. thread_result lib sc p t = Throws e ()) (main_threads opts)
        \<and> list_all serving servers \<and> list_all (\<lambda>s. list_all (close_ok env) (m_connections s)) servers
        \<longrightarrow> main env (run_threads lib sc) (Parsed opts) = ExitStatus 0)"
proof -
  have fin: "ended (thread_result lib sc p t)" if "t \<in> set (main_threads opts)" for t
    using thread_result_ended[OF assms(3) that] .
  have "ended (join_threads (thread_result lib sc p) (main_threads opts))" using fin by (intro join_ended) blast
  then have "main env (run_threads lib sc) (Parsed opts) \<noteq> Running"
    unfolding main_run[OF assms(1,2)]
    by (cases "join_threads (thread_result lib sc p) (main_threads opts)") (auto simp: leave_scope_def)
  moreover have "main env (run_threads lib sc) (Parsed opts) = ExitStatus 0"
    if quiet: "list_all (\<lambda>t. \<nexists>e. thread_result lib sc p t = Throws e ()) (main_threads opts)"
      and srv: "list_all serving servers" "list_all (\<lambda>s. list_all (close_ok env) (m_connections s)) servers"
  proof -
    have "\<exists>u. thread_result lib sc p t = Exit u" if t: "t \<in> set (main_threads opts)" for t
      using fin[OF t] quiet t by (cases "thread_result lib sc p t") (auto simp: list_all_iff)
    then have "join_threads (thread_result lib sc p) (main_threads opts) = Exit ()" by (simp add: join_Exit_iff)
    then show ?thesis
      using main_run[OF assms(1,2), of lib sc] stop_all_result[OF srv(1)] srv(2) by (simp add: assms(4) leave_scope_def)
  qed
  ultimately show ?thesis by blast
qed

text \<open>
  C39. A renderer that falls silent keeps the program from ending. Once a client thread has sent a request and
  part of the answer, or none, has come, the thread does not look at the shutdown flag again:
  whatever its later loop tests would read, \<open>main\<close> never returns, unless an exception in another
  thread aborts the program.
\<close>

theorem silent_renderer_hangs:
  assumes "\<not> version_flag opts" and "bootstrap env opts = (Inr p, ss)"
    and "renderer \<in> set (renderer_addr_flag opts)" and "parse_renderer renderer = Inr (ip, port)"
    and "manage_script sc renderer = (False, Connects outs evs ((False, ms, others) # script)) # rest"
    and "falls_silent (socket_env (hd (main_threads opts)) (client_lib lib)) (others (frame_state p)) outs evs"
  shows "main env (run_threads lib sc) (Parsed opts) =
    (if list_ex (\<lambda>t. \<exists>e. thread_result lib sc p t = Throws e ()) (main_threads opts) then Abort else Running)"
proof -
  let ?env = "socket_env (hd (main_threads opts)) (client_lib lib)" and ?join = "join_threads (thread_result lib sc p) (main_threads opts)"
  have "socket_manage_thread ?env (inet_addr_lib lib) renderer (manage_script sc renderer) (manager_start, frame_state p) = Blocked"
    using silent_client_blocks[where others = others and s = "frame_state p", OF assms(6)] assms(4) by (simp add: assms(5) socket_manage_round_def Let_def)
  moreover have hd: "hd (main_threads opts) = SocketMain (renderer_addr_flag opts) SceneLeft DepthLeft"
    "hd (main_threads opts) \<in> set (main_threads opts)" by (simp_all add: main_threads_def)
  ultimately have "\<not> (\<forall>r \<in> set (renderer_addr_flag opts). \<exists>u. socket_manage_thread ?env (inet_addr_lib lib) r
      (manage_script sc r) (manager_start, frame_state p) = Exit u)" using assms(3) by fastforce
  then have "thread_result lib sc p (hd (main_threads opts)) \<noteq> Exit ()"
    unfolding hd(1) thread_result.simps socket_main_thread_def join_Exit_iff .
  then have "?join \<noteq> Exit ()" using hd(2) join_Exit_iff[of "thread_result lib sc p" "main_threads opts" "()"] by auto
  moreover have "(\<exists>e. ?join = Throws e ()) \<longleftrightarrow> list_ex (\<lambda>t. \<exists>e. thread_result lib sc p t = Throws e ()) (main_threads opts)"
    using join_Throws_iff[of "thread_result lib sc p" "main_threads opts" "()"] by (auto simp: list_ex_iff)
  ultimately show ?thesis unfolding main_run[OF assms(1,2)] by (cases ?join) auto
qed

definition demo_renderer :: string where
  "demo_renderer = ''10.0.0.7'' @ '':'' @ show_nat 8991"

definition demo_run_options :: options where
  "demo_run_options = default_options\<lparr>renderer_addr_flag := [demo_renderer]\<rparr>"

definition demo_libraries :: libraries where
  "demo_libraries = \<lparr>client_lib = demo_client_env, inet_addr_lib = (\<lambda>_. 0), load_lib = demo_load,
     av_send_lib = demo_encoder, send_ok_lib = (\<lambda>_. True)\<rparr>"

text \<open>One round each of the threads, then the flag; the given script for the renderer.\<close>

definition demo_scripts :: "(bool \<times> attempt) list \<Rightarrow> scripts" where
  "demo_scripts manage = \<lparr>manage_script = (\<lambda>_. manage), process_script = (\<lambda>_. [(False, demo_clock, 1, id), (True, demo_clock, 1, id)]),
     receive_script = (\<lambda>_. [(True, True, demo_polls, id)]), send_script = (\<lambda>_. [(False, 1, id), (True, 1, id)]),
     stats_script = [(False, 1, 1), (True, 2, 2)],
     late_clients = (\<lambda>_. [(True, 4)]), camera_clients = [(True, 2), (True, 9), (False, 2)]\<rparr>"

lemma demo_run_start:
  "\<exists>p ss. bootstrap demo_main_env demo_run_options = (Inr p, ss) \<and> list_all serving (packet_servers p @ [cc_server (ccsvr p)])
     \<and> length (packet_servers p) = 4 \<and> (\<forall>b. eye_queue b (frame_state p) = FrameQueue_new) \<and> frame_maps p = (\<lambda>_. FrameMap_new) \<and> sv_is_left (frame_state p) = 0
     \<and> frame_index_right (frame_state p) = 0"
proof -
  obtain cs where "make_codecs demo_main_env default_options = Inr cs" using demo_main_inputs(1) by blast
  then have cs: "make_codecs demo_main_env demo_run_options = Inr cs"
    by (simp add: make_codecs_def codec_info_def demo_run_options_def)
  have "list_all (port_ok demo_main_env) (all_ports demo_run_options)"
    using demo_ports by (simp add: all_ports_def main_streams_def demo_run_options_def)
  moreover have "RenderTextContext_new (freetype demo_main_env) (font_flag demo_run_options) = Inr demo_text"
    using demo_main_inputs(2) by (simp add: demo_run_options_def)
  ultimately obtain p ss where p: "bootstrap demo_main_env demo_run_options = (Inr p, ss)" "list_all serving ss"
      "map m_bind_port ss = all_ports demo_run_options" "packet_servers p @ [cc_server (ccsvr p)] = ss"
    and rest: "\<forall>b. eye_queue b (frame_state p) = FrameQueue_new" "frame_maps p = (\<lambda>_. FrameMap_new)" "sv_is_left (frame_state p) = 0"
      "frame_index_right (frame_state p) = 0"
    using bootstrap_cases[OF cs, of demo_text] by (force simp: eye_queue_def)
  have "length (map m_bind_port (packet_servers p @ [cc_server (ccsvr p)])) = length (all_ports demo_run_options)" using p(3,4) by simp
  then have "length (packet_servers p) = 4" by (simp add: all_ports_def main_streams_def)
  then show ?thesis using p rest by blast
qed

lemma demo_other_threads:
  assumes "eye_queue True (frame_state p) = FrameQueue_new" "eye_queue False (frame_state p) = FrameQueue_new" "frame_maps p = (\<lambda>_. FrameMap_new)"
    and "t \<in> set (tl (main_threads demo_run_options))"
  shows "thread_result demo_libraries (demo_scripts manage) p t = Exit ()"
  using assms
  by (auto simp: main_threads_def demo_scripts_def process_frame_thread_def process_body_def process_frame_round_def
      FrameQueue_pop_def FrameQueue_new_def receive_packet_thread_def send_frame_thread_def send_body_def send_frame_round_def
      send_get_def FrameMap_get_delete_def FrameMap_new_def map_contains_def encode_stats_thread_def stats_body_def)

lemma demo_address: "\<exists>ip port. parse_renderer demo_renderer = Inr (ip, port)"
  using parse_renderer_show[of "''10.0.0.7''" 8991] by (simp add: demo_renderer_def)

lemma demo_run_threads:
  assumes "thread_result demo_libraries sc p (SocketMain [demo_renderer] SceneLeft DepthLeft) = Exit ()
      \<or> thread_result demo_libraries sc p (SocketMain [demo_renderer] SceneLeft DepthLeft) = Blocked"
    and "\<And>t. t \<in> set (tl (main_threads demo_run_options)) \<Longrightarrow> thread_result demo_libraries sc p t = Exit ()"
    and "t \<in> set (main_threads demo_run_options)"
  shows "thread_result demo_libraries sc p t \<noteq> Throws e ()"
proof -
  have "t = SocketMain [demo_renderer] SceneLeft DepthLeft \<or> t \<in> set (tl (main_threads demo_run_options))"
    using assms(3) by (simp add: main_threads_def demo_run_options_def)
  then show ?thesis using assms(1,2) by auto
qed

theorem program_ends_witness:
  "\<exists>p ss. bootstrap demo_main_env demo_run_options = (Inr p, ss)
     \<and> main demo_main_env (run_threads demo_libraries (demo_scripts
         [(False, Connects [SendFail (num_of_nat 32) (num_of_nat 32)] [Eof] [(False, 1, id), (True, 1, id)]), (True, SocketFails)]))
         (Parsed demo_run_options) = ExitStatus 0"
proof -
  let ?m = "[(False, Connects [SendFail (num_of_nat 32) (num_of_nat 32)] [Eof] [(False, 1, id), (True, 1, id)]), (True, SocketFails)]"
  obtain p ss where p: "bootstrap demo_main_env demo_run_options = (Inr p, ss)" "list_all serving (packet_servers p @ [cc_server (ccsvr p)])"
      "length (packet_servers p) = 4" "\<And>b. eye_queue b (frame_state p) = FrameQueue_new" "frame_maps p = (\<lambda>_. FrameMap_new)" using demo_run_start by blast
  let ?sc = "demo_scripts ?m"
  have hard: "num_of_nat 32 \<noteq> EAGAIN" by (simp add: EAGAIN_def num_of_nat_numeral_eq)
  have reaches: "shutdown_reaches ?sc (renderer_addr_flag demo_run_options)"
    using hard by (simp add: shutdown_reaches_def seen_def demo_scripts_def demo_run_options_def closing_def answered_def demo_polls_def)
  have v: "\<not> version_flag demo_run_options" by (simp add: demo_run_options_def default_options_def)
  have others: "thread_result demo_libraries ?sc p t = Exit ()" if "t \<in> set (tl (main_threads demo_run_options))" for t
    using demo_other_threads[OF p(4) p(4) p(5) that] .
  obtain ip port where a: "parse_renderer demo_renderer = Inr (ip, port)" using demo_address by blast
  have "thread_result demo_libraries ?sc p (SocketMain [demo_renderer] SceneLeft DepthLeft) = Exit ()"
    using a hard by (simp add: socket_main_thread_def demo_scripts_def socket_manage_round_def socket_client_round_def client_start_def
        socket_send_blocking_lpf_def socket_send_blocking_def fetch_is_left_def fetch_frame_index_def Let_def split_beta)
  then have "list_all (\<lambda>t. \<nexists>e. thread_result demo_libraries ?sc p t = Throws e ()) (main_threads demo_run_options)"
    using demo_run_threads others unfolding list_all_iff by blast
  moreover have "serving (packet_servers p ! stream_index c)" for c
  proof -
    have "stream_index c < length (packet_servers p)" using p(3) by (cases c) simp_all
    then have "packet_servers p ! stream_index c \<in> set (packet_servers p)" by simp
    then show ?thesis using p(2) by (simp add: list_all_iff)
  qed
  then have "serving (packet_server_after demo_libraries ?sc p c)" for c
    by (simp add: packet_server_after_def demo_scripts_def receive_packet_thread_def Let_def)
  then have "list_all serving (packet_servers (objects_after demo_libraries ?sc p) @ [cc_server (ccsvr (objects_after demo_libraries ?sc p))])"
    using p(2) by (simp add: objects_after_def list_all_iff)
  moreover have "list_all (\<lambda>s. list_all (close_ok demo_main_env) (m_connections s))
      (packet_servers (objects_after demo_libraries ?sc p) @ [cc_server (ccsvr (objects_after demo_libraries ?sc p))])"
    by (simp add: demo_main_env_def list_all_iff)
  ultimately show ?thesis using program_ends[OF v p(1) reaches refl, of demo_libraries] p(1) by auto
qed

theorem silent_renderer_hangs_witness:
  "\<exists>p ss. bootstrap demo_main_env demo_run_options = (Inr p, ss)
     \<and> main demo_main_env (run_threads demo_libraries (demo_scripts
         [(False, Connects (replicate 10 (Room 1)) [] [(False, 1, id), (True, 1, id)]), (True, SocketFails)]))
         (Parsed demo_run_options) = Running"
proof -
  let ?m = "[(False, Connects (replicate 10 (Room 1)) [] [(False, 1, id), (True, 1, id)]), (True, SocketFails)]"
  obtain p ss where p: "bootstrap demo_main_env demo_run_options = (Inr p, ss)"
      "\<And>b. eye_queue b (frame_state p) = FrameQueue_new" "frame_maps p = (\<lambda>_. FrameMap_new)" using demo_run_start by blast
  let ?sc = "demo_scripts ?m" and ?env = "socket_env (hd (main_threads demo_run_options)) (client_lib demo_libraries)"
  obtain ip port where a: "parse_renderer demo_renderer = Inr (ip, port)" using demo_address by blast
  have v: "\<not> version_flag demo_run_options" "demo_renderer \<in> set (renderer_addr_flag demo_run_options)"
    by (simp_all add: demo_run_options_def default_options_def)
  have s: "manage_script ?sc demo_renderer = (False, Connects (replicate 10 (Room 1)) [] ((False, 1, id) # [(True, 1, id)])) # [(True, SocketFails)]"
    by (simp add: demo_scripts_def)
  have env: "serialize ?env = serialize demo_client_env" "alloc_ok ?env = alloc_ok demo_client_env"
    by (simp_all add: main_threads_def demo_libraries_def)
  have "rooms (replicate 10 (Room 1)) = 10" "send_live (replicate 10 (Room 1))" by (simp_all add: eval_nat_numeral)
  moreover have "size_bytes 0 \<noteq> []" using length_size_bytes[of 0] by (metis list.size(3) zero_neq_numeral)
  ultimately have silent: "falls_silent ?env (id (frame_state p)) (replicate 10 (Room 1)) []"
    by (auto simp: falls_silent_def env demo_client_env_def lpf_frame_def strict_prefix_def intro!: exI[of _ "[]"])
  note hang = silent_renderer_hangs[where others = id, OF v(1) p(1) v(2) a s silent]
  have others: "thread_result demo_libraries ?sc p t = Exit ()" if "t \<in> set (tl (main_threads demo_run_options))" for t
    using demo_other_threads[OF p(2) p(2) p(3) that] .
  have "thread_result demo_libraries ?sc p (SocketMain [demo_renderer] SceneLeft DepthLeft) = Blocked"
    using a silent_client_blocks[where others = id, OF silent]
    by (simp add: socket_main_thread_def demo_scripts_def socket_manage_round_def main_threads_def demo_run_options_def Let_def)
  then have "\<not> list_ex (\<lambda>t. \<exists>e. thread_result demo_libraries ?sc p t = Throws e ()) (main_threads demo_run_options)"
    using demo_run_threads others unfolding list_ex_iff by blast
  then show ?thesis using hang p(1) by auto
qed

end
