(* ===== verification/Frame_Origin.thy ===== *)
theory Frame_Origin
  imports Pipeline
begin

text \<open>
  Where the frames of the frame path come from, and for which encoder configurations their images
  were made: every frame in flight or handed to an encoder stems from one built arrival, and the four
  dimensions of its images were read from the encoders given to the client threads, each at its own
  moment between the reception of the response and the queueing of the frame.
\<close>

section \<open>What stays with a frame\<close>

definition contexts :: "RenderedFrame \<Rightarrow> FrameContext \<times> FrameContext" where
  "contexts f = (m_context (m_converted_avframe_scene f), m_context (m_converted_avframe_depth f))"

definition frame_id :: "RenderedFrame \<Rightarrow> FrameResponse \<times> FrameContext \<times> FrameContext" where
  "frame_id f = (m_frame_response f, contexts f)"

text \<open>The images a client thread makes after its four reads.\<close>

definition arrival_contexts :: "client_env \<Rightarrow> server_state \<Rightarrow> arrival \<Rightarrow> FrameContext \<times> FrameContext" where
  "arrival_contexts env s a =
     (let cs = m_codecs (cameramgr s); d = ar_dims a
      in (FrameContext_of (sized (m_info (ctxmgr_scene env cs)) (d ! 0) (d ! 1)),
          FrameContext_of (sized (m_info (ctxmgr_depth env cs)) (d ! 2) (d ! 3))))"

definition pipe_frames :: "pipeline \<Rightarrow> RenderedFrame set" where
  "pipe_frames x = (\<Union>b. set (pl_fed x b) \<union> set (eye_frames b x))"

lemma eye_frames_iff:
  "f \<in> set (eye_frames b x) \<longleftrightarrow> f \<in> set (m_queue (eye_queue b (pl_srv x))) \<or> pl_held x b = Some f
     \<or> (\<exists>k. (k, f) \<in> set (m_map (pl_map x b))) \<or> pl_sending x b = Some f"
  by (cases "pl_held x b"; cases "pl_sending x b") (force simp: eye_frames_def)+

lemma pipe_frames_iff:
  "f \<in> pipe_frames x \<longleftrightarrow> (\<exists>b. f \<in> set (pl_fed x b) \<or> f \<in> set (m_queue (eye_queue b (pl_srv x))) \<or> pl_held x b = Some f
     \<or> (\<exists>k. (k, f) \<in> set (m_map (pl_map x b))) \<or> pl_sending x b = Some f)"
  by (auto simp: pipe_frames_def eye_frames_iff)

lemma RenderedFrame_new_id:
  assumes "RenderedFrame_new env r fmt fmt' si di h = (f, h')"
  shows "frame_id f = (r, FrameContext_of si, FrameContext_of di)"
proof -
  have ctx: "m_context (fst (FrameManager_new env c p g)) = c" for c p g
    by (simp add: FrameManager_new_def split_beta Let_def)
  show ?thesis
    using assms by (auto simp: RenderedFrame_new_def frame_id_def contexts_def ctx split_beta Let_def)
qed

lemma convert_frame_id: "convert_frame env f h = (r, f', h') \<Longrightarrow> frame_id f' = frame_id f"
  by (auto simp: convert_frame_def frame_id_def contexts_def split: if_splits prod.splits sum.splits)

lemma push_frame_ids:
  assumes "push_frame env si di r s = Inr s'" "f \<in> set (m_queue (eye_queue b s'))"
  shows "f \<in> set (m_queue (eye_queue b s)) \<or> frame_id f = (r, FrameContext_of si, FrameContext_of di)"
proof -
  obtain g h where n: "RenderedFrame_new (av env) r AV_PIX_FMT_RGB24 AV_PIX_FMT_GRAY8 si di (sv_heap s) = (g, h)" by fastforce
  have "f \<in> set (m_queue (eye_queue b s)) \<or> f = g"
    using assms unfolding push_frame_def Let_def n
    by (auto simp: bindE_Inr_iff FrameQueue_push_def eye_queue_def split: if_splits)
  then show ?thesis using RenderedFrame_new_id[OF n] by auto
qed

lemma push_frame_camera: "push_frame env si di r s = Inr s' \<Longrightarrow> cameramgr s' = cameramgr s"
  by (auto simp: push_frame_def Let_def bindE_Inr_iff split: if_splits prod.splits sum.splits)

lemma process_finish_ids:
  assumes "process_finish load env now ms f (v, s) = Next (v', s')" "(k, g) \<in> set (m_map (enc_map s'))"
  shows "(k, g) \<in> set (m_map (enc_map s)) \<or> frame_id g = frame_id f"
proof -
  have "enc_map s' = enc_map s \<or>
      (\<exists>h r f' h'. convert_frame env f h = (r, f', h') \<and> FrameMap_insert (frame_index f) f' (enc_map s) = Inr (enc_map s'))"
    using assms(1) unfolding process_finish_def
    by (auto simp: Let_def split: sum.splits prod.splits if_splits) blast+
  then show ?thesis
  proof
    assume "\<exists>h r f' h'. convert_frame env f h = (r, f', h') \<and> FrameMap_insert (frame_index f) f' (enc_map s) = Inr (enc_map s')"
    then obtain h r f' h' where c: "convert_frame env f h = (r, f', h')"
      and i: "FrameMap_insert (frame_index f) f' (enc_map s) = Inr (enc_map s')" by blast
    have "(k, g) \<in> insert (frame_index f, f') (set (m_map (enc_map s)))"
      using assms(2) set_map_insert[of "frame_index f" f' "m_map (enc_map s)"] FrameMap_insert_entries[OF i] by auto
    then show ?thesis using convert_frame_id[OF c] by auto
  qed (use assms(2) in simp)
qed

section \<open>Steps and runs\<close>

text \<open>A frame after a step was there before it, or has just been built from an arrival.\<close>

lemma step_frames:
  assumes step: "pipe_step env load av_send x y" and f: "f \<in> pipe_frames y"
  shows "(\<exists>g \<in> pipe_frames x. frame_id g = frame_id f)
    \<or> (\<exists>a \<in> set (pl_reading x). length (ar_dims a) = 4 \<and> pl_built y = pl_built x @ [a]
         \<and> frame_id f = (ar_frame a, arrival_contexts env (pl_srv x) a))"
  using step
proof (cases rule: pipe_step.cases)
  case ticket
  then have "f \<in> pipe_frames x" using f by (auto simp: pipe_frames_iff)
  then show ?thesis by blast
next
  case message
  then have "f \<in> pipe_frames x" using f by (auto simp: pipe_frames_iff)
  then show ?thesis by blast
next
  case camera
  then have "f \<in> pipe_frames x" using f by (auto simp: pipe_frames_iff)
  then show ?thesis by blast
next
  case packet
  then have "f \<in> pipe_frames x" using f by (auto simp: pipe_frames_iff)
  then show ?thesis by blast
next
  case receive
  then have "f \<in> pipe_frames x" using f by (auto simp: pipe_frames_iff receive_response_def)
  then show ?thesis by blast
next
  case read
  then have "f \<in> pipe_frames x" using f by (auto simp: pipe_frames_iff)
  then show ?thesis by blast
next
  case (arrive i s')
  let ?a = "pl_reading x ! i"
  have "f \<in> pipe_frames x \<or> frame_id f = (ar_frame ?a, arrival_contexts env (pl_srv x) ?a)"
    using f arrive(1) push_frame_ids[OF arrive(4)[unfolded push_response_def Let_def], of f]
    by (auto simp: pipe_frames_iff arrival_contexts_def Let_def)
  then show ?thesis using arrive(1,2,3) by (auto intro: nth_mem)
next
  case (pop c g q)
  have m: "m_queue (eye_queue c (pl_srv x)) = g # m_queue q"
    using pop(3) by (auto simp: FrameQueue_pop_def split: list.splits)
  have "eye_queue b (set_queue c q (pl_srv x)) = (if b = c then q else eye_queue b (pl_srv x))" for b
    by (auto simp: eye_queue_def set_queue_def)
  then have rest: "h \<in> set (m_queue (eye_queue b (set_queue c q (pl_srv x)))) \<Longrightarrow> h \<in> set (m_queue (eye_queue b (pl_srv x)))" for h b
    using m by (auto split: if_splits)
  have "g \<in> set (m_queue (eye_queue c (pl_srv x)))" using m by simp
  then have "f \<in> pipe_frames x" using f unfolding pop(1) pipe_frames_iff by (auto dest: rest split: if_splits)
  then show ?thesis by blast
next
  case (process c g now ms v v' e)
  have g: "g \<in> pipe_frames x" using process(2) by (auto simp: pipe_frames_iff)
  have ids: "(k, h) \<in> set (m_map (enc_map e)) \<Longrightarrow> (k, h) \<in> set (m_map (pl_map x c)) \<or> frame_id h = frame_id g" for k h
    using process_finish_ids[OF process(3)] by simp
  have "f \<in> pipe_frames x \<or> frame_id f = frame_id g"
    using f unfolding process(1) pipe_frames_iff by (auto split: if_splits dest: ids)
  then show ?thesis using g by auto
next
  case (fetch c g s)
  have "FrameMap_get_delete (s_frame_index (pl_send x c)) (pl_map x c) = Inr (g, snd_map s)"
    using fetch(3) by (auto simp: send_get_def bindE_Inr_iff)
  from FrameMap_get_delete_entries[OF this]
  have "\<exists>k. (k, g) \<in> set (m_map (pl_map x c))" "set (m_map (snd_map s)) \<subseteq> set (m_map (pl_map x c))"
    by (auto simp: drop_frames_def map_erase_def map_erase_if_def Let_def dest: map_of_SomeD split: if_splits)
  then have "f \<in> pipe_frames x" using f unfolding fetch(1) pipe_frames_iff by (auto split: if_splits)
  then show ?thesis by blast
next
  case (skip c)
  then have "f \<in> pipe_frames x" using f by (auto simp: pipe_frames_iff)
  then show ?thesis by blast
next
  case (send c g ms v' s)
  then have "f \<in> pipe_frames x" using f unfolding send(1) pipe_frames_iff by (auto split: if_splits)
  then show ?thesis by blast
qed

text \<open>What a step does to the responses being read, to the arrivals and to the configuration.\<close>

lemma step_reading:
  assumes "pipe_step env load av_send x y" "a \<in> set (pl_reading y)"
  shows "a \<in> set (pl_reading x) \<or> (\<exists>frame. a = \<lparr>ar_frame = frame, ar_dims = [], ar_at = [moment x]\<rparr>)
    \<or> (\<exists>b \<in> set (pl_reading x). length (ar_dims b) < 4 \<and> a = read_next env x b)"
  using assms
proof (cases rule: pipe_step.cases)
  case (read i)
  have "a \<in> insert (read_next env x (pl_reading x ! i)) (set (pl_reading x))"
    using assms(2) set_update_subset_insert read(1) by fastforce
  then show ?thesis using read(2,3) nth_mem by blast
next
  case (arrive i s')
  then show ?thesis using assms(2) by (auto dest: in_set_takeD in_set_dropD)
qed (use assms(2) in \<open>auto simp: receive_response_def\<close>)

lemma step_built:
  assumes "pipe_step env load av_send x y"
  shows "set (pl_built x) \<subseteq> set (pl_built y) \<and> set (pl_built y) \<subseteq> set (pl_built x) \<union> set (pl_reading x)"
  using assms by (cases rule: pipe_step.cases) (auto simp: receive_response_def)

lemma step_configuration:
  assumes "pipe_step env load av_send x y"
  defines "c \<equiv> configuration (cameramgr (pl_srv x))" and "d \<equiv> configuration (cameramgr (pl_srv y))"
  shows "(\<forall>s. pix_fmt (d s) = pix_fmt (c s)) \<and> (pl_history y = pl_history x \<and> d = c \<or> pl_history y = pl_history x @ [d])"
  using assms(1)
proof (cases rule: pipe_step.cases)
  case (camera op ops cenv r cm)
  then show ?thesis using run_camera_op_pix_fmt[OF camera(3)] by (simp add: c_def d_def)
next
  case (packet t av_recv r m)
  have "m_info m = m_info (codec_of t (m_codecs (cameramgr (pl_srv x))))"
    using packet(3) by (auto simp: receive_packet_def Let_def split: option.splits prod.splits)
  then have "d = c" by (auto simp: c_def d_def packet(1) configuration_def fun_eq_iff)
  then show ?thesis using packet(1) by simp
next
  case (arrive i s')
  then show ?thesis using push_frame_camera[OF arrive(4)[unfolded push_response_def Let_def]] by (simp add: c_def d_def)
next
  case (send b f ms v' s)
  have "d = c" using send_finish_info[OF send(4)]
    by (intro ext, rename_tac t, case_tac t) (auto simp: c_def d_def send(1) configuration_def set_codecs_def send_view_def Let_def)
  then show ?thesis using send(1) by simp
qed (auto simp: c_def d_def receive_response_def)

section \<open>The origin of frames\<close>

text \<open>The dimension \<open>k\<close> a client thread reads from a configuration, with encoders \<open>sc\<close> and \<open>de\<close>.\<close>

definition dim_of :: "stream \<Rightarrow> stream \<Rightarrow> (stream \<Rightarrow> CodecInitInfo) \<Rightarrow> nat \<Rightarrow> u32" where
  "dim_of sc de c k = [info_width (c sc), info_height (c sc), info_width (c de), info_height (c de)] ! k"

definition reads_ok :: "stream \<Rightarrow> stream \<Rightarrow> (stream \<Rightarrow> CodecInitInfo) list \<Rightarrow> arrival \<Rightarrow> bool" where
  "reads_ok sc de hist a =
     (length (ar_at a) = Suc (length (ar_dims a)) \<and> sorted (ar_at a) \<and> (\<forall>k \<in> set (ar_at a). k < length hist)
      \<and> (\<forall>k < length (ar_dims a). ar_dims a ! k = dim_of sc de (hist ! (ar_at a ! Suc k)) k))"

definition read_contexts :: "AVPixelFormat \<Rightarrow> AVPixelFormat \<Rightarrow> arrival \<Rightarrow> FrameContext \<times> FrameContext" where
  "read_contexts ps pd a = (\<lparr>fc_width = ar_dims a ! 0, fc_height = ar_dims a ! 1, fc_pix_fmt = ps\<rparr>,
     \<lparr>fc_width = ar_dims a ! 2, fc_height = ar_dims a ! 3, fc_pix_fmt = pd\<rparr>)"

definition origin_inv :: "stream \<Rightarrow> stream \<Rightarrow> (stream \<Rightarrow> CodecInitInfo) \<Rightarrow> pipeline \<Rightarrow> bool" where
  "origin_inv sc de c0 x =
     (pl_history x \<noteq> [] \<and> hd (pl_history x) = c0 \<and> last (pl_history x) = configuration (cameramgr (pl_srv x))
      \<and> (\<forall>s. pix_fmt (configuration (cameramgr (pl_srv x)) s) = pix_fmt (c0 s))
      \<and> (\<forall>a \<in> set (pl_reading x) \<union> set (pl_built x). reads_ok sc de (pl_history x) a)
      \<and> (\<forall>f \<in> pipe_frames x. \<exists>a \<in> set (pl_built x). length (ar_dims a) = 4
           \<and> frame_id f = (ar_frame a, read_contexts (pix_fmt (c0 sc)) (pix_fmt (c0 de)) a)))"

lemma reads_ok_mono: "reads_ok sc de hist a \<Longrightarrow> reads_ok sc de (hist @ later) a"
  by (auto simp: reads_ok_def nth_append trans_less_add1)

lemma reads_ok_next:
  assumes ok: "reads_ok sc de (pl_history x) a" and four: "length (ar_dims a) < 4"
    and hist: "pl_history x \<noteq> []" "last (pl_history x) = configuration (cameramgr (pl_srv x))"
    and env: "ctxmgr_scene env = codec_of sc" "ctxmgr_depth env = codec_of de"
  shows "reads_ok sc de (pl_history x) (read_next env x a)"
proof -
  have m: "pl_history x ! moment x = configuration (cameramgr (pl_srv x))" "moment x < length (pl_history x)"
    using hist by (auto simp: moment_def last_conv_nth)
  have "read_dim env (m_codecs (cameramgr (pl_srv x))) k = dim_of sc de (configuration (cameramgr (pl_srv x))) k" for k
    by (simp add: read_dim_def dim_of_def env configuration_def Let_def)
  moreover have "\<forall>k \<in> set (ar_at a). k \<le> moment x"
    using ok m(2) by (auto simp: reads_ok_def moment_def)
  ultimately show ?thesis
    using ok m by (auto simp: reads_ok_def read_next_def sorted_append nth_append less_Suc_eq)
qed

lemma origin_inv_step:
  assumes step: "pipe_step env load av_send x y" and inv: "origin_inv sc de c0 x"
    and env: "ctxmgr_scene env = codec_of sc" "ctxmgr_depth env = codec_of de"
  shows "origin_inv sc de c0 y"
proof -
  let ?c = "configuration (cameramgr (pl_srv x))"
  have hist: "pl_history x \<noteq> []" "last (pl_history x) = ?c" using inv by (simp_all add: origin_inv_def)
  then have m: "moment x < length (pl_history x)" by (simp add: moment_def)
  note conf = step_configuration[OF step]
  have old: "reads_ok sc de (pl_history x) a" if "a \<in> set (pl_reading y) \<union> set (pl_built y)" for a
  proof (cases "a \<in> set (pl_reading x) \<union> set (pl_built x)")
    case True
    then show ?thesis using inv by (simp add: origin_inv_def)
  next
    case False
    then have "a \<in> set (pl_reading y)" using that step_built[OF step] by blast
    from step_reading[OF step this] False consider frame where "a = \<lparr>ar_frame = frame, ar_dims = [], ar_at = [moment x]\<rparr>"
      | b where "b \<in> set (pl_reading x)" "length (ar_dims b) < 4" "a = read_next env x b" by blast
    then show ?thesis
    proof cases
      case 1
      then show ?thesis using m by (simp add: reads_ok_def)
    next
      case 2
      have "reads_ok sc de (pl_history x) b" using 2(1) inv by (simp add: origin_inv_def)
      from reads_ok_next[OF this 2(2) hist env] show ?thesis using 2(3) by simp
    qed
  qed
  then have reads: "\<forall>a \<in> set (pl_reading y) \<union> set (pl_built y). reads_ok sc de (pl_history y) a"
    using conf reads_ok_mono by fastforce
  have "\<exists>a \<in> set (pl_built y). length (ar_dims a) = 4 \<and> frame_id f = (ar_frame a, read_contexts (pix_fmt (c0 sc)) (pix_fmt (c0 de)) a)"
    if "f \<in> pipe_frames y" for f
    using step_frames[OF step that]
  proof
    assume "\<exists>g \<in> pipe_frames x. frame_id g = frame_id f"
    then show ?thesis using inv step_built[OF step] by (fastforce simp: origin_inv_def)
  next
    assume "\<exists>a \<in> set (pl_reading x). length (ar_dims a) = 4 \<and> pl_built y = pl_built x @ [a]
         \<and> frame_id f = (ar_frame a, arrival_contexts env (pl_srv x) a)"
    moreover have "arrival_contexts env (pl_srv x) a = read_contexts (pix_fmt (c0 sc)) (pix_fmt (c0 de)) a" for a
      using inv by (simp add: arrival_contexts_def read_contexts_def env FrameContext_of_def sized_def origin_inv_def
          configuration_def Let_def)
    ultimately show ?thesis by auto
  qed
  then show ?thesis using reads conf inv by (auto simp: origin_inv_def)
qed

lemma origin_inv_run:
  assumes "(pipe_step env load av_send)\<^sup>*\<^sup>* x0 x" "origin_inv sc de c0 x0"
    and "ctxmgr_scene env = codec_of sc" "ctxmgr_depth env = codec_of de"
  shows "origin_inv sc de c0 x"
  using assms(1,2) by (induction rule: rtranclp_induct) (auto intro: origin_inv_step assms(3,4))

lemma pipe_frames_start: "pipe_start x \<Longrightarrow> pipe_frames x = {}"
  by (auto simp: pipe_frames_iff pipe_start_def eye_queue_def FrameQueue_new_def FrameMap_new_def split: if_splits)

lemma origin_inv_start: "pipe_start x \<Longrightarrow> origin_inv sc de (configuration (cameramgr (pl_srv x))) x"
  using pipe_frames_start[of x] by (simp add: origin_inv_def pipe_start_def)

text \<open>The camera thread, not disturbed, makes all writes of a call.\<close>

lemma camera_runs:
  assumes "run_camera_ops envs ops (cameramgr (pl_srv x)) = (Inr (), cm)" "pl_cam x = ops"
  shows "\<exists>hs. (pipe_step env load av_send)\<^sup>*\<^sup>* x
    (x\<lparr>pl_srv := (pl_srv x)\<lparr>cameramgr := cm\<rparr>, pl_cam := [], pl_history := pl_history x @ hs\<rparr>)"
  using assms
proof (induction ops arbitrary: x)
  case Nil
  then have "x\<lparr>pl_srv := (pl_srv x)\<lparr>cameramgr := cm\<rparr>, pl_cam := [], pl_history := pl_history x @ []\<rparr> = x" by simp
  then show ?case by (metis rtranclp.rtrancl_refl)
next
  case (Cons op ops)
  obtain cenv cm1 where op: "run_camera_op cenv op (cameramgr (pl_srv x)) = (Inr (), cm1)"
    "run_camera_ops envs ops cm1 = (Inr (), cm)"
    using Cons.prems(1) by (auto simp: Let_def split: prod.splits sum.splits)
  let ?y = "x\<lparr>pl_srv := (pl_srv x)\<lparr>cameramgr := cm1\<rparr>, pl_cam := ops, pl_history := pl_history x @ [configuration cm1]\<rparr>"
  have step: "pipe_step env load av_send x ?y" using pipe_step.camera[OF Cons.prems(2) op(1)] by simp
  obtain hs where "(pipe_step env load av_send)\<^sup>*\<^sup>* ?y
      (?y\<lparr>pl_srv := (pl_srv ?y)\<lparr>cameramgr := cm\<rparr>, pl_cam := [], pl_history := pl_history ?y @ hs\<rparr>)"
    using Cons.IH[of ?y] op(2) by auto
  moreover have "?y\<lparr>pl_srv := (pl_srv ?y)\<lparr>cameramgr := cm\<rparr>, pl_cam := [], pl_history := pl_history ?y @ hs\<rparr>
      = x\<lparr>pl_srv := (pl_srv x)\<lparr>cameramgr := cm\<rparr>, pl_cam := [], pl_history := pl_history x @ configuration cm1 # hs\<rparr>" by simp
  ultimately show ?case using step converse_rtranclp_into_rtranclp by metis
qed

end
