(* ===== verification/Spec2Isabelle.thy ===== *)
theory Spec2Isabelle
  imports Codec_Locks Tickets Pipeline_Stall Main_Config Packet_Stream Timing Camera_Path Text_Lock Program_Run Frame_Origin
begin

text \<open>
  Verification of the NGP encode server (\<open>src/\<close>): a C++ program that asks remote renderers for
  frames of a scene, draws an overlay on them, encodes them and streams the packets to
  WebSocket clients.

  \<^bold>\<open>The program.\<close> \<open>main.cpp\<close> builds four H.264 encoders (scene and depth image, left and right
  eye), a text renderer, four packet servers, a camera server, a queue and a map of frames per
  eye, and ten threads. For each renderer a managing thread connects and runs a client thread
  (\<open>server.cpp\<close>), which draws a ticket (eye and frame index) from shared counters, sends a
  request with the current camera of that eye and pushes the rendered frame into the queue of
  the eye the response names. A processing thread per eye (\<open>encode.cpp\<close>) pops a frame, draws four texts
  on it, converts it to the encoder's format and files it in the map under its index. A
  sending thread per eye takes the frames from the map in the order of their indices, waiting
  a second for each, and feeds the two encoders of the eye. A packet thread per encoder
  broadcasts what comes out. The camera server changes cameras and encoder sizes at any time.

  \<^bold>\<open>The theories\<close>, with the code each models:

  \<^item> \<open>Prelude\<close>: machine integers, the errors a call can end with, sequencing of fallible calls,
    reachability with the invariant rule (locale \<open>step_invariant\<close>), \<open>std::map\<close> as a sorted
    association list.
  \<^item> \<open>Monitor\<close>: a mutex with condition variables and timed waits, for any data and any number of
    threads, with spurious wake-ups and time-outs (locales \<open>monitor_data\<close>, \<open>wake_balanced\<close>,
    \<open>wake_notified\<close>). A call reads the data in one step and writes them back in another, so that
    its atomicity is a consequence of the mutex: mutual exclusion, nothing changes between reading
    and writing, the completed calls are a serial run of a specification, no wake-up is lost.
  \<^item> \<open>Frame_Queue\<close>, \<open>Frame_Map\<close>: \<open>frame_queue.*\<close> and \<open>frame_map.*\<close>, as atomic operations and as
    instances of the monitor; the contracts \<open>bounded_fifo\<close> and \<open>keyed_store\<close> their clients use.
    FIFO delivery, linearizability against a FIFO channel and a partial map, bounds, no lost wake-up.
  \<^item> \<open>Socket_IO\<close>: the blocking transfers and length-prefix framing of \<open>server.cpp\<close>, over scripts of
    what the kernel answers to each call. Round trip over every segmentation, totality of the
    send, every outcome of the reception.
  \<^item> \<open>Codec\<close>, \<open>Codec_Locks\<close>: \<open>AVCodecContextManager\<close> (\<open>type_managers.*\<close>), its initialisation and
    its two locks as a step relation: exclusion, failed reinitialisation, the torn read.
  \<^item> \<open>Codec_Memory\<close>: \<open>AVPacketManager\<close>, \<open>AVDictionaryManager\<close> and the constructor and destructor of
    \<open>AVCodecContextManager\<close> on explicit stores of libav's objects: what is given back and what
    leaks, as a refinement of \<open>Codec\<close>.
  \<^item> \<open>Messages\<close>, \<open>Wire_Format\<close>: the messages of \<open>nes.proto\<close> as records, the contract of the generated
    message code (locale \<open>message_format\<close>) and the documented encoding, which meets it.
  \<^item> \<open>Camera_Manager\<close>: \<open>camera_manager.*\<close>; both eyes are instances of the locale \<open>eye\<close>. Cameras and
    encoders stay in step unless a call throws.
  \<^item> \<open>Camera_Steps\<close>: the four encoders by name, and the calls of \<open>camera_manager.*\<close> as the sequence of
    their single writes, the form in which other threads see them.
  \<^item> \<open>Servers\<close>: \<open>websocket_server.*\<close>, \<open>packet_stream.*\<close>, \<open>camera_control.*\<close>. Broadcasts, packet
    marks, life cycle, dispatch of camera messages.
  \<^item> \<open>Connection_Walk\<close>: the loops of \<open>send_to_all\<close> and \<open>stop\<close> over the connection set, interleaved with the
    handlers that change it (locale \<open>connection_loop\<close>): whom a broadcast reaches, and how a client
    that leaves invalidates the iterator.
  \<^item> \<open>Render_Text\<close>: \<open>render_text.*\<close> with its 32-bit arithmetic and explicit buffer bounds: exactly
    the pixels of the text are set, or the buffer was too short.
  \<^item> \<open>Text_Lock\<close>: the text renderer under its mutex, as an instance of the monitor: the overlays the two
    processing threads draw at the same time do not mix. Its construction and destruction.
  \<^item> \<open>Frames\<close>: \<open>FrameManager\<close>, \<open>AVFrameWrapper\<close>, \<open>SwsContextManager\<close> (\<open>type_managers.*\<close>) and
    \<open>rendered_frame.*\<close> on an explicit heap: what is released, what leaks.
  \<^item> \<open>Text_Format\<close>: the standard library's printing and parsing as used by the threads.
  \<^item> \<open>Server_Threads\<close>, \<open>Tickets\<close>: the client and managing threads of \<open>server.cpp\<close>, round by
    round, and the interleaving of the two atomic operations of a ticket.
  \<^item> \<open>Exchange\<close>: a conversation of a client thread with a renderer over any number of rounds, through
    message code, framing, socket and queues (locale \<open>renderer_link\<close>), while other threads take
    frames from the queues.
  \<^item> \<open>Camera_Path\<close>: from the camera messages of a viewer, through camera server and camera manager,
    to the requests of the client threads.
  \<^item> \<open>Encode_Threads\<close>, \<open>Shutdown\<close>: the threads of \<open>encode.cpp\<close>, round by round and as whole loops
    (locale \<open>ending_body\<close>): what a round leaves, in pixels, scaled images, bytes handed to the encoders
    and messages, when it throws, and that every loop ends at shutdown.
  \<^item> \<open>Timing\<close>: \<open>ScopedTimer\<close> (\<open>scoped_timer.h\<close>) and the averages three threads log with it (locale
    \<open>interval_stats\<close>).
  \<^item> \<open>Packet_Stream\<close>: many rounds of the packet thread with its packets: what each client of a
    packet server gets.
  \<^item> \<open>Pipeline\<close>, \<open>Pipeline_Stall\<close>: the frame path of both eyes as a step relation over the
    functions of the thread theories; memory safety, the order and uniqueness of what the
    encoders get (locale \<open>frame_runs\<close> follows a response from arrival to encoder), and the
    livelock of a map full of frames that came too late.
  \<^item> \<open>Main_Config\<close>: \<open>main.cpp\<close> and \<open>socket_main_thread\<close>: options, start, threads and their arguments,
    shutdown and exit status.
  \<^item> \<open>Program_Run\<close>: \<open>main\<close> with all its threads on their objects, up to the last \<open>join\<close>, and the
    objects the threads leave to the end of \<open>main\<close>: a shutdown request ends
    the program, unless a renderer has fallen silent.
  \<^item> \<open>Frame_Origin\<close>: the arrival each frame of the frame path stems from, and the moments at which the
    sizes of its images were read.
  \<^item> This theory: sizes of frames from the start of the program to the encoders.

  \<^bold>\<open>State and errors.\<close> A class is a record with the source's member names, a member function a
  function that returns the changed record and, where it can throw, a value of \<open>error + 'a\<close>.
  Undefined behaviour is made visible as the errors \<open>OutOfBounds\<close>, \<open>NullPointer\<close> and
  \<open>InvalidFree\<close>. Integers that can wrap around are words of their width.

  \<^bold>\<open>Parameters, scripts and bounds.\<close> libav, FreeType, websocketpp, the generated protobuf code and
  the argument parser are arguments of the definitions that call them. Loops whose course
  depends on the outside (sockets, polls, shutdown flag) run over a script with one entry per
  round or call; a loop that outlives its script is \<open>Blocked\<close> or \<open>None\<close>, and the theorems that
  say that a loop returns name the scripts under which it does (a socket that keeps accepting
  bytes, a stream that holds the whole message). Theorems on drawing assume frames of at most
  65535 pixels a side and glyphs of bounded size, which exclude overflow of the pen
  position; theorems on indices say where the 64-bit wrap-around matters.

  \<^bold>\<open>Concurrency.\<close> The monitor theories show that the mutex makes the calls on queue and map atomic; the
  pipeline interleaves the threads at these calls. The encoder configurations are copied without a lock:
  there a client thread reads number by number, between the single writes with which the
  camera thread changes one encoder after the other (\<open>pipe_step\<close>). Time is abstract: a timed wait may time out
  whenever its condition does not hold. Objects the program shares without a lock, the
  connection set of \<open>WebSocketServer\<close> and the cameras of \<open>CameraManager\<close>, are modelled as if each single
  access were atomic; \<open>Connection_Walk\<close> shows what goes wrong with the set even so.

  \<^bold>\<open>Not modelled\<close>: the text of log messages (\<open>logging.h\<close>); \<open>set_thread_name\<close>, which is never called; the
  contents of encoded packets and converted images beyond the parameters that compute them; how
  the generated message code copies a camera that another thread is assigning.
\<close>

section \<open>Frame sizes, from the start of the program to the encoders\<close>

text \<open>The images of a frame are made for an encoder configuration.\<close>

definition made_for :: "CodecInitInfo \<Rightarrow> RenderedFrame \<Rightarrow> bool" where
  "made_for info f = (contexts f = (FrameContext_of info, FrameContext_of info))"

text \<open>A step of the frame path in which no encoder changes its configuration.\<close>

definition quiet_step ::
  "client_env \<Rightarrow> (char \<Rightarrow> glyph \<Rightarrow> int \<times> glyph) \<Rightarrow> av_send_fun \<Rightarrow> pipeline \<Rightarrow> pipeline \<Rightarrow> bool" where
  "quiet_step env load av_send x y =
     (pipe_step env load av_send x y \<and> same_configuration x y)"

definition reads_of :: "CodecInitInfo \<Rightarrow> arrival \<Rightarrow> bool" where
  "reads_of info a = (\<forall>k < length (ar_dims a). ar_dims a ! k = dim_of SceneLeft DepthLeft (\<lambda>_. info) k)"

definition all_made_for :: "CodecInitInfo \<Rightarrow> pipeline \<Rightarrow> bool" where
  "all_made_for info x =
     ((\<forall>s. m_info (codec_of s (m_codecs (cameramgr (pl_srv x)))) = info) \<and> (\<forall>f \<in> pipe_frames x. made_for info f)
      \<and> (\<forall>a \<in> set (pl_reading x). reads_of info a))"

lemma all_made_step:
  assumes step: "quiet_step env load av_send x y" and all: "all_made_for info x"
    and env: "ctxmgr_scene env = codec_of sc" "ctxmgr_depth env = codec_of de"
  shows "all_made_for info y"
proof -
  have p: "pipe_step env load av_send x y" using step by (simp add: quiet_step_def)
  have "m_info (codec_of s (m_codecs (cameramgr (pl_srv y)))) = m_info (codec_of s (m_codecs (cameramgr (pl_srv x))))" for s
    using step by (cases s) (simp_all add: quiet_step_def same_configuration_def Let_def)
  moreover have "reads_of info a" if "a \<in> set (pl_reading y)" for a
    using step_reading[OF p that] all
    by (auto simp: all_made_for_def reads_of_def read_next_def nth_append read_dim_def dim_of_def env Let_def less_Suc_eq)
  moreover have "made_for info f" if "f \<in> pipe_frames y" for f
    using step_frames[OF p that]
  proof
    assume "\<exists>g \<in> pipe_frames x. frame_id g = frame_id f"
    then show ?thesis using all by (auto simp: all_made_for_def made_for_def frame_id_def)
  next
    assume "\<exists>a \<in> set (pl_reading x). length (ar_dims a) = 4 \<and> pl_built y = pl_built x @ [a]
      \<and> frame_id f = (ar_frame a, arrival_contexts env (pl_srv x) a)"
    then obtain a where a: "a \<in> set (pl_reading x)" "length (ar_dims a) = 4" "contexts f = arrival_contexts env (pl_srv x) a"
      by (auto simp: frame_id_def)
    then have "\<forall>k < 4. ar_dims a ! k = dim_of SceneLeft DepthLeft (\<lambda>_. info) k" using all by (simp add: all_made_for_def reads_of_def)
    then show ?thesis
      using all a(3) by (simp add: made_for_def arrival_contexts_def env all_made_for_def sized_def dim_of_def FrameContext_of_def)
  qed
  ultimately show ?thesis using all by (simp add: all_made_for_def)
qed

lemma bootstrap_frame_path:
  assumes "bootstrap env opts = (Inr p, ss)"
  shows "pipe_start (pipeline_of p)" "all_made_for (codec_info opts) (pipeline_of p)"
    and "m_ctx (codec_of s (m_codecs (cameramgr (frame_state p)))) \<noteq> None"
proof -
  obtain cs ctx where c: "make_codecs env opts = Inr cs" "RenderTextContext_new (freetype env) (font_flag opts) = Inr ctx"
    "list_all (port_ok env) (all_ports opts)" using bootstrap_inputs[OF assms] by blast
  have st: "frame_state p = \<lparr>sv_is_left = 0, frame_index_left = 0, frame_index_right = 0,
          cameramgr = CameraManager_new cs (width_flag opts) (height_flag opts),
          frame_queue_left = FrameQueue_new, frame_queue_right = FrameQueue_new, sv_heap = heap_empty\<rparr>"
    "frame_maps p = (\<lambda>_. FrameMap_new)"
    using bootstrap_cases[OF c(1,2)] c(3) assms by simp_all
  then show start: "pipe_start (pipeline_of p)" by (simp add: pipe_start_def pipeline_of_def)
  have cm: "m_codecs (cameramgr (frame_state p)) = cs" by (simp add: st(1) CameraManager_new_def)
  show "all_made_for (codec_info opts) (pipeline_of p)"
    using make_codecs_ready[OF c(1)] cm pipe_frames_start[OF start] by (simp add: all_made_for_def pipeline_of_def)
  show "m_ctx (codec_of s (m_codecs (cameramgr (frame_state p)))) \<noteq> None"
    using make_codecs_ready[OF c(1), of s] cm by (simp add: codec_ready_def)
qed

text \<open>The runs from a given start that have led to a given configuration of the right scene encoder.\<close>

lemma run_from_inv: "(pipe_step env load av_send)\<^sup>*\<^sup>* x0 x \<Longrightarrow> pipe_start x0 \<Longrightarrow> pipe_inv x"
  by (induction rule: rtranclp_induct) (auto intro: pipe_inv_start pipe.inv_step)

interpretation configured: frame_runs env load av_send "\<lambda>x. pipe_start x0 \<and> (pipe_step env load av_send)\<^sup>*\<^sup>* x0 x
    \<and> m_info (scene_right (m_codecs (cameramgr (pl_srv x)))) = info"
  by unfold_locales (auto simp: same_configuration_def Let_def intro: run_from_inv rtranclp.rtrancl_into_rtrancl)

text \<open>The runs from a given start in which no encoder is reconfigured.\<close>

definition quiet_run ::
  "pipeline \<Rightarrow> client_env \<Rightarrow> (char \<Rightarrow> glyph \<Rightarrow> int \<times> glyph) \<Rightarrow> av_send_fun \<Rightarrow> pipeline \<Rightarrow> bool" where
  "quiet_run x0 env load av_send = reach (\<lambda>s. s = x0) (quiet_step env load av_send)"

lemma quiet_run_inv: "quiet_run x0 env load av_send x \<Longrightarrow> pipe_start x0 \<Longrightarrow> pipe_inv x"
  unfolding quiet_run_def
  by (induction rule: reach.induct) (auto simp: quiet_step_def intro: pipe_inv_start pipe.inv_step)

interpretation quiet: frame_runs env load av_send "\<lambda>x. pipe_start x0 \<and> quiet_run x0 env load av_send x"
  by unfold_locales (auto simp: quiet_run_def quiet_step_def intro: quiet_run_inv[unfolded quiet_run_def] reach_step)

lemma quiet_run_steps: "quiet_run x0 env load av_send x \<Longrightarrow> (pipe_step env load av_send)\<^sup>*\<^sup>* x0 x"
  unfolding quiet_run_def
  by (induction rule: reach.induct) (auto simp: quiet_step_def intro: rtranclp.rtrancl_into_rtrancl)

lemma quiet_run_made:
  assumes "bootstrap env opts = (Inr p, ss)"
    and "quiet_run (pipeline_of p) (socket_env (hd (main_threads opts)) cenv) load av_send x"
  shows "all_made_for (codec_info opts) x"
  using assms(2) bootstrap_frame_path(2)[OF assms(1)] unfolding quiet_run_def
  by (induction rule: reach.induct)
    (auto intro: all_made_step[where sc = SceneLeft and de = DepthLeft] simp: main_threads_def)

lemma demo_start_camera:
  assumes "bootstrap demo_main_env default_options = (Inr p, ss)"
  shows "cam_width (m_camera_right (cameramgr (frame_state p))) = 1280"
proof -
  obtain cs where cs: "make_codecs demo_main_env default_options = Inr cs" using demo_main_inputs(1) by blast
  show ?thesis
    using bootstrap_cases[OF cs demo_main_inputs(2)] demo_ports assms
    by (simp add: CameraManager_new_def) (simp add: default_options_def)
qed

text \<open>A run in which one right frame is filed under the index the right sending thread waits for.\<close>

abbreviation demo_main_client :: client_env where
  "demo_main_client \<equiv> socket_env (hd (main_threads default_options)) demo_client_env"

lemma demo_main_client_facts:
  "\<forall>a b. sws_getContext (av demo_main_client) a b" "av_healthy (av demo_main_client)"
  using demo_env_facts(2,3) by (simp_all add: main_threads_def)

lemma demo_right_filed:
  "\<exists>p ss y f. bootstrap demo_main_env default_options = (Inr p, ss)
     \<and> quiet_run (pipeline_of p) demo_main_client demo_load demo_encoder y
     \<and> map_of (m_map (pl_map y False)) (s_frame_index (pl_send y False)) = Some f \<and> pl_sending y False = None
     \<and> pl_fed y False = [] \<and> pl_cam y = [] \<and> cameramgr (pl_srv y) = cameramgr (frame_state p)"
proof -
  let ?r = "demo_text_response\<lparr>resp_index := 0, resp_is_left := False\<rparr>"
  obtain p ss where b: "bootstrap demo_main_env default_options = (Inr p, ss)" using demo_bootstrap by blast
  obtain cs where cs: "make_codecs demo_main_env default_options = Inr cs" using demo_main_inputs(1) by blast
  have st: "etctx p = demo_text" "frame_queue_right (frame_state p) = FrameQueue_new" "frame_maps p = (\<lambda>_. FrameMap_new)"
    using bootstrap_cases[OF cs demo_main_inputs(2)] demo_ports b by simp_all
  let ?x = "pipeline_of p"
  have r0: "pipe_start ?x \<and> quiet_run ?x demo_main_client demo_load demo_encoder ?x"
    using bootstrap_frame_path(1)[OF b] by (simp add: quiet_run_def reach_start)
  have d: "m_queue (eye_queue False (pl_srv ?x)) = []" "pl_held ?x False = None" "face (pl_text ?x) \<noteq> None"
    "resp_is_left ?r = False" "sound_response ?r" "length (m_map (pl_map ?x False)) < kFrameMapMaxSize"
    "view (pl_map ?x False) (resp_index ?r) = None"
    using demo_response_sound[of 0]
    by (simp_all add: pipeline_of_def st eye_queue_def FrameQueue_new_def demo_text_def FrameMap_new_def
        kFrameMapMaxSize_def view_def sound_response_def)
  obtain y f where y: "quiet_run ?x demo_main_client demo_load demo_encoder y"
      "m_map (pl_map y False) = map_insert (resp_index ?r) f (m_map (pl_map ?x False))"
      "pl_sending y = pl_sending ?x" "pl_send y = pl_send ?x" "pl_fed y = pl_fed ?x"
      "cameramgr (pl_srv y) = cameramgr (pl_srv ?x)" "pl_cam y = pl_cam ?x"
    using quiet.file_one[OF r0 d(1-5) demo_env_facts(1) demo_main_client_facts(1) d(6,7)] by blast
  have "map_of (m_map (pl_map y False)) (s_frame_index (pl_send y False)) = Some f"
    using y(2,4) by (simp add: pipeline_of_def st FrameMap_new_def)
  then show ?thesis using b y by (auto simp: pipeline_of_def)
qed

section \<open>Properties\<close>

text \<open>
  C34. From a successful start, over any interleaving of the frame path in which no camera message
  changes a resolution, every frame handed to the encoders of either eye has been
  scaled to the size and format those encoders are configured for.
\<close>

theorem fed_frames_match_encoders:
  assumes "bootstrap env opts = (Inr p, ss)"
    and "quiet_run (pipeline_of p) (socket_env (hd (main_threads opts)) cenv) load av_send x"
    and "f \<in> set (pl_fed x b)"
  shows "FrameContext_of (m_info (codec_of (if b then SceneLeft else SceneRight) (m_codecs (cameramgr (pl_srv x)))))
      = m_context (m_converted_avframe_scene f)
    \<and> FrameContext_of (m_info (codec_of (if b then DepthLeft else DepthRight) (m_codecs (cameramgr (pl_srv x)))))
      = m_context (m_converted_avframe_depth f)"
proof -
  have "all_made_for (codec_info opts) x" using quiet_run_made[OF assms(1,2)] .
  then have "made_for (codec_info opts) f" "\<And>s. m_info (codec_of s (m_codecs (cameramgr (pl_srv x)))) = codec_info opts"
    using assms(3) unfolding all_made_for_def pipe_frames_def by blast+
  then show ?thesis by (simp add: made_for_def contexts_def)
qed

theorem fed_frames_match_encoders_witness:
  "\<exists>p ss x f. bootstrap demo_main_env default_options = (Inr p, ss)
     \<and> quiet_run (pipeline_of p) (socket_env (hd (main_threads default_options)) demo_client_env) demo_load demo_encoder x
     \<and> pl_fed x False = [f]
     \<and> m_context (m_converted_avframe_scene f) = FrameContext_of (m_info (scene_right (m_codecs (cameramgr (pl_srv x)))))"
proof -
  obtain p ss cs y f where y: "bootstrap demo_main_env default_options = (Inr p, ss)"
      "quiet_run (pipeline_of p) demo_main_client demo_load demo_encoder y"
      "map_of (m_map (pl_map y False)) (s_frame_index (pl_send y False)) = Some f" "pl_sending y False = None"
      "pl_fed y False = []" "cameramgr (pl_srv y) = cameramgr (frame_state p)" "pl_cam y = []"
    using demo_right_filed by blast
  note codecs = bootstrap_frame_path(3)[OF y(1), of SceneRight] bootstrap_frame_path(3)[OF y(1), of DepthRight]
  have c: "m_ctx (snd_scene (send_view False y)) \<noteq> None" "m_ctx (snd_depth (send_view False y)) \<noteq> None"
    using y(6) codecs by (simp_all add: send_view_def Let_def)
  have "pipe_start (pipeline_of p) \<and> quiet_run (pipeline_of p) demo_main_client demo_load demo_encoder y"
    using y(2) bootstrap_frame_path(1)[OF y(1)] by simp
  from quiet.feed_one[OF this y(4,3) c demo_main_client_facts(2) y(7)] obtain z
    where z: "quiet_run (pipeline_of p) demo_main_client demo_load demo_encoder z" "pl_fed z False = [f]"
    using y(5) by auto
  then have "f \<in> set (pl_fed z False)" by simp
  from fed_frames_match_encoders[OF y(1) z(1) this] show ?thesis using y(1) z by auto
qed

text \<open>
  C35. Where every encoded frame comes from. From a successful start, over any interleaving and any
  camera messages, a frame handed to the encoders of either eye has been built from a response that
  arrived, and the four dimensions of its images are four numbers that were read one after
  the other from the left encoders between the arrival of the response and the queueing of the
  frame: scene width, scene height, depth width, depth height, each as the left encoder had it at its
  own moment. \<open>pl_history\<close> holds every configuration since the start, up to the present one. The
  numbers need not have been in force together, and for a right frame they are not those of the
  encoders it is handed to.
\<close>

theorem fed_frame_origin:
  assumes "bootstrap env opts = (Inr p, ss)"
    and "(pipe_step (socket_env (hd (main_threads opts)) cenv) load av_send)\<^sup>*\<^sup>* (pipeline_of p) x"
    and "f \<in> set (pl_fed x b)"
  shows "hd (pl_history x) = (\<lambda>s. codec_info opts) \<and> last (pl_history x) = configuration (cameramgr (pl_srv x))
    \<and> (\<exists>a \<in> set (pl_built x). \<exists>k0 k1 k2 k3 k4. ar_frame a = m_frame_response f \<and> m_frame_response f \<in> set (pl_arrived x)
         \<and> ar_at a = [k0, k1, k2, k3, k4] \<and> k0 \<le> k1 \<and> k1 \<le> k2 \<and> k2 \<le> k3 \<and> k3 \<le> k4 \<and> k4 < length (pl_history x)
         \<and> m_context (m_converted_avframe_scene f) = \<lparr>fc_width = info_width ((pl_history x ! k1) SceneLeft),
              fc_height = info_height ((pl_history x ! k2) SceneLeft), fc_pix_fmt = AV_PIX_FMT_YUV420P\<rparr>
         \<and> m_context (m_converted_avframe_depth f) = \<lparr>fc_width = info_width ((pl_history x ! k3) DepthLeft),
              fc_height = info_height ((pl_history x ! k4) DepthLeft), fc_pix_fmt = AV_PIX_FMT_YUV420P\<rparr>)"
proof -
  let ?c0 = "configuration (cameramgr (frame_state p))"
  have c0: "?c0 = (\<lambda>s. codec_info opts)"
    using bootstrap_frame_path(2)[OF assms(1)] by (simp add: all_made_for_def configuration_def pipeline_of_def fun_eq_iff)
  have env: "ctxmgr_scene (socket_env (hd (main_threads opts)) cenv) = codec_of SceneLeft"
    "ctxmgr_depth (socket_env (hd (main_threads opts)) cenv) = codec_of DepthLeft" by (simp_all add: main_threads_def)
  have inv: "origin_inv SceneLeft DepthLeft ?c0 x"
    by (rule origin_inv_run[OF assms(2) _ env]) (use origin_inv_start[OF bootstrap_frame_path(1)[OF assms(1)]] in \<open>simp add: pipeline_of_def\<close>)
  have "f \<in> pipe_frames x" using assms(3) by (auto simp: pipe_frames_def)
  then obtain a where a: "a \<in> set (pl_built x)" "length (ar_dims a) = 4"
      "frame_id f = (ar_frame a, read_contexts (pix_fmt (codec_info opts)) (pix_fmt (codec_info opts)) a)"
    using inv unfolding origin_inv_def c0 by auto
  have ok: "reads_ok SceneLeft DepthLeft (pl_history x) a" using a(1) inv by (simp add: origin_inv_def)
  then obtain k0 k1 k2 k3 k4 where k: "ar_at a = [k0, k1, k2, k3, k4]"
    using a(2) by (auto simp: reads_ok_def length_Suc_conv numeral_eq_Suc)
  have d: "\<forall>j < 4. ar_dims a ! j = dim_of SceneLeft DepthLeft (pl_history x ! (ar_at a ! Suc j)) j"
    using ok a(2) by (simp add: reads_ok_def)
  have "accounted x" using run_from_inv[OF assms(2) bootstrap_frame_path(1)[OF assms(1)]] by (simp add: pipe_inv_def)
  then have "set (pl_arrived x) = ar_frame ` set (pl_built x @ pl_reading x)"
    unfolding accounted_def by (metis set_map set_mset_mset)
  then have "ar_frame a \<in> set (pl_arrived x)" using a(1) by simp
  moreover have "k0 \<le> k1 \<and> k1 \<le> k2 \<and> k2 \<le> k3 \<and> k3 \<le> k4 \<and> k4 < length (pl_history x)"
    using ok k by (simp add: reads_ok_def)
  moreover have "ar_dims a ! 0 = info_width ((pl_history x ! k1) SceneLeft)" "ar_dims a ! 1 = info_height ((pl_history x ! k2) SceneLeft)"
      "ar_dims a ! 2 = info_width ((pl_history x ! k3) DepthLeft)" "ar_dims a ! 3 = info_height ((pl_history x ! k4) DepthLeft)"
    using d[rule_format, of 0] d[rule_format, of 1] d[rule_format, of 2] d[rule_format, of 3]
    by (simp_all add: k dim_of_def numeral_2_eq_2 numeral_3_eq_3)
  moreover have "ar_frame a = m_frame_response f" "pix_fmt (codec_info opts) = AV_PIX_FMT_YUV420P"
      "m_context (m_converted_avframe_scene f) = \<lparr>fc_width = ar_dims a ! 0, fc_height = ar_dims a ! 1, fc_pix_fmt = pix_fmt (codec_info opts)\<rparr>"
      "m_context (m_converted_avframe_depth f) = \<lparr>fc_width = ar_dims a ! 2, fc_height = ar_dims a ! 3, fc_pix_fmt = pix_fmt (codec_info opts)\<rparr>"
    using a(3) by (simp_all add: frame_id_def contexts_def read_contexts_def codec_info_def)
  moreover have "hd (pl_history x) = (\<lambda>s. codec_info opts)" "last (pl_history x) = configuration (cameramgr (pl_srv x))"
    using inv unfolding origin_inv_def c0 by simp_all
  ultimately show ?thesis using a(1) k by (metis (no_types, lifting))
qed

definition demo_willing_env :: codec_env where
  "demo_willing_env = demo_env\<lparr>find_encoder := \<lambda>_. True, open2 := \<lambda>_ _. 0\<rparr>"

lemma demo_change_resolution:
  "\<exists>m'. change_resolution demo_willing_env w h m = (Inr (), m') \<and> codec_ready m' \<and> info_width (m_info m') = w"
proof -
  have "\<exists>m'. change_resolution demo_willing_env w h m = (Inr (), m')"
    by (simp add: change_resolution_def codec_ctx_init_def demo_willing_env_def Let_def) (simp add: demo_env_def)
  then show ?thesis using change_resolution_ok by fastforce
qed

lemma demo_right_camera:
  assumes "cam_width (m_camera_right cm) = 1280"
  shows "\<exists>cm'. set_camera_right demo_willing_env demo_willing_env demo_camera cm = (Inr (), cm')
    \<and> codec_ready (scene_right (m_codecs cm')) \<and> codec_ready (depth_right (m_codecs cm'))
    \<and> info_width (m_info (scene_right (m_codecs cm'))) = 640"
proof -
  have w: "cam_width (make_even demo_camera) = 640" "cam_width demo_camera \<noteq> 1280"
    by (simp_all add: demo_camera_def make_even_def)
  obtain s d where
    s: "change_resolution demo_willing_env 640 (cam_height (make_even demo_camera)) (scene_right (m_codecs cm)) = (Inr (), s)"
       "codec_ready s" "info_width (m_info s) = 640"
    and d: "change_resolution demo_willing_env 640 (cam_height (make_even demo_camera)) (depth_right (m_codecs cm)) = (Inr (), d)"
       "codec_ready d"
    using demo_change_resolution by metis
  show ?thesis using assms s d w by (simp add: set_camera_right_def Let_def)
qed

text \<open>
  A right frame that is filed before the right camera changes is handed to right encoders that
  have another size by then.
\<close>

theorem fed_frame_origin_witness:
  "\<exists>p ss x f a. bootstrap demo_main_env default_options = (Inr p, ss)
     \<and> (pipe_step demo_main_client demo_load demo_encoder)\<^sup>*\<^sup>* (pipeline_of p) x \<and> pl_fed x False = [f]
     \<and> a \<in> set (pl_built x) \<and> ar_frame a = m_frame_response f \<and> m_frame_response f \<in> set (pl_arrived x)
     \<and> fc_width (m_context (m_converted_avframe_scene f)) = info_width ((pl_history x ! (ar_at a ! 1)) SceneLeft)
     \<and> fc_width (m_context (m_converted_avframe_scene f)) \<noteq> info_width (m_info (scene_right (m_codecs (cameramgr (pl_srv x)))))"
proof -
  let ?step = "pipe_step demo_main_client demo_load demo_encoder"
  obtain p ss y f where y: "bootstrap demo_main_env default_options = (Inr p, ss)"
      "quiet_run (pipeline_of p) demo_main_client demo_load demo_encoder y"
      "map_of (m_map (pl_map y False)) (s_frame_index (pl_send y False)) = Some f" "pl_sending y False = None"
      "pl_fed y False = []" "cameramgr (pl_srv y) = cameramgr (frame_state p)" "pl_cam y = []"
    using demo_right_filed by blast
  have "cam_width (m_camera_right (cameramgr (frame_state p))) = 1280"
    using demo_start_camera[OF y(1)] .
  from demo_right_camera[OF this] obtain cm :: CameraManager where
      cm: "set_camera_right demo_willing_env demo_willing_env demo_camera (cameramgr (frame_state p)) = (Inr (), cm)"
      "codec_ready (scene_right (m_codecs cm))"
      "codec_ready (depth_right (m_codecs cm))" "info_width (m_info (scene_right (m_codecs cm))) = 640"
    by blast
  let ?ops = "camera_ops False demo_camera (cameramgr (pl_srv y))"
  let ?m = "y\<lparr>pl_cam := ?ops\<rparr>" and ?info = "m_info (scene_right (m_codecs cm))"
  have "run_camera_ops (\<lambda>s. if s = scene_of False then demo_willing_env else demo_willing_env) ?ops (cameramgr (pl_srv ?m)) = (Inr (), cm)"
    using run_camera_ops_set_camera[of False demo_willing_env demo_willing_env demo_camera "cameramgr (pl_srv y)"] cm(1) y(6) by simp
  from camera_runs[OF this, of demo_main_client demo_load demo_encoder] obtain hs where
    "?step\<^sup>*\<^sup>* ?m (?m\<lparr>pl_srv := (pl_srv ?m)\<lparr>cameramgr := cm\<rparr>, pl_cam := [], pl_history := pl_history ?m @ hs\<rparr>)" by auto
  then obtain z where z: "?step\<^sup>*\<^sup>* ?m z" "z = ?m\<lparr>pl_srv := (pl_srv ?m)\<lparr>cameramgr := cm\<rparr>, pl_cam := [], pl_history := pl_history ?m @ hs\<rparr>"
    by blast
  have "?step y ?m" using pipe_step.message[OF y(7)] .
  then have run: "?step\<^sup>*\<^sup>* (pipeline_of p) z"
    using quiet_run_steps[OF y(2)] z(1) by (meson converse_rtranclp_into_rtranclp rtranclp_trans)
  have c: "m_ctx (snd_scene (send_view False z)) \<noteq> None" "m_ctx (snd_depth (send_view False z)) \<noteq> None"
    using cm(2,3) by (simp_all add: z(2) send_view_def Let_def codec_ready_def)
  have "pipe_start (pipeline_of p) \<and> ?step\<^sup>*\<^sup>* (pipeline_of p) z \<and> m_info (scene_right (m_codecs (cameramgr (pl_srv z)))) = ?info"
    using run bootstrap_frame_path(1)[OF y(1)] by (simp add: z(2))
  from configured.feed_one[OF this _ _ c demo_main_client_facts(2), of f] obtain x where x: "?step\<^sup>*\<^sup>* (pipeline_of p) x"
      "m_info (scene_right (m_codecs (cameramgr (pl_srv x)))) = ?info" "pl_fed x False = [f]"
    using y(3-5) by (auto simp: z(2))
  have "f \<in> pipe_frames y" using y(3) by (auto simp: pipe_frames_iff dest: map_of_SomeD)
  then have wide: "fc_width (m_context (m_converted_avframe_scene f)) = 1280"
    using quiet_run_made[OF y(1,2)] by (auto simp: all_made_for_def made_for_def contexts_def codec_info_def default_options_def FrameContext_of_def)
  have "f \<in> set (pl_fed x False)" using x(3) by simp
  from fed_frame_origin[OF y(1) x(1) this] obtain a k0 k1 k2 k3 k4 where "a \<in> set (pl_built x)" "ar_frame a = m_frame_response f"
      "m_frame_response f \<in> set (pl_arrived x)" "ar_at a = [k0, k1, k2, k3, k4]"
      "fc_width (m_context (m_converted_avframe_scene f)) = info_width ((pl_history x ! k1) SceneLeft)" by auto
  then show ?thesis using y(1) x wide cm(4)
    by (intro exI[of _ p] exI[of _ ss] exI[of _ x] exI[of _ f] exI[of _ a]) simp
qed

end
